(* ===== verification/Prelude.thy ===== *)
theory Prelude
  imports Complex_Main "HOL-Library.AList"
begin

section \<open>Shared vocabulary of the development\<close>

text \<open>
  The Python constructs that the modelled modules share: insertion-ordered dictionaries as
  association lists, ASCII string operations of \<^verbatim>\<open>str\<close>, floating point values seen through
  \<^verbatim>\<open>math.isfinite\<close>, and the lemma collections the component theories use.

  A Python \<^verbatim>\<open>dict\<close> (and \<^verbatim>\<open>OrderedDict\<close>) is an association list with distinct keys in
  insertion order.  \<open>AList.update\<close> overwrites in place and appends a new key at the end, exactly
  as item assignment does; \<open>AList.delete\<close> is \<^verbatim>\<open>pop\<close>.
\<close>

named_theorems od_simps \<open>lookup equations of ordered dictionaries\<close>

type_synonym ('k, 'v) odict = "('k \<times> 'v) list"

abbreviation od_keys :: "('k, 'v) odict \<Rightarrow> 'k list" where
  "od_keys d \<equiv> map fst d"

abbreviation od_wf :: "('k, 'v) odict \<Rightarrow> bool" where
  "od_wf d \<equiv> distinct (od_keys d)"

definition od_set :: "'k \<Rightarrow> 'v \<Rightarrow> ('k, 'v) odict \<Rightarrow> ('k, 'v) odict" where
  "od_set k v d = AList.update k v d"

definition od_pop :: "'k \<Rightarrow> ('k, 'v) odict \<Rightarrow> ('k, 'v) odict" where
  "od_pop k d = AList.delete k d"

definition od_move_to_end :: "'k \<Rightarrow> ('k, 'v) odict \<Rightarrow> ('k, 'v) odict" where
  "od_move_to_end k d =
     (case map_of d k of None \<Rightarrow> d | Some v \<Rightarrow> AList.delete k d @ [(k, v)])"

lemma od_wf_set [simp, intro]: "od_wf d \<Longrightarrow> od_wf (od_set k v d)"
  by (simp add: od_set_def distinct_update)

lemma od_wf_pop [simp, intro]: "od_wf d \<Longrightarrow> od_wf (od_pop k d)"
  by (simp add: od_pop_def distinct_delete)

lemma od_wf_tl [simp, intro]: "od_wf d \<Longrightarrow> od_wf (tl d)"
  by (simp add: map_tl distinct_tl)

lemma od_get_set [od_simps]: "map_of (od_set k v d) = (map_of d)(k \<mapsto> v)"
  by (simp add: od_set_def update_conv')

lemma od_get_pop [od_simps]: "map_of (od_pop k d) = (map_of d)(k := None)"
  by (simp add: od_pop_def delete_conv')

lemma od_get_snoc: "map_of (d @ [(k, v)]) j = (case map_of d j of None \<Rightarrow> if j = k then Some v else None | Some w \<Rightarrow> Some w)"
  by (simp add: map_add_def split: option.split)

lemma od_get_move_to_end [od_simps]: "map_of (od_move_to_end k d) = map_of d"
  by (rule ext)
    (auto simp: od_move_to_end_def map_add_def delete_conv' fun_upd_def split: option.splits)

lemma od_wf_move_to_end [simp, intro]: "od_wf d \<Longrightarrow> od_wf (od_move_to_end k d)"
  by (auto simp: od_move_to_end_def delete_keys distinct_removeAll split: option.split)

lemma od_length_set:
  "length (od_set k v d) = (if k \<in> fst ` set d then length d else Suc (length d))"
  unfolding od_set_def by (induction d) auto

lemma od_set_subset: "set (od_set k v d) \<subseteq> insert (k, v) (set d)"
  unfolding od_set_def by (induction d) auto

lemma od_set_ball:
  "(\<forall>(k, v) \<in> set d. P k v) \<Longrightarrow> P k v \<Longrightarrow> \<forall>(k, v) \<in> set (od_set k v d). P k v"
  using od_set_subset [of k v d] by auto

lemma od_length_set_le: "length (od_set k v d) \<le> Suc (length d)"
  by (simp add: od_length_set)

lemma sum_od_set: "sum_list (map (\<lambda>(k, v). f v) (od_set k v d)) \<le> sum_list (map (\<lambda>(k, v). f v) d) + (f v :: nat)"
  unfolding od_set_def by (induction d) auto

lemma list_all_od_set: "list_all P d \<Longrightarrow> P (k, v) \<Longrightarrow> list_all P (od_set k v d)"
  unfolding od_set_def by (induction d) auto

lemma od_length_pop:
  "od_wf d \<Longrightarrow> k \<in> fst ` set d \<Longrightarrow> Suc (length (od_pop k d)) = length d"
  unfolding od_pop_def by (induction d) (auto simp: delete_id)

lemma od_length_pop_le: "length (od_pop k d) \<le> length d"
  by (simp add: od_pop_def length_delete_le)

lemma od_length_move_to_end: "od_wf d \<Longrightarrow> length (od_move_to_end k d) = length d"
proof (cases "map_of d k")
  case (Some v)
  moreover assume "od_wf d"
  moreover from Some have "k \<in> fst ` set d" by (force dest: map_of_SomeD)
  ultimately show ?thesis
    using od_length_pop [of d k] by (simp add: od_move_to_end_def od_pop_def)
qed (simp add: od_move_to_end_def)

lemma od_keys_set [od_simps]: "fst ` set (od_set k v d) = insert k (fst ` set d)"
  by (simp add: od_set_def dom_update)

lemma od_keys_pop [od_simps]: "fst ` set (od_pop k d) = fst ` set d - {k}"
  by (metis list.set_map od_pop_def delete_keys set_removeAll)

lemma od_keys_move_to_end [od_simps]: "fst ` set (od_move_to_end k d) = fst ` set d"
  by (metis dom_map_of_conv_image_fst od_get_move_to_end)

lemma od_keys_iff: "k \<in> fst ` set d \<longleftrightarrow> map_of d k \<noteq> None"
  by (simp add: map_of_eq_None_iff)

text \<open>All keys are below a counter, as for identifiers drawn from it.\<close>

definition od_below :: "nat \<Rightarrow> (nat, 'v) odict \<Rightarrow> bool" where
  "od_below n d \<longleftrightarrow> list_all (\<lambda>e. fst e < n) d"

lemma od_below_iff: "od_below n d \<longleftrightarrow> fst ` set d \<subseteq> {..<n}"
  by (auto simp: od_below_def list_all_iff)

lemma od_below_Nil [simp]: "od_below n []"
  by (simp add: od_below_def)

lemma od_below_set [simp, intro]: "od_below n d \<Longrightarrow> od_below (Suc n) (od_set n v d)"
  by (auto simp: od_below_iff od_simps less_Suc_eq)

lemma od_below_pop [simp, intro]: "od_below n d \<Longrightarrow> od_below n (od_pop k d)"
  by (auto simp: od_below_iff od_simps)

lemma od_below_fresh [simp]: "od_below n d \<Longrightarrow> map_of d n = None"
  by (auto simp: od_below_iff map_of_eq_None_iff)

lemmas od_wfs = od_wf_set od_wf_pop od_wf_tl od_wf_move_to_end

subsection \<open>Bounded insertion\<close>

text \<open>
  Four modules bound a dictionary the same way: \<^verbatim>\<open>popitem(last=False)\<close> or
  \<^verbatim>\<open>pop(next(iter(d)))\<close> drops the oldest entry.  \<open>od_trim\<close> is the loop
  \<^verbatim>\<open>while len(d) > n: d.popitem(last=False)\<close>.
\<close>

fun od_trim :: "nat \<Rightarrow> ('k, 'v) odict \<Rightarrow> ('k, 'v) odict" where
  "od_trim n [] = []"
| "od_trim n (e # d) = (if length (e # d) > n then od_trim n d else e # d)"

lemma od_trim_eq_drop: "od_trim n d = drop (length d - n) d"
  by (induction n d rule: od_trim.induct) (auto simp: Suc_diff_le)

lemma od_trim_length [simp]: "length (od_trim n d) = min n (length d)"
  by (simp add: od_trim_eq_drop)

lemma od_trim_wf [simp, intro]: "od_wf d \<Longrightarrow> od_wf (od_trim n d)"
  by (simp add: od_trim_eq_drop drop_map [symmetric])

lemma map_of_dropD: "od_wf d \<Longrightarrow> map_of (drop m d) k = Some v \<Longrightarrow> map_of d k = Some v"
  by (meson in_set_dropD map_of_SomeD map_of_is_SomeI)

lemma map_of_tlD: "od_wf d \<Longrightarrow> map_of (tl d) k = Some v \<Longrightarrow> map_of d k = Some v"
  using map_of_dropD [of d 1] by (simp add: drop_Suc)

lemma od_keys_tl: "fst ` set (tl d) \<subseteq> fst ` set d"
  by (cases d) auto

lemma od_trim_subset: "od_wf d \<Longrightarrow> map_of (od_trim n d) k = Some v \<Longrightarrow> map_of d k = Some v"
  by (simp add: od_trim_eq_drop map_of_dropD)

lemma od_trim_last:
  assumes "od_wf (d @ [(k, v)])" and "0 < n"
  shows "map_of (od_trim n (d @ [(k, v)])) k = Some v"
proof -
  have "(k, v) \<in> set (od_trim n (d @ [(k, v)]))"
    using assms(2) by (simp add: od_trim_eq_drop drop_append Suc_diff_le)
  then show ?thesis using assms(1) by (intro map_of_is_SomeI) (auto intro: od_trim_wf)
qed

text \<open>
  The contract of a component that keeps a bounded dictionary and serves a stream of events:
  every event keeps the keys distinct and the size within the capacity.  Clients get the bound
  for every run.
\<close>

locale bounded_store =
  fixes step :: "'s \<Rightarrow> 'e \<Rightarrow> 's"
    and entries :: "'s \<Rightarrow> ('k, 'v) odict"
    and capacity :: "'s \<Rightarrow> nat"
  assumes step_wf: "od_wf (entries s) \<Longrightarrow> od_wf (entries (step s e))"
    and step_bound:
      "od_wf (entries s) \<Longrightarrow> 0 < capacity s \<Longrightarrow> length (entries s) \<le> capacity s \<Longrightarrow>
        length (entries (step s e)) \<le> capacity s"
    and step_capacity: "capacity (step s e) = capacity s"
begin

lemma run_bounded:
  assumes "od_wf (entries s)" "0 < capacity s" "length (entries s) \<le> capacity s"
  shows "od_wf (entries (foldl step s es))" (is ?wf)
    and "length (entries (foldl step s es)) \<le> capacity s" (is ?bound)
proof -
  have "?wf \<and> ?bound \<and> capacity (foldl step s es) = capacity s"
  proof (induction es rule: rev_induct)
    case (snoc e es)
    with assms show ?case
      using step_bound [of "foldl step s es" e] by (simp add: step_wf step_capacity)
  qed (use assms in simp)
  then show ?wf ?bound by simp_all
qed

end

subsection \<open>Floating point values\<close>

text \<open>
  A Python float is a finite number (kept as an exact rational), one of the two infinities or
  not-a-number; \<^verbatim>\<open>math.isfinite\<close> tells them apart.  Rounding of float arithmetic is not modelled.
\<close>

datatype pyfloat = PFin rat | PInf | PNegInf | PNaN

fun isfinite :: "pyfloat \<Rightarrow> bool" where
  "isfinite (PFin _) = True"
| "isfinite _ = False"

fun float_less :: "pyfloat \<Rightarrow> rat \<Rightarrow> bool" where
  "float_less (PFin x) y = (x < y)"
| "float_less PNegInf y = True"
| "float_less PInf y = False"
| "float_less PNaN y = False"

subsection \<open>ASCII strings\<close>

text \<open>
  The operations of \<^verbatim>\<open>str\<close> that the modules use, on ASCII text: there \<^verbatim>\<open>lower\<close> and
  \<^verbatim>\<open>casefold\<close> coincide.
\<close>

definition code_of :: "char \<Rightarrow> nat" where
  "code_of c = of_char c"

definition is_upper_char :: "char \<Rightarrow> bool" where
  "is_upper_char c \<longleftrightarrow> 65 \<le> code_of c \<and> code_of c \<le> 90"

definition is_lower_char :: "char \<Rightarrow> bool" where
  "is_lower_char c \<longleftrightarrow> 97 \<le> code_of c \<and> code_of c \<le> 122"

definition is_digit_char :: "char \<Rightarrow> bool" where
  "is_digit_char c \<longleftrightarrow> 48 \<le> code_of c \<and> code_of c \<le> 57"

definition is_alpha_char :: "char \<Rightarrow> bool" where
  "is_alpha_char c \<longleftrightarrow> is_upper_char c \<or> is_lower_char c"

definition is_alnum_char :: "char \<Rightarrow> bool" where
  "is_alnum_char c \<longleftrightarrow> is_alpha_char c \<or> is_digit_char c"

definition is_space_char :: "char \<Rightarrow> bool" where
  "is_space_char c \<longleftrightarrow> code_of c = 32 \<or> (9 \<le> code_of c \<and> code_of c \<le> 13) \<or> (28 \<le> code_of c \<and> code_of c \<le> 31)"

definition lower_char :: "char \<Rightarrow> char" where
  "lower_char c = (if is_upper_char c then char_of (code_of c + 32) else c)"

definition upper_char :: "char \<Rightarrow> char" where
  "upper_char c = (if is_lower_char c then char_of (code_of c - 32) else c)"

definition py_lower :: "string \<Rightarrow> string" where
  "py_lower s = map lower_char s"

definition py_upper :: "string \<Rightarrow> string" where
  "py_upper s = map upper_char s"

definition py_strip :: "string \<Rightarrow> string" where
  "py_strip s = rev (dropWhile is_space_char (rev (dropWhile is_space_char s)))"

definition py_startswith :: "string \<Rightarrow> string \<Rightarrow> bool" where
  "py_startswith s p \<longleftrightarrow> take (length p) s = p"

definition py_endswith :: "string \<Rightarrow> string \<Rightarrow> bool" where
  "py_endswith s p \<longleftrightarrow> length p \<le> length s \<and> drop (length s - length p) s = p"

fun py_contains :: "string \<Rightarrow> string \<Rightarrow> bool" where
  "py_contains sub [] = (sub = [])"
| "py_contains sub (c # s) = (py_startswith (c # s) sub \<or> py_contains sub s)"

definition py_replace_char :: "char \<Rightarrow> char \<Rightarrow> string \<Rightarrow> string" where
  "py_replace_char a b s = map (\<lambda>c. if c = a then b else c) s"

text \<open>\<^verbatim>\<open>s.partition(c)\<close>: the text before the first \<open>c\<close>, whether there is one, the text after it.\<close>

fun py_partition :: "char \<Rightarrow> string \<Rightarrow> string \<times> bool \<times> string" where
  "py_partition c [] = ([], False, [])"
| "py_partition c (x # s) =
     (if x = c then ([], True, s)
      else (case py_partition c s of (a, f, b) \<Rightarrow> (x # a, f, b)))"

text \<open>\<^verbatim>\<open>s.rpartition(c)\<close>: split at the last \<open>c\<close>; without one everything is in the last part.\<close>

definition py_rpartition :: "char \<Rightarrow> string \<Rightarrow> string \<times> bool \<times> string" where
  "py_rpartition c s =
     (case py_partition c (rev s) of
        (a, True, b) \<Rightarrow> (rev b, True, rev a)
      | (a, False, b) \<Rightarrow> ([], False, s))"

fun py_split :: "char \<Rightarrow> string \<Rightarrow> string list" where
  "py_split c [] = [[]]"
| "py_split c (x # s) =
     (if x = c then [] # py_split c s
      else (case py_split c s of [] \<Rightarrow> [[x]] | w # ws \<Rightarrow> (x # w) # ws))"

fun py_join :: "string \<Rightarrow> string list \<Rightarrow> string" where
  "py_join sep [] = []"
| "py_join sep [w] = w"
| "py_join sep (w # v # ws) = w @ sep @ py_join sep (v # ws)"

fun nat_str :: "nat \<Rightarrow> string" where
  "nat_str n = (if n < 10 then [char_of (48 + n)] else nat_str (n div 10) @ [char_of (48 + n mod 10)])"

declare nat_str.simps [simp del]

lemma nat_str_decode: "foldl (\<lambda>acc c. acc * 10 + (code_of c - 48)) 0 (nat_str n) = n"
proof (induction n rule: nat_str.induct)
  case (1 n)
  then show ?case
    by (cases "n < 10") (simp_all add: nat_str.simps [of n] code_of_def)
qed

lemma nat_str_digits: "c \<in> set (nat_str n) \<Longrightarrow> is_digit_char c"
proof (induction n rule: nat_str.induct)
  case (1 n)
  then show ?case
    by (cases "n < 10") (auto simp: nat_str.simps [of n] code_of_def is_digit_char_def)
qed

lemma nat_str_nonempty [simp]: "nat_str n \<noteq> []"
  by (simp add: nat_str.simps [of n])

definition int_str :: "int \<Rightarrow> string" where
  "int_str i = (if i < 0 then CHR ''-'' # nat_str (nat (- i)) else nat_str (nat i))"

lemma py_split_nonempty [simp]: "py_split c s \<noteq> []"
  by (induction c s rule: py_split.induct) (auto split: list.splits)

lemma py_join_Cons: "ws \<noteq> [] \<Longrightarrow> py_join sep (w # ws) = w @ sep @ py_join sep ws"
  by (cases ws) auto

lemma py_join_prefix: "py_join sep ((x # a) # ws) = x # py_join sep (a # ws)"
  by (cases ws) auto

lemma py_join_split: "py_join [c] (py_split c s) = s"
proof (induction c s rule: py_split.induct)
  case (2 c x s)
  then show ?case
    by (cases "py_split c s") (auto simp: py_join_Cons py_join_prefix split: list.splits)
qed simp

lemma py_partition_append:
  "py_partition c s = (a, f, b) \<Longrightarrow> s = a @ (if f then [c] else []) @ b \<and> c \<notin> set a \<and> (\<not> f \<longrightarrow> b = [])"
  by (induction c s arbitrary: a f b rule: py_partition.induct) (auto split: if_splits prod.splits)

lemma lower_char_idem [simp]: "lower_char (lower_char c) = lower_char c"
  by (auto simp: lower_char_def is_upper_char_def code_of_def)

lemma py_lower_idem [simp]: "py_lower (py_lower s) = py_lower s"
  by (simp add: py_lower_def)

lemma py_lower_length [simp]: "length (py_lower s) = length s"
  by (simp add: py_lower_def)

lemma dropWhile_hd: "dropWhile p s = c # t \<Longrightarrow> \<not> p c"
  by (induction s) (auto split: if_splits)

lemma py_strip_ends: "py_strip s \<noteq> [] \<Longrightarrow> \<not> is_space_char (hd (py_strip s)) \<and> \<not> is_space_char (last (py_strip s))"
proof -
  assume ne: "py_strip s \<noteq> []"
  let ?t = "dropWhile is_space_char s"
  obtain k where k: "py_strip s = take k ?t"
    unfolding py_strip_def by (metis dropWhile_eq_drop rev_drop rev_rev_ident)
  with ne have "?t \<noteq> []" "hd (py_strip s) = hd ?t" by (auto simp: hd_take)
  then have "\<not> is_space_char (hd (py_strip s))" by (cases ?t) (auto dest: dropWhile_hd)
  moreover have "\<not> is_space_char (last (py_strip s))"
    using ne unfolding py_strip_def by (simp add: last_rev hd_dropWhile)
  ultimately show ?thesis by blast
qed

lemma py_strip_idem [simp]: "py_strip (py_strip s) = py_strip s"
proof (cases "py_strip s = []")
  case False
  obtain c u where c: "py_strip s = c # u" using False by (cases "py_strip s") auto
  obtain d v where d: "rev (py_strip s) = d # v" using False by (cases "rev (py_strip s)") auto
  have "last (py_strip s) = d" using d by (metis hd_rev list.sel(1))
  with c d py_strip_ends [OF False] have "dropWhile is_space_char (py_strip s) = py_strip s"
    "dropWhile is_space_char (rev (py_strip s)) = rev (py_strip s)" by simp_all
  then show ?thesis by (simp add: py_strip_def [of "py_strip s"])
next
  case True
  have "py_strip [] = []" by (simp add: py_strip_def)
  with True show ?thesis by (simp only:)
qed

end
