(* ===== verification/Transport_Base.thy ===== *)
theory Transport_Base
  imports Prelude
begin

section \<open>Transport vocabulary\<close>

text \<open>
  The data types of \<^verbatim>\<open>transports/base.py\<close> and \<^verbatim>\<open>models/policies.py\<close>: requests, responses,
  accounting, typed failures and the policies that select a route.  Pydantic's \<^verbatim>\<open>ge=0\<close> on
  integers is the type \<open>nat\<close>.  An exception is a value of \<open>exn\<close>; an operation that may raise
  returns a value of the sum type \<open>exn + 'a\<close>, with \<open>Inl\<close> for the exception.
\<close>

subsection \<open>Accounting and exceptions\<close>

record transport_accounting =
  physical_requests :: nat
  transmitted_bytes :: nat
  received_bytes :: nat

text \<open>The default of \<^verbatim>\<open>TransportAccounting()\<close>.\<close>

definition accounting_default :: transport_accounting where
  "accounting_default = \<lparr>physical_requests = 1, transmitted_bytes = 0, received_bytes = 0\<rparr>"

text \<open>
  \<open>ValueError\<close> to \<open>AssertionError\<close> are Python's own; \<open>BackendError\<close> stands for any other
  \<^verbatim>\<open>Exception\<close> of a backend, which may carry an \<^verbatim>\<open>accounting\<close> attribute.
\<close>

datatype exn =
    ValueError string
  | PyTypeError string
  | PyKeyError string
  | RuntimeErr string
  | AssertionErr string
  | RobotsDenied
  | BudgetExhausted
  | TransportFailure "transport_accounting option"
  | ResponseBodyTooLarge nat nat "transport_accounting option"
  | CancelledError "transport_accounting option"
  | BackendError "transport_accounting option"
  | ProxyBudgetExhausted "nat option" "nat option" int int
  | BrowserBackendUnavailable
  | ProxyBrowserRoutingUnsupported
  | DiscoveryFailure string bool

subsection \<open>Enumerations\<close>

datatype request_purpose = PurposeRobots | PurposeDiscovery | PurposeEntity | PurposeEnrichment

datatype request_priority =
  PriorityDiscovery | PriorityIdentity | PriorityDatasetRequired | PriorityDetail | PriorityOptional

datatype cache_policy = CacheDefault | CacheBypass | CacheRefresh

datatype browser_hint = BrowserNever | BrowserOptional | BrowserRequired

datatype rotation_reason =
  RotExplicit | RotBlocked | RotRateLimited | RotCaptcha | RotTransportFailure
  | RotSessionExpired | RotBudgetExhausted

datatype robots_policy = RobotsObey | RobotsIgnore

datatype browser_policy = BrowserPolicyNever | BrowserPolicyAllow | BrowserPolicyRequire

datatype proxy_mode = ProxyNever | ProxyAlways | ProxyFallback | ProxyFailover | ProxyRoundRobin

datatype route_kind = RouteDirect | RouteProxy | RouteCache | RouteBrowser

subsection \<open>JSON values and queries\<close>

text \<open>
  A float is represented by its Python \<^verbatim>\<open>repr\<close>, which determines it; the non-finite ones are
  \<open>''nan''\<close>, \<open>''inf''\<close> and \<open>''-inf''\<close>.
\<close>

datatype json =
    JNull
  | JBool bool
  | JInt int
  | JFloat string
  | JStr string
  | JList "json list"
  | JDict "(string \<times> json) list"

definition float_repr_finite :: "string \<Rightarrow> bool" where
  "float_repr_finite r \<longleftrightarrow> r \<noteq> ''nan'' \<and> r \<noteq> ''inf'' \<and> r \<noteq> ''-inf''"

datatype query_value = QStr string | QInt int | QFloat string | QBool bool

subsection \<open>Requests and responses\<close>

text \<open>A \<^verbatim>\<open>json_body\<close> of \<^verbatim>\<open>None\<close> means that there is none, so \<open>Some JNull\<close> does not occur.\<close>

record browser_evaluation =
  action_id :: string
  script :: string
  wait_for :: "string option"
  wait_milliseconds :: nat

record transport_request =
  req_method :: string
  req_url :: string
  req_query :: "(string, query_value) odict"
  req_headers :: "(string, string) odict"
  req_json_body :: "json option"
  req_body :: "string option"
  req_purpose :: request_purpose
  req_priority :: request_priority
  req_required :: bool
  req_estimated_bytes :: nat
  req_cache :: cache_policy
  req_browser :: browser_hint
  req_evaluation :: "browser_evaluation option"
  req_trace_request_id :: "string option"
  req_trace_attempt :: "nat option"

record route_metadata =
  route_kind :: route_kind
  route_provider :: "string option"
  route_endpoint_id :: "string option"
  route_lease_id :: "string option"

definition route_default :: route_metadata where
  "route_default = \<lparr>route_kind = RouteDirect, route_provider = None,
     route_endpoint_id = None, route_lease_id = None\<rparr>"

definition route_cache :: route_metadata where
  "route_cache = \<lparr>route_kind = RouteCache, route_provider = None,
     route_endpoint_id = None, route_lease_id = None\<rparr>"

record transport_response =
  resp_status :: nat
  resp_headers :: "(string, string) odict"
  resp_content :: string
  resp_final_url :: string
  resp_route :: route_metadata
  resp_from_cache :: bool
  resp_elapsed_seconds :: rat
  resp_accounting :: "transport_accounting option"

text \<open>
  \<^verbatim>\<open>TransportRequest.evaluation_is_an_explicit_browser_action\<close>: a browser evaluation needs
  \<^verbatim>\<open>browser=required\<close>, no payload and entity or detail work.
\<close>

definition evaluation_is_an_explicit_browser_action ::
  "transport_request \<Rightarrow> exn + transport_request" where
  "evaluation_is_an_explicit_browser_action r =
     (if req_evaluation r = None then Inr r
      else if req_browser r \<noteq> BrowserRequired
        then Inl (ValueError ''browser evaluation requires browser=required'')
      else if py_upper (req_method r) \<noteq> ''GET'' \<or> req_query r \<noteq> [] \<or> req_headers r \<noteq> []
          \<or> req_json_body r \<noteq> None \<or> req_body r \<noteq> None
        then Inl (ValueError ''browser evaluation cannot be combined with HTTP request payload fields'')
      else if req_purpose r = PurposeRobots \<or> req_purpose r = PurposeDiscovery
        then Inl (ValueError ''browser evaluation is only valid for entity/detail work'')
      else Inr r)"

definition enforce_response_body_limit ::
  "transport_response \<Rightarrow> nat \<Rightarrow> exn + transport_response" where
  "enforce_response_body_limit response maximum_bytes =
     (if length (resp_content response) > maximum_bytes
      then Inl (ResponseBodyTooLarge maximum_bytes (length (resp_content response))
                 (resp_accounting response))
      else Inr response)"

lemma enforce_response_body_limit_Inr:
  "enforce_response_body_limit r n = Inr r' \<longleftrightarrow> r' = r \<and> length (resp_content r) \<le> n"
  by (auto simp: enforce_response_body_limit_def)

subsection \<open>Policies\<close>

record fetch_policy =
  fp_delay :: rat
  fp_concurrency :: nat
  fp_robots :: robots_policy
  fp_timeout_seconds :: rat
  fp_browser :: browser_policy

record proxy_policy_config =
  pp_mode :: proxy_mode
  pp_country :: "string option"
  pp_provider_preferences :: "string list"
  pp_maximum_requests :: "nat option"
  pp_maximum_bytes :: "nat option"

definition validate_country :: "string option \<Rightarrow> exn + string option" where
  "validate_country value =
     (case value of None \<Rightarrow> Inr None
      | Some v \<Rightarrow>
          if v \<noteq> [] \<and> list_all is_upper_char v then Inr (Some v)
          else Inl (ValueError ''country must be an uppercase ASCII alpha-2 code''))"

definition validate_provider_preferences :: "string list \<Rightarrow> exn + string list" where
  "validate_provider_preferences value =
     (if list_ex (\<lambda>p. p = [] \<or> p \<noteq> py_strip p) value
        then Inl (ValueError ''provider preferences must be non-empty trimmed names'')
      else if length (remdups value) \<noteq> length value
        then Inl (ValueError ''provider preferences must be unique'')
      else Inr value)"

definition proxy_policy_fallback :: "string option \<Rightarrow> proxy_policy_config" where
  "proxy_policy_fallback country =
     \<lparr>pp_mode = ProxyFallback, pp_country = country, pp_provider_preferences = [],
      pp_maximum_requests = None, pp_maximum_bytes = None\<rparr>"

end
