(* ===== verification/Urls.thy ===== *)
theory Urls
  imports Transport_Base
begin

section \<open>URLs, queries and request sizes\<close>

text \<open>
  The functions of \<^verbatim>\<open>urllib.parse\<close> that the transports call, followed by the first client,
  \<^verbatim>\<open>estimated_transmitted_bytes\<close> of \<^verbatim>\<open>transports/base.py\<close>.  A string is its UTF-8 byte sequence.
  Case folding outside ASCII, the NFKC check of non-ASCII hosts and the replacement of invalid
  UTF-8 escapes by U+FFFD are not modelled: on such input the functions keep the bytes.
\<close>

subsection \<open>IP addresses\<close>

definition digits_value :: "string \<Rightarrow> nat" where
  "digits_value s = foldl (\<lambda>acc c. acc * 10 + (code_of c - 48)) 0 s"

definition is_hex_char :: "char \<Rightarrow> bool" where
  "is_hex_char c \<longleftrightarrow> is_digit_char c \<or> (65 \<le> code_of c \<and> code_of c \<le> 70) \<or> (97 \<le> code_of c \<and> code_of c \<le> 102)"

definition hex_char_value :: "char \<Rightarrow> nat" where
  "hex_char_value c =
     (if is_digit_char c then code_of c - 48
      else if code_of c \<le> 70 then code_of c - 55 else code_of c - 87)"

definition hex_value :: "string \<Rightarrow> nat" where
  "hex_value s = foldl (\<lambda>acc c. acc * 16 + hex_char_value c) 0 s"

fun all_some :: "'a option list \<Rightarrow> 'a list option" where
  "all_some [] = Some []"
| "all_some (None # xs) = None"
| "all_some (Some x # xs) = (case all_some xs of None \<Rightarrow> None | Some ys \<Rightarrow> Some (x # ys))"

text \<open>\<^verbatim>\<open>ipaddress.IPv4Address\<close> and \<^verbatim>\<open>IPv6Address\<close>: the integer of the textual form.\<close>

definition ipv4_octet :: "string \<Rightarrow> nat option" where
  "ipv4_octet s =
     (if s = [] \<or> \<not> list_all is_digit_char s \<or> length s > 3 then None
      else if s \<noteq> ''0'' \<and> hd s = CHR ''0'' then None
      else if digits_value s > 255 then None else Some (digits_value s))"

definition ipv4_value :: "string \<Rightarrow> nat option" where
  "ipv4_value s =
     (let octets = py_split (CHR ''.'') s in
      if length octets \<noteq> 4 then None
      else map_option (foldl (\<lambda>acc v. acc * 256 + v) 0) (all_some (map ipv4_octet octets)))"

definition ipv6_hextet :: "string \<Rightarrow> nat option" where
  "ipv6_hextet s = (if s = [] \<or> \<not> list_all is_hex_char s \<or> length s > 4 then None else Some (hex_value s))"

definition ipv6_fold :: "string list \<Rightarrow> nat option" where
  "ipv6_fold ps = map_option (foldl (\<lambda>acc v. acc * 65536 + v) 0) (all_some (map ipv6_hextet ps))"

definition ipv6_parts :: "string list \<Rightarrow> nat option" where
  "ipv6_parts parts =
     (let n = length parts; gaps = filter (\<lambda>i. parts ! i = []) [1..<n - 1] in
      if n > 9 then None
      else case gaps of
        [] \<Rightarrow> if n \<noteq> 8 \<or> hd parts = [] \<or> last parts = [] then None else ipv6_fold parts
      | [skip] \<Rightarrow>
          (let hi = (if hd parts = [] then skip - 1 else skip);
               lo = (if last parts = [] then n - skip - 2 else n - skip - 1) in
           if hd parts = [] \<and> hi \<noteq> 0 then None
           else if last parts = [] \<and> lo \<noteq> 0 then None
           else if hi + lo > 7 then None
           else ipv6_fold (take hi parts @ replicate (8 - (hi + lo)) ''0'' @ drop (n - lo) parts))
      | _ \<Rightarrow> None)"

definition hex4 :: "nat \<Rightarrow> string" where
  "hex4 n = (let d = (\<lambda>v. char_of (if v < 10 then 48 + v else 87 + v)) in
     [d (n div 4096 mod 16), d (n div 256 mod 16), d (n div 16 mod 16), d (n mod 16)])"

definition ipv6_value :: "string \<Rightarrow> nat option" where
  "ipv6_value s =
     (case py_partition (CHR ''%'') s of (addr, scoped, zone) \<Rightarrow>
        if scoped \<and> (zone = [] \<or> CHR ''%'' \<in> set zone) then None
        else (let parts = py_split (CHR '':'') addr in
          if length parts < 3 then None
          else if CHR ''.'' \<in> set (last parts)
          then (case ipv4_value (last parts) of None \<Rightarrow> None
            | Some v \<Rightarrow> ipv6_parts (butlast parts @ [hex4 (v div 65536), hex4 (v mod 65536)]))
          else ipv6_parts parts))"

subsection \<open>Splitting and joining URLs\<close>

record split_result =
  us_scheme :: string
  us_netloc :: string
  us_path :: string
  us_query :: string
  us_fragment :: string

definition is_scheme_char :: "char \<Rightarrow> bool" where
  "is_scheme_char c \<longleftrightarrow> is_alnum_char c \<or> c = CHR ''+'' \<or> c = CHR ''-'' \<or> c = CHR ''.''"

definition is_netloc_end :: "char \<Rightarrow> bool" where
  "is_netloc_end c \<longleftrightarrow> c = CHR ''/'' \<or> c = CHR ''?'' \<or> c = CHR ''#''"

text \<open>Leading control characters and spaces are stripped; tab, return and newline are removed.\<close>

definition url_clean :: "string \<Rightarrow> string" where
  "url_clean url = filter (\<lambda>c. code_of c \<notin> {9, 10, 13}) (dropWhile (\<lambda>c. code_of c \<le> 32) url)"

definition split_scheme :: "string \<Rightarrow> string \<Rightarrow> string \<times> string" where
  "split_scheme scheme url =
     (case py_partition (CHR '':'') url of (a, found, b) \<Rightarrow>
        if found \<and> a \<noteq> [] \<and> is_alpha_char (hd a) \<and> list_all is_scheme_char a then (py_lower a, b)
        else (scheme, url))"

definition ipvfuture_ok :: "string \<Rightarrow> bool" where
  "ipvfuture_ok host =
     (case py_partition (CHR ''.'') (tl host) of (a, found, b) \<Rightarrow>
        found \<and> a \<noteq> [] \<and> list_all is_hex_char a \<and> b \<noteq> [])"

definition bracketed_netloc_ok :: "string \<Rightarrow> bool" where
  "bracketed_netloc_ok netloc =
     (let open_br = CHR ''['' \<in> set netloc; close_br = CHR '']'' \<in> set netloc in
      if open_br \<noteq> close_br then False
      else if open_br
      then (let host = fst (py_partition (CHR '']'') (snd (snd (py_partition (CHR ''['') netloc)))) in
        if py_startswith host ''v'' then ipvfuture_ok host else ipv6_value host \<noteq> None)
      else True)"

definition urlsplit_default :: "string \<Rightarrow> string \<Rightarrow> exn + split_result" where
  "urlsplit_default default_scheme raw =
     (case split_scheme default_scheme (url_clean raw) of (scheme, rest) \<Rightarrow>
       (let (netloc, rest2) = (if py_startswith rest ''//''
              then (takeWhile (Not \<circ> is_netloc_end) (drop 2 rest), dropWhile (Not \<circ> is_netloc_end) (drop 2 rest))
              else ([], rest)) in
        if \<not> bracketed_netloc_ok netloc then Inl (ValueError ''Invalid IPv6 URL'')
        else (case py_partition (CHR ''#'') rest2 of (rest3, _, fragment) \<Rightarrow>
          (case py_partition (CHR ''?'') rest3 of (path, _, query) \<Rightarrow>
             Inr \<lparr>us_scheme = scheme, us_netloc = netloc, us_path = path, us_query = query,
                  us_fragment = fragment\<rparr>))))"

definition urlsplit :: "string \<Rightarrow> exn + split_result" where
  "urlsplit url = urlsplit_default [] url"

definition us_hostinfo :: "split_result \<Rightarrow> string \<times> string option" where
  "us_hostinfo u =
     (case py_rpartition (CHR ''@'') (us_netloc u) of (_, _, hostinfo) \<Rightarrow>
      (case py_partition (CHR ''['') hostinfo of (_, open_br, bracketed) \<Rightarrow>
        (let (hostname, port) =
           (if open_br
            then (case py_partition (CHR '']'') bracketed of (h, _, r) \<Rightarrow>
                    (h, snd (snd (py_partition (CHR '':'') r))))
            else (case py_partition (CHR '':'') hostinfo of (h, _, p) \<Rightarrow> (h, p)))
         in (hostname, if port = [] then None else Some port))))"

definition us_hostname :: "split_result \<Rightarrow> string option" where
  "us_hostname u =
     (let hostname = fst (us_hostinfo u) in
      if hostname = [] then None
      else (case py_partition (CHR ''%'') hostname of (h, percent, zone) \<Rightarrow>
        Some (py_lower h @ (if percent then ''%'' else []) @ zone)))"

definition us_port :: "split_result \<Rightarrow> exn + nat option" where
  "us_port u =
     (case snd (us_hostinfo u) of None \<Rightarrow> Inr None
      | Some p \<Rightarrow>
          if \<not> list_all is_digit_char p then Inl (ValueError ''Port could not be cast to integer value'')
          else if digits_value p > 65535 then Inl (ValueError ''Port out of range 0-65535'')
          else Inr (Some (digits_value p)))"

definition us_userinfo :: "split_result \<Rightarrow> string option \<times> string option" where
  "us_userinfo u =
     (case py_rpartition (CHR ''@'') (us_netloc u) of (userinfo, have_info, _) \<Rightarrow>
        if \<not> have_info then (None, None)
        else (case py_partition (CHR '':'') userinfo of (username, have_password, password) \<Rightarrow>
          (Some username, if have_password then Some password else None)))"

definition uses_netloc :: "string list" where
  "uses_netloc = ['''', ''ftp'', ''http'', ''gopher'', ''nntp'', ''telnet'', ''imap'', ''wais'', ''file'',
     ''mms'', ''https'', ''shttp'', ''snews'', ''prospero'', ''rtsp'', ''rtsps'', ''rtspu'', ''rsync'',
     ''svn'', ''svn+ssh'', ''sftp'', ''nfs'', ''git'', ''git+ssh'', ''ws'', ''wss'']"

definition urlunsplit :: "string \<Rightarrow> string \<Rightarrow> string \<Rightarrow> string \<Rightarrow> string \<Rightarrow> string" where
  "urlunsplit scheme netloc path query fragment =
     (let url1 = (if netloc \<noteq> [] \<or> (scheme \<noteq> [] \<and> scheme \<in> set uses_netloc) \<or> py_startswith path ''//''
             then ''//'' @ netloc @ (if path \<noteq> [] \<and> \<not> py_startswith path ''/'' then CHR ''/'' # path else path)
             else path);
          url2 = (if scheme \<noteq> [] then scheme @ '':'' @ url1 else url1);
          url3 = (if query \<noteq> [] then url2 @ ''?'' @ query else url2)
      in if fragment \<noteq> [] then url3 @ ''#'' @ fragment else url3)"

subsection \<open>Percent encoding and queries\<close>

definition always_safe :: "char \<Rightarrow> bool" where
  "always_safe c \<longleftrightarrow> is_alnum_char c \<or> c = CHR ''_'' \<or> c = CHR ''.'' \<or> c = CHR ''-'' \<or> c = CHR ''~''"

definition hex_digit :: "nat \<Rightarrow> char" where
  "hex_digit v = char_of (if v < 10 then 48 + v else 55 + v)"

definition quote_char :: "char \<Rightarrow> string" where
  "quote_char c = [CHR ''%'', hex_digit (code_of c div 16), hex_digit (code_of c mod 16)]"

definition quote :: "string \<Rightarrow> string" where
  "quote s = concat (map (\<lambda>c. if always_safe c then [c] else quote_char c) s)"

definition quote_plus :: "string \<Rightarrow> string" where
  "quote_plus s = concat (map (\<lambda>c. if c = CHR '' '' then ''+'' else if always_safe c then [c] else quote_char c) s)"

fun unquote :: "string \<Rightarrow> string" where
  "unquote [] = []"
| "unquote (c # a # b # s) =
     (if c = CHR ''%'' \<and> is_hex_char a \<and> is_hex_char b
      then char_of (hex_char_value a * 16 + hex_char_value b) # unquote s
      else c # unquote (a # b # s))"
| "unquote (c # s) = c # unquote s"

definition unquote_plus :: "string \<Rightarrow> string" where
  "unquote_plus s = unquote (py_replace_char (CHR ''+'') (CHR '' '') s)"

definition urlencode :: "(string \<times> string) list \<Rightarrow> string" where
  "urlencode pairs = py_join ''&'' (map (\<lambda>(k, v). quote_plus k @ ''='' @ quote_plus v) pairs)"

text \<open>\<^verbatim>\<open>parse_qsl(s, keep_blank_values=True)\<close>.\<close>

definition parse_qsl :: "string \<Rightarrow> (string \<times> string) list" where
  "parse_qsl qs =
     (if qs = [] then []
      else map (\<lambda>field. case py_partition (CHR ''='') field of (name, _, value) \<Rightarrow>
                   (unquote_plus name, unquote_plus value))
             (filter (\<lambda>field. field \<noteq> []) (py_split (CHR ''&'') qs)))"

subsection \<open>Relative references\<close>

definition uses_relative :: "string list" where
  "uses_relative = ['''', ''ftp'', ''http'', ''gopher'', ''nntp'', ''imap'', ''wais'', ''file'', ''https'',
     ''shttp'', ''mms'', ''prospero'', ''rtsp'', ''rtsps'', ''rtspu'', ''sftp'', ''svn'', ''svn+ssh'', ''ws'', ''wss'']"

definition uses_params :: "string list" where
  "uses_params = ['''', ''ftp'', ''hdl'', ''prospero'', ''http'', ''imap'', ''https'', ''shttp'', ''rtsp'',
     ''rtsps'', ''rtspu'', ''sip'', ''sips'', ''mms'', ''sftp'', ''tel'']"

text \<open>\<^verbatim>\<open>_splitparams\<close>: the parameters follow the first semicolon of the last path segment.\<close>

definition splitparams :: "string \<Rightarrow> string \<Rightarrow> string \<times> string" where
  "splitparams scheme path =
     (if scheme \<notin> set uses_params then (path, [])
      else (case py_rpartition (CHR ''/'') path of (dir, slash, seg) \<Rightarrow>
        (case py_partition (CHR '';'') seg of (a, found, params) \<Rightarrow>
           if found then (dir @ (if slash then ''/'' else []) @ a, params) else (path, []))))"

definition urlunparse :: "string \<Rightarrow> string \<Rightarrow> string \<Rightarrow> string \<Rightarrow> string \<Rightarrow> string \<Rightarrow> string" where
  "urlunparse scheme netloc path params query fragment =
     urlunsplit scheme netloc (if params \<noteq> [] then path @ '';'' @ params else path) query fragment"

fun resolve_segments :: "string list \<Rightarrow> string list \<Rightarrow> string list" where
  "resolve_segments acc [] = acc"
| "resolve_segments acc (seg # segs) =
     (if seg = ''..'' then resolve_segments (butlast acc) segs
      else if seg = ''.'' then resolve_segments acc segs
      else resolve_segments (acc @ [seg]) segs)"

definition drop_empty_inner :: "string list \<Rightarrow> string list" where
  "drop_empty_inner segs =
     (case segs of [] \<Rightarrow> [] | [s] \<Rightarrow> [s]
      | s # rest \<Rightarrow> s # filter (\<lambda>x. x \<noteq> []) (butlast rest) @ [last rest])"

definition join_path :: "string \<Rightarrow> string \<Rightarrow> string" where
  "join_path bpath path =
     (let parts = py_split (CHR ''/'') bpath;
          base_parts = (if last parts \<noteq> [] then butlast parts else parts);
          segments = (if py_startswith path ''/'' then py_split (CHR ''/'') path
                      else drop_empty_inner (base_parts @ py_split (CHR ''/'') path));
          resolved = resolve_segments [] segments;
          resolved2 = (if last segments \<in> {''.'', ''..''} then resolved @ [[]] else resolved);
          joined = py_join ''/'' resolved2
      in if joined = [] then ''/'' else joined)"

definition urljoin :: "string \<Rightarrow> string \<Rightarrow> exn + string" where
  "urljoin base url =
     (if base = [] then Inr url else if url = [] then Inr base
      else (case urlsplit base of Inl e \<Rightarrow> Inl e
        | Inr b \<Rightarrow> (case urlsplit_default (us_scheme b) url of Inl e \<Rightarrow> Inl e
          | Inr u \<Rightarrow>
             (case splitparams (us_scheme b) (us_path b) of (bpath, bparams) \<Rightarrow>
             (case splitparams (us_scheme u) (us_path u) of (path, params) \<Rightarrow>
               if us_scheme u \<noteq> us_scheme b \<or> us_scheme u \<notin> set uses_relative then Inr url
               else if us_scheme u \<in> set uses_netloc \<and> us_netloc u \<noteq> []
               then Inr (urlunparse (us_scheme u) (us_netloc u) path params (us_query u) (us_fragment u))
               else (let netloc = (if us_scheme u \<in> set uses_netloc then us_netloc b else us_netloc u) in
                 if path = [] \<and> params = []
                 then Inr (urlunparse (us_scheme u) netloc bpath bparams
                        (if us_query u = [] then us_query b else us_query u) (us_fragment u))
                 else Inr (urlunparse (us_scheme u) netloc (join_path bpath path) params
                        (us_query u) (us_fragment u))))))))"

subsection \<open>Query round trip\<close>

lemma char_code_lt: "code_of c < 256"
  by (simp add: code_of_def)

lemma code_of_char_of [simp]: "n < 256 \<Longrightarrow> code_of (char_of n) = n"
  by (simp add: code_of_def)

lemma char_of_code_of [simp]: "char_of (code_of c) = c"
  by (simp add: code_of_def)

lemmas char_class_defs = is_hex_char_def is_digit_char_def is_alnum_char_def is_alpha_char_def
  is_upper_char_def is_lower_char_def always_safe_def

lemma hex_digit_hex: "v < 16 \<Longrightarrow> is_hex_char (hex_digit v) \<and> hex_char_value (hex_digit v) = v"
  by (auto simp: hex_digit_def hex_char_value_def char_class_defs)

lemma hex_digit_safe: "v < 16 \<Longrightarrow> always_safe (hex_digit v)"
  by (auto simp: hex_digit_def char_class_defs)

lemma always_safe_not_special:
  "always_safe c \<Longrightarrow> c \<noteq> CHR ''%'' \<and> c \<noteq> CHR ''+'' \<and> c \<noteq> CHR ''&'' \<and> c \<noteq> CHR ''='' \<and> c \<noteq> CHR '' ''"
  by (auto simp: char_class_defs code_of_def)

lemma unquote_Cons: "c \<noteq> CHR ''%'' \<Longrightarrow> unquote (c # s) = c # unquote s"
  by (induction "c # s" rule: unquote.induct) auto

lemma unquote_quote_char [simp]: "unquote (quote_char c @ s) = c # unquote s"
proof -
  have "code_of c div 16 < 16" using char_code_lt [of c] by simp
  moreover have "code_of c mod 16 < 16" by simp
  moreover have "code_of c div 16 * 16 + code_of c mod 16 = code_of c" by presburger
  ultimately show ?thesis by (simp add: quote_char_def hex_digit_hex)
qed

lemma quote_char_not_plus: "CHR ''+'' \<notin> set (quote_char c)" "CHR ''&'' \<notin> set (quote_char c)" "CHR ''='' \<notin> set (quote_char c)"
proof -
  have "code_of c div 16 < 16" using char_code_lt [of c] by simp
  then have "always_safe (hex_digit (code_of c div 16))" "always_safe (hex_digit (code_of c mod 16))"
    by (simp_all add: hex_digit_safe)
  then show "CHR ''+'' \<notin> set (quote_char c)" "CHR ''&'' \<notin> set (quote_char c)" "CHR ''='' \<notin> set (quote_char c)"
    by (auto simp: quote_char_def dest: always_safe_not_special)
qed

lemma py_replace_char_id: "a \<notin> set s \<Longrightarrow> py_replace_char a b s = s"
  by (induction s) (auto simp: py_replace_char_def)

lemma py_replace_char_append: "py_replace_char a b (s @ t) = py_replace_char a b s @ py_replace_char a b t"
  by (simp add: py_replace_char_def)

lemma unquote_plus_quote_plus [simp]: "unquote_plus (quote_plus s) = s"
proof (induction s)
  case (Cons c s)
  have "py_replace_char (CHR ''+'') (CHR '' '') (quote_plus (c # s)) =
     (if c = CHR '' '' then '' '' else if always_safe c then [c] else quote_char c)
       @ py_replace_char (CHR ''+'') (CHR '' '') (quote_plus s)"
    using py_replace_char_id [OF quote_char_not_plus(1)]
    by (auto simp: quote_plus_def py_replace_char_def dest: always_safe_not_special)
  with Cons show ?case
    by (auto simp: unquote_plus_def unquote_Cons dest: always_safe_not_special)
qed (simp add: unquote_plus_def quote_plus_def py_replace_char_def)

lemma quote_plus_no_delims: "CHR ''&'' \<notin> set (quote_plus s)" "CHR ''='' \<notin> set (quote_plus s)"
  using quote_char_not_plus
  by (induction s) (auto simp: quote_plus_def dest: always_safe_not_special split: if_splits)

lemma py_partition_first: "c \<notin> set a \<Longrightarrow> py_partition c (a @ c # b) = (a, True, b)"
  by (induction a) auto

lemma py_partition_none: "c \<notin> set a \<Longrightarrow> py_partition c a = (a, False, [])"
  by (induction a) auto

lemma py_split_single: "c \<notin> set a \<Longrightarrow> py_split c a = [a]"
  by (induction a) (auto split: list.splits)

lemma py_split_Cons: "c \<notin> set a \<Longrightarrow> py_split c (a @ c # s) = a # py_split c s"
  by (induction a) (auto split: list.splits)

lemma py_split_join: "ws \<noteq> [] \<Longrightarrow> \<forall>w \<in> set ws. c \<notin> set w \<Longrightarrow> py_split c (py_join [c] ws) = ws"
  by (induction "[c]" ws rule: py_join.induct) (auto simp: py_split_single py_split_Cons)

text \<open>Parsing an encoded query gives back the pairs, in order and with duplicates.\<close>

lemma parse_qsl_urlencode [simp]: "parse_qsl (urlencode ps) = ps"
proof (cases "ps = []")
  case False
  let ?field = "\<lambda>(k, v). quote_plus k @ ''='' @ quote_plus v"
  have split: "py_split (CHR ''&'') (urlencode ps) = map ?field ps"
    unfolding urlencode_def using False quote_plus_no_delims
    by (intro py_split_join) (auto simp: case_prod_unfold)
  have "urlencode ps \<noteq> []"
  proof
    assume "urlencode ps = []"
    with split have "map ?field ps = [[]]" by simp
    then show False by (cases ps) (auto split: prod.splits)
  qed
  moreover have "filter (\<lambda>field. field \<noteq> []) (map ?field ps) = map ?field ps"
    by (rule filter_True) auto
  ultimately show ?thesis
    using py_partition_first [OF quote_plus_no_delims(2)]
    by (auto simp: parse_qsl_def split comp_def case_prod_unfold intro!: map_idI)
qed (simp add: parse_qsl_def urlencode_def)

end
