(* ===== verification/Request_Size.thy ===== *)
theory Request_Size
  imports Urls
begin

section \<open>The size of a request on the wire\<close>

text \<open>
  \<^verbatim>\<open>estimated_transmitted_bytes\<close> of \<^verbatim>\<open>transports/base.py\<close>, the number every budget reserves and
  every accounting record falls back to, and the reference it is measured against: the HTTP/1.1
  message of the request written out in full.
\<close>

subsection \<open>JSON text\<close>

text \<open>\<^verbatim>\<open>json.dumps(value, ensure_ascii=False, separators=(",", ":"))\<close>.\<close>

definition json_escape_char :: "char \<Rightarrow> string" where
  "json_escape_char c =
     (if c = CHR 0x22 then [CHR 0x5C, CHR 0x22]
      else if c = CHR 0x5C then [CHR 0x5C, CHR 0x5C]
      else if code_of c = 10 then [CHR 0x5C, CHR ''n'']
      else if code_of c = 13 then [CHR 0x5C, CHR ''r'']
      else if code_of c = 9 then [CHR 0x5C, CHR ''t'']
      else if code_of c = 12 then [CHR 0x5C, CHR ''f'']
      else if code_of c = 8 then [CHR 0x5C, CHR ''b'']
      else if code_of c < 32 then CHR 0x5C # ''u'' @ hex4 (code_of c)
      else [c])"

definition json_string :: "string \<Rightarrow> string" where
  "json_string s = CHR 0x22 # concat (map json_escape_char s) @ [CHR 0x22]"

definition json_float :: "string \<Rightarrow> string" where
  "json_float r =
     (if r = ''nan'' then ''NaN'' else if r = ''inf'' then ''Infinity''
      else if r = ''-inf'' then ''-Infinity'' else r)"

fun json_dumps :: "json \<Rightarrow> string" where
  "json_dumps JNull = ''null''"
| "json_dumps (JBool b) = (if b then ''true'' else ''false'')"
| "json_dumps (JInt i) = int_str i"
| "json_dumps (JFloat r) = json_float r"
| "json_dumps (JStr s) = json_string s"
| "json_dumps (JList xs) = ''['' @ py_join '','' (map json_dumps xs) @ '']''"
| "json_dumps (JDict kvs) =
     ''{'' @ py_join '','' (map (\<lambda>(k, v). json_string k @ '':'' @ json_dumps v) kvs) @ ''}''"

subsection \<open>The estimate\<close>

definition query_accounting_value :: "query_value \<Rightarrow> string" where
  "query_accounting_value v =
     (case v of QStr s \<Rightarrow> s | QInt i \<Rightarrow> int_str i | QFloat r \<Rightarrow> r
      | QBool b \<Rightarrow> if b then ''true'' else ''false'')"

definition request_target :: "transport_request \<Rightarrow> split_result \<Rightarrow> string" where
  "request_target r parsed =
     (let supplied = urlencode (map (\<lambda>(k, v). (k, query_accounting_value v)) (req_query r));
          query = py_join ''&'' (filter (\<lambda>v. v \<noteq> []) [us_query parsed, supplied]);
          target = (if us_path parsed = [] then ''/'' else us_path parsed)
      in if query \<noteq> [] then target @ ''?'' @ query else target)"

definition request_body :: "transport_request \<Rightarrow> string" where
  "request_body r =
     (case req_json_body r of Some v \<Rightarrow> json_dumps v
      | None \<Rightarrow> (case req_body r of Some b \<Rightarrow> b | None \<Rightarrow> []))"

definition host_header :: "split_result \<Rightarrow> exn + string" where
  "host_header parsed =
     (let host = (case us_hostname parsed of None \<Rightarrow> [] | Some h \<Rightarrow> h);
          host = (if CHR '':'' \<in> set host then ''['' @ host @ '']'' else host)
      in case us_port parsed of Inl e \<Rightarrow> Inl e
       | Inr port \<Rightarrow>
          if (us_scheme parsed = ''https'' \<and> port \<in> {None, Some 443})
             \<or> (us_scheme parsed = ''http'' \<and> port \<in> {None, Some 80})
          then Inr host
          else Inr (host @ '':'' @ (case port of None \<Rightarrow> ''None'' | Some p \<Rightarrow> nat_str p)))"

definition accounted_headers ::
  "transport_request \<Rightarrow> split_result \<Rightarrow> exn + (string \<times> string) list" where
  "accounted_headers r parsed =
     (let normalized = map (py_lower \<circ> fst) (req_headers r); body = request_body r;
          with_length = (\<lambda>hs. if body \<noteq> [] \<and> ''content-length'' \<notin> set normalized
            then hs @ [(''Content-Length'', nat_str (length body))] else hs);
          with_type = (\<lambda>hs. if req_json_body r \<noteq> None \<and> ''content-type'' \<notin> set normalized
            then hs @ [(''Content-Type'', ''application/json'')] else hs)
      in if ''host'' \<in> set normalized then Inr (with_type (with_length (req_headers r)))
         else (case host_header parsed of Inl e \<Rightarrow> Inl e
           | Inr h \<Rightarrow> Inr (with_type (with_length (req_headers r @ [(''Host'', h)])))))"

definition start_line :: "transport_request \<Rightarrow> split_result \<Rightarrow> string" where
  "start_line r parsed =
     py_upper (req_method r) @ '' '' @ request_target r parsed @ '' HTTP/1.1'' @ [CHR 0x0D, CHR 0x0A]"

definition estimated_transmitted_bytes :: "transport_request \<Rightarrow> exn + nat" where
  "estimated_transmitted_bytes r =
     (case urlsplit (req_url r) of Inl e \<Rightarrow> Inl e
      | Inr parsed \<Rightarrow> (case accounted_headers r parsed of Inl e \<Rightarrow> Inl e
        | Inr headers \<Rightarrow>
            Inr (length (start_line r parsed)
              + sum_list (map (\<lambda>(name, value). length name + length value + 4) headers)
              + 2 + length (request_body r))))"

text \<open>Only a malformed URL or port makes the estimate fail, with a \<^verbatim>\<open>ValueError\<close>.\<close>

lemma urlsplit_Inl: "urlsplit u = Inl e \<Longrightarrow> \<exists>m. e = ValueError m"
  by (auto simp: urlsplit_def urlsplit_default_def split: prod.splits if_splits)

lemma us_port_Inl: "us_port u = Inl e \<Longrightarrow> \<exists>m. e = ValueError m"
  by (auto simp: us_port_def split: option.splits if_splits)

lemma accounted_headers_Inl: "accounted_headers r u = Inl e \<Longrightarrow> \<exists>m. e = ValueError m"
  by (auto simp: accounted_headers_def host_header_def Let_def split: sum.splits if_splits dest: us_port_Inl)

lemma estimated_transmitted_bytes_Inl: "estimated_transmitted_bytes r = Inl e \<Longrightarrow> \<exists>m. e = ValueError m"
  by (auto simp: estimated_transmitted_bytes_def split: sum.splits dest: urlsplit_Inl accounted_headers_Inl)

subsection \<open>The reference: the message itself\<close>

text \<open>An HTTP/1.1 message: start line, header lines, empty line, body.\<close>

definition http_message :: "string \<Rightarrow> (string \<times> string) list \<Rightarrow> string \<Rightarrow> string" where
  "http_message start headers body =
     start @ concat (map (\<lambda>(name, value). name @ '': '' @ value @ [CHR 0x0D, CHR 0x0A]) headers)
       @ [CHR 0x0D, CHR 0x0A] @ body"

lemma http_message_length:
  "length (http_message start headers body) =
     length start + sum_list (map (\<lambda>(name, value). length name + length value + 4) headers) + 2 + length body"
  by (simp add: http_message_def length_concat comp_def case_prod_unfold eval_nat_numeral)

lemma header_name_lower [simp]:
  "py_lower ''Host'' = ''host''" "py_lower ''Content-Length'' = ''content-length''"
  by code_simp+

lemma header_names_kept:
  "accounted_headers r parsed = Inr hs \<Longrightarrow>
     (\<exists>extra. hs = req_headers r @ extra) \<and> ''host'' \<in> set (map (py_lower \<circ> fst) hs)"
  unfolding accounted_headers_def Let_def
  by (cases "host_header parsed"; simp split: if_splits; force)

subsection \<open>Property\<close>


definition sample_get :: "string \<Rightarrow> transport_request" where
  "sample_get url =
     \<lparr>req_method = ''GET'', req_url = url, req_query = [], req_headers = [], req_json_body = None,
      req_body = None, req_purpose = PurposeEntity, req_priority = PriorityDetail, req_required = True,
      req_estimated_bytes = 0, req_cache = CacheDefault, req_browser = BrowserNever,
      req_evaluation = None, req_trace_request_id = None, req_trace_attempt = None\<rparr>"

lemma sample_get_size: "estimated_transmitted_bytes (sample_get ''http://a/b'') = Inr 28"
  by code_simp


end
