(* ===== verification/Effects.thy ===== *)
theory Effects
  imports Transport_Base
begin

section \<open>Effectful operations\<close>

text \<open>
  An \<^verbatim>\<open>async\<close> method is a function from a state to a result and a state; the result is a value or
  a raised exception.  The combinators below are Python's sequencing, \<^verbatim>\<open>try/except\<close> and
  \<^verbatim>\<open>try/finally\<close>.

  A component that calls others keeps them abstract: the state is a \<open>world\<close> with the state \<open>w_env\<close>
  of everything outside the component, on which each call may act arbitrarily, and the history
  \<open>w_log\<close> of the calls with their results, newest first.  Because the callees are arbitrary
  functions of \<open>w_env\<close>, they also account for the work of other tasks that run while a call is
  suspended.
\<close>

type_synonym ('s, 'a) act = "'s \<Rightarrow> (exn + 'a) \<times> 's"

definition ret :: "'a \<Rightarrow> ('s, 'a) act" where
  "ret x s = (Inr x, s)"

definition raise :: "exn \<Rightarrow> ('s, 'a) act" where
  "raise e s = (Inl e, s)"

definition bindA :: "('s, 'a) act \<Rightarrow> ('a \<Rightarrow> ('s, 'b) act) \<Rightarrow> ('s, 'b) act" where
  "bindA m f s = (case m s of (Inl e, s') \<Rightarrow> (Inl e, s') | (Inr x, s') \<Rightarrow> f x s')"

definition thenA :: "('s, unit) act \<Rightarrow> ('s, 'b) act \<Rightarrow> ('s, 'b) act" where
  "thenA m k = bindA m (\<lambda>_. k)"

definition catchA :: "('s, 'a) act \<Rightarrow> (exn \<Rightarrow> ('s, 'a) act) \<Rightarrow> ('s, 'a) act" where
  "catchA m h s = (case m s of (Inl e, s') \<Rightarrow> h e s' | (Inr x, s') \<Rightarrow> (Inr x, s'))"

text \<open>An exception of the clean-up replaces the result; otherwise the result stands.\<close>

definition finallyA :: "('s, 'a) act \<Rightarrow> ('s, unit) act \<Rightarrow> ('s, 'a) act" where
  "finallyA m c s = (case m s of (r, s') \<Rightarrow>
     (case c s' of (Inl e, s'') \<Rightarrow> (Inl e, s'') | (Inr _, s'') \<Rightarrow> (r, s'')))"

definition liftA :: "exn + 'a \<Rightarrow> ('s, 'a) act" where
  "liftA r s = (r, s)"

text \<open>The outcome of an action as a value, for code that goes on after either.\<close>

definition tryA :: "('s, 'a) act \<Rightarrow> ('s, exn + 'a) act" where
  "tryA m s = (case m s of (r, s') \<Rightarrow> (Inr r, s'))"

definition whenA :: "bool \<Rightarrow> ('s, unit) act \<Rightarrow> ('s, unit) act" where
  "whenA b m = (if b then m else ret ())"

text \<open>\<^verbatim>\<open>except Exception\<close> does not catch a cancellation.\<close>

fun is_exception :: "exn \<Rightarrow> bool" where
  "is_exception (CancelledError _) = False"
| "is_exception _ = True"

record ('l, 'e) world =
  w_env :: 'e
  w_log :: "'l list"

definition call :: "((exn + 'a) \<Rightarrow> 'l) \<Rightarrow> ('e, 'a) act \<Rightarrow> (('l, 'e) world, 'a) act" where
  "call entry op w = (case op (w_env w) of (r, env) \<Rightarrow>
     (r, \<lparr>w_env = env, w_log = entry r # w_log w\<rparr>))"

definition record_call :: "'l \<Rightarrow> (('l, 'e) world, unit) act" where
  "record_call l w = (Inr (), w\<lparr>w_log := l # w_log w\<rparr>)"

lemmas act_defs = ret_def raise_def bindA_def thenA_def catchA_def finallyA_def liftA_def tryA_def whenA_def

subsection \<open>Reasoning about actions\<close>

text \<open>
  \<open>spec P m Q E\<close>: started in a state satisfying \<open>P\<close>, the action ends with a value and a state
  satisfying \<open>Q\<close>, or with an exception and a state satisfying \<open>E\<close>.
\<close>

definition spec :: "('s \<Rightarrow> bool) \<Rightarrow> ('s, 'a) act \<Rightarrow> ('a \<Rightarrow> 's \<Rightarrow> bool) \<Rightarrow> (exn \<Rightarrow> 's \<Rightarrow> bool) \<Rightarrow> bool" where
  "spec P m Q E \<longleftrightarrow> (\<forall>s. P s \<longrightarrow> (case m s of (Inl e, s') \<Rightarrow> E e s' | (Inr x, s') \<Rightarrow> Q x s'))"

lemma spec_ret: "(\<And>s. P s \<Longrightarrow> Q x s) \<Longrightarrow> spec P (ret x) Q E"
  by (simp add: spec_def ret_def)

lemma spec_raise: "(\<And>s. P s \<Longrightarrow> E e s) \<Longrightarrow> spec P (raise e) Q E"
  by (simp add: spec_def raise_def)

lemma spec_liftA: "(\<And>s x. P s \<Longrightarrow> r = Inr x \<Longrightarrow> Q x s) \<Longrightarrow> (\<And>s e. P s \<Longrightarrow> r = Inl e \<Longrightarrow> E e s) \<Longrightarrow> spec P (liftA r) Q E"
  by (cases r) (simp_all add: spec_def liftA_def)

lemma spec_bindA: "spec P m R E \<Longrightarrow> (\<And>x. spec (R x) (f x) Q E) \<Longrightarrow> spec P (bindA m f) Q E"
  unfolding spec_def bindA_def by (fastforce split: prod.splits sum.splits)

lemma spec_thenA: "spec P m (\<lambda>_. R) E \<Longrightarrow> spec R k Q E \<Longrightarrow> spec P (thenA m k) Q E"
  unfolding thenA_def by (rule spec_bindA)

lemma spec_catchA: "spec P m Q F \<Longrightarrow> (\<And>e. spec (F e) (h e) Q E) \<Longrightarrow> spec P (catchA m h) Q E"
  unfolding spec_def catchA_def by (fastforce split: prod.splits sum.splits)

lemma spec_finallyA:
  assumes "spec P m Q' E'" "\<And>x. spec (Q' x) c (\<lambda>_. Q x) E" "\<And>e. spec (E' e) c (\<lambda>_. E e) E"
  shows "spec P (finallyA m c) Q E"
proof -
  have "case finallyA m c s of (Inl e, s') \<Rightarrow> E e s' | (Inr x, s') \<Rightarrow> Q x s'" if "P s" for s
  proof -
    obtain r s' where m: "m s = (r, s')" by fastforce
    obtain r' s'' where c: "c s' = (r', s'')" by fastforce
    show ?thesis
    proof (cases r)
      case (Inl e)
      with assms(1) that m have "E' e s'" by (fastforce simp: spec_def)
      with assms(3) [of e] c m Inl show ?thesis by (cases r') (fastforce simp: spec_def finallyA_def)+
    next
      case (Inr x)
      with assms(1) that m have "Q' x s'" by (fastforce simp: spec_def)
      with assms(2) [of x] c m Inr show ?thesis by (cases r') (fastforce simp: spec_def finallyA_def)+
    qed
  qed
  then show ?thesis by (simp add: spec_def)
qed

lemma spec_tryA:
  "spec P m Q E \<Longrightarrow> spec P (tryA m) (\<lambda>r s. case r of Inl e \<Rightarrow> E e s | Inr x \<Rightarrow> Q x s) E'"
  unfolding spec_def tryA_def by (fastforce split: prod.splits sum.splits)

lemma spec_whenA: "(b \<Longrightarrow> spec P m (\<lambda>_. Q) E) \<Longrightarrow> (\<And>s. \<not> b \<Longrightarrow> P s \<Longrightarrow> Q s) \<Longrightarrow> spec P (whenA b m) (\<lambda>_. Q) E"
  by (simp add: whenA_def spec_ret)

lemma spec_call:
  "(\<And>w env x. P w \<Longrightarrow> op (w_env w) = (Inr x, env) \<Longrightarrow> Q x \<lparr>w_env = env, w_log = entry (Inr x) # w_log w\<rparr>) \<Longrightarrow>
   (\<And>w env e. P w \<Longrightarrow> op (w_env w) = (Inl e, env) \<Longrightarrow> E e \<lparr>w_env = env, w_log = entry (Inl e) # w_log w\<rparr>) \<Longrightarrow>
   spec P (call entry op) Q E"
  unfolding spec_def call_def by (fastforce split: prod.splits sum.splits)

lemma spec_record_call: "(\<And>w. P w \<Longrightarrow> Q (w\<lparr>w_log := l # w_log w\<rparr>)) \<Longrightarrow> spec P (record_call l) (\<lambda>_. Q) E"
  by (simp add: spec_def record_call_def)

lemma spec_weaken:
  "spec P m Q E \<Longrightarrow> (\<And>s. P' s \<Longrightarrow> P s) \<Longrightarrow> (\<And>x s. Q x s \<Longrightarrow> Q' x s) \<Longrightarrow> (\<And>e s. E e s \<Longrightarrow> E' e s) \<Longrightarrow>
   spec P' m Q' E'"
  unfolding spec_def by (fastforce split: prod.splits sum.splits)

lemma spec_absurd: "(\<And>s. \<not> P s) \<Longrightarrow> spec P m Q E"
  by (simp add: spec_def)

lemma spec_run:
  assumes "spec P m Q E" "P s" "m s = (r, s')"
  shows "case r of Inl e \<Rightarrow> E e s' | Inr x \<Rightarrow> Q x s'"
  using assms unfolding spec_def by (fastforce split: sum.splits)

subsection \<open>Invariants\<close>

text \<open>An action keeps a predicate on states, whatever it returns.\<close>

definition keeps :: "('s \<Rightarrow> bool) \<Rightarrow> ('s, 'a) act \<Rightarrow> bool" where
  "keeps I m \<longleftrightarrow> (\<forall>s. I s \<longrightarrow> I (snd (m s)))"

lemma keepsD: "keeps I m \<Longrightarrow> I s \<Longrightarrow> m s = (r, s') \<Longrightarrow> I s'"
  by (metis keeps_def snd_conv)

lemma keeps_ret: "keeps I (ret x)" by (simp add: keeps_def ret_def)

lemma keeps_raise: "keeps I (raise e)" by (simp add: keeps_def raise_def)

lemma keeps_liftA: "keeps I (liftA r)" by (simp add: keeps_def liftA_def)

lemma keeps_bindA:
  assumes "keeps I m" "\<And>x. keeps I (f x)"
  shows "keeps I (bindA m f)"
  unfolding keeps_def
proof (intro allI impI)
  fix s assume "I s"
  obtain r s' where m: "m s = (r, s')" by fastforce
  from keepsD [OF assms(1) \<open>I s\<close> m] assms(2) m show "I (snd (bindA m f s))"
    by (cases r) (auto simp: bindA_def keeps_def)
qed

lemma keeps_thenA: "keeps I m \<Longrightarrow> keeps I k \<Longrightarrow> keeps I (thenA m k)"
  unfolding thenA_def by (rule keeps_bindA)

lemma keeps_tryA: "keeps I m \<Longrightarrow> keeps I (tryA m)"
  by (simp add: keeps_def tryA_def case_prod_unfold)

lemma keeps_catchA:
  assumes "keeps I m" "\<And>e. keeps I (h e)"
  shows "keeps I (catchA m h)"
  unfolding keeps_def
proof (intro allI impI)
  fix s assume "I s"
  obtain r s' where m: "m s = (r, s')" by fastforce
  from keepsD [OF assms(1) \<open>I s\<close> m] assms(2) m show "I (snd (catchA m h s))"
    by (cases r) (auto simp: catchA_def keeps_def)
qed

lemma keeps_whenA: "keeps I m \<Longrightarrow> keeps I (whenA b m)"
  by (simp add: whenA_def keeps_ret)

lemmas keeps_intros = keeps_ret keeps_raise keeps_liftA keeps_bindA keeps_thenA keeps_tryA keeps_catchA keeps_whenA

end
