(* ===== verification/Request_Budget.thy ===== *)
theory Request_Budget
  imports Transport_Base
begin

section \<open>Attempt budgets\<close>

text \<open>
  The \<^verbatim>\<open>RequestBudget\<close> protocol of \<^verbatim>\<open>transports/base.py\<close> as the locale \<open>attempt_budget\<close>, and
  \<^verbatim>\<open>MemoryRequestBudget\<close>, its in-process implementation.  Every operation of the code runs under
  one \<^verbatim>\<open>asyncio.Lock\<close> (or without an \<^verbatim>\<open>await\<close>), so it is one atomic step: an interleaving of
  concurrent attempts is a list of \<open>budget_event\<close>s.
\<close>

subsection \<open>The interface\<close>

text \<open>
  \<open>outstanding b\<close> maps the authorizations that are neither reconciled nor released to their byte
  estimate.  A provider promises that authorizing adds one fresh entry, that settling removes
  exactly that entry, and that an authorization that is already settled is refused without effect.
  The estimate is charged against whatever the provider bounds; \<open>valid_outcome\<close> are the reports a
  reconciliation accepts.
\<close>

locale attempt_budget =
  fixes authorize :: "nat \<Rightarrow> 'b \<Rightarrow> nat option \<times> 'b"
    and reconcile :: "nat \<Rightarrow> 'o \<Rightarrow> 'b \<Rightarrow> (exn + unit) \<times> 'b"
    and release :: "nat \<Rightarrow> 'b \<Rightarrow> (exn + unit) \<times> 'b"
    and outstanding :: "'b \<Rightarrow> nat \<rightharpoonup> nat"
    and invar :: "'b \<Rightarrow> bool"
    and valid_outcome :: "'o \<Rightarrow> bool"
  assumes authorize_Some:
      "invar b \<Longrightarrow> authorize est b = (Some i, b') \<Longrightarrow>
        outstanding b i = None \<and> outstanding b' = (outstanding b)(i \<mapsto> est) \<and> invar b'"
    and authorize_None: "authorize est b = (None, b') \<Longrightarrow> b' = b"
    and reconcile_outstanding:
      "invar b \<Longrightarrow> valid_outcome out \<Longrightarrow> outstanding b i \<noteq> None \<Longrightarrow>
        outstanding (snd (reconcile i out b)) = (outstanding b)(i := None)
        \<and> invar (snd (reconcile i out b))"
    and reconcile_settled:
      "outstanding b i = None \<Longrightarrow> \<exists>e. reconcile i out b = (Inl e, b)"
    and release_outstanding:
      "invar b \<Longrightarrow> outstanding b i \<noteq> None \<Longrightarrow>
        \<exists>b'. release i b = (Inr (), b') \<and> outstanding b' = (outstanding b)(i := None) \<and> invar b'"
    and release_settled:
      "outstanding b i = None \<Longrightarrow> \<exists>e. release i b = (Inl e, b)"
begin

text \<open>Settling an authorization the moment it was granted restores the outstanding set.\<close>

lemma reconcile_after_authorize:
  assumes "invar b" "valid_outcome out" "authorize est b = (Some i, b')"
  shows "outstanding (snd (reconcile i out b')) = outstanding b \<and> invar (snd (reconcile i out b'))"
proof -
  from authorize_Some [OF assms(1,3)] have "outstanding b i = None" "invar b'"
      "outstanding b' = (outstanding b)(i \<mapsto> est)" by simp_all
  with reconcile_outstanding [of b' out i] assms(2) show ?thesis by auto
qed

lemma release_after_authorize:
  assumes "invar b" "authorize est b = (Some i, b')"
  shows "\<exists>b''. release i b' = (Inr (), b'') \<and> outstanding b'' = outstanding b \<and> invar b''"
proof -
  from authorize_Some [OF assms] have "outstanding b i = None" "invar b'"
      "outstanding b' = (outstanding b)(i \<mapsto> est)" by simp_all
  with release_outstanding [of b' i] show ?thesis by (auto simp: fun_upd_idem)
qed

text \<open>An authorization is single use: whatever settled it first, settling it again raises.\<close>

lemma settle_twice_raises:
  assumes "invar b" "valid_outcome out" "outstanding b i \<noteq> None"
    and "b' = snd (reconcile i out b) \<or> b' = snd (release i b)"
  shows "\<exists>e. reconcile i out' b' = (Inl e, b')" and "\<exists>e. release i b' = (Inl e, b')"
proof -
  have "outstanding b' i = None"
    using assms reconcile_outstanding [of b out i] release_outstanding [of b i] by auto
  then show "\<exists>e. reconcile i out' b' = (Inl e, b')" "\<exists>e. release i b' = (Inl e, b')"
    by (rule reconcile_settled, rule release_settled)
qed

end

subsection \<open>The in-process budget\<close>

record memory_budget =
  mb_maximum_requests :: "int option"
  mb_maximum_bytes :: "int option"
  mb_requests :: int
  mb_bytes :: int
  mb_reserved_bytes :: int
  mb_next_authorization_id :: nat
  mb_authorizations :: "(nat, nat) odict"

definition memory_budget_init :: "int option \<Rightarrow> int option \<Rightarrow> memory_budget" where
  "memory_budget_init maximum_requests maximum_bytes =
     \<lparr>mb_maximum_requests = maximum_requests, mb_maximum_bytes = maximum_bytes,
      mb_requests = 0, mb_bytes = 0, mb_reserved_bytes = 0,
      mb_next_authorization_id = 0, mb_authorizations = []\<rparr>"

definition mb_affordable :: "nat \<Rightarrow> memory_budget \<Rightarrow> bool" where
  "mb_affordable estimated_bytes b \<longleftrightarrow>
     (case mb_maximum_requests b of None \<Rightarrow> True | Some m \<Rightarrow> mb_requests b < m) \<and>
     (case mb_maximum_bytes b of None \<Rightarrow> True
      | Some m \<Rightarrow> mb_bytes b + mb_reserved_bytes b + int estimated_bytes \<le> m)"

definition mb_authorize :: "nat \<Rightarrow> memory_budget \<Rightarrow> nat option \<times> memory_budget" where
  "mb_authorize estimated_bytes b =
     (if \<not> mb_affordable estimated_bytes b then (None, b)
      else (let authorization_id = mb_next_authorization_id b in
        (Some authorization_id,
         b\<lparr>mb_next_authorization_id := authorization_id + 1,
           mb_requests := mb_requests b + 1,
           mb_reserved_bytes := mb_reserved_bytes b + int estimated_bytes,
           mb_authorizations := od_set authorization_id estimated_bytes (mb_authorizations b)\<rparr>)))"

definition mb_reconcile :: "nat \<Rightarrow> int \<Rightarrow> memory_budget \<Rightarrow> (exn + unit) \<times> memory_budget" where
  "mb_reconcile authorization_id response_bytes b =
     (if response_bytes < 0 then (Inl (ValueError ''response_bytes must be non-negative''), b)
      else (case map_of (mb_authorizations b) authorization_id of
          None \<Rightarrow> (Inl (RuntimeErr ''budget authorization already reconciled''), b)
        | Some estimated_bytes \<Rightarrow>
            (Inr (), b\<lparr>mb_authorizations := od_pop authorization_id (mb_authorizations b),
               mb_reserved_bytes := mb_reserved_bytes b - int estimated_bytes,
               mb_bytes := mb_bytes b + response_bytes\<rparr>)))"

definition mb_release :: "nat \<Rightarrow> memory_budget \<Rightarrow> (exn + unit) \<times> memory_budget" where
  "mb_release authorization_id b =
     (case map_of (mb_authorizations b) authorization_id of
        None \<Rightarrow> (Inl (RuntimeErr ''budget authorization already resolved''), b)
      | Some estimated_bytes \<Rightarrow>
          (Inr (), b\<lparr>mb_authorizations := od_pop authorization_id (mb_authorizations b),
             mb_requests := mb_requests b - 1,
             mb_reserved_bytes := mb_reserved_bytes b - int estimated_bytes\<rparr>))"

subsection \<open>Invariant\<close>

text \<open>
  The sum of the outstanding estimates, and the invariant that ties the counters to the table of
  outstanding authorizations.
\<close>

definition od_total :: "(nat, nat) odict \<Rightarrow> int" where
  "od_total d = sum_list (map (\<lambda>e. int (snd e)) d)"

lemma od_total_set_new: "map_of d k = None \<Longrightarrow> od_total (od_set k v d) = od_total d + int v"
  unfolding od_total_def od_set_def by (induction d) (auto split: if_splits)

lemma od_total_pop:
  "od_wf d \<Longrightarrow> map_of d k = Some v \<Longrightarrow> od_total (od_pop k d) = od_total d - int v"
  unfolding od_total_def od_pop_def
  by (induction d) (auto simp: delete_id split: if_splits)

lemma od_total_nonneg [simp]: "0 \<le> od_total d"
  unfolding od_total_def by (induction d) auto

definition mb_inv :: "memory_budget \<Rightarrow> bool" where
  "mb_inv b \<longleftrightarrow>
     od_wf (mb_authorizations b) \<and>
     od_below (mb_next_authorization_id b) (mb_authorizations b) \<and>
     mb_reserved_bytes b = od_total (mb_authorizations b) \<and>
     int (length (mb_authorizations b)) \<le> mb_requests b \<and>
     0 \<le> mb_bytes b \<and>
     (case mb_maximum_requests b of None \<Rightarrow> True | Some m \<Rightarrow> mb_requests b \<le> max 0 m)"

lemma mb_inv_init: "mb_inv (memory_budget_init mr mx)"
  by (auto simp: mb_inv_def memory_budget_init_def od_total_def split: option.split)

lemma mb_fresh:
  "mb_inv b \<Longrightarrow> map_of (mb_authorizations b) (mb_next_authorization_id b) = None"
  by (simp add: mb_inv_def)

lemma mb_inv_authorize: "mb_inv b \<Longrightarrow> mb_inv (snd (mb_authorize est b))"
  using mb_fresh [of b]
  by (auto simp: mb_inv_def mb_authorize_def mb_affordable_def Let_def od_simps od_length_set
      od_total_set_new less_Suc_eq map_of_eq_None_iff split: option.splits)

lemma mb_inv_reconcile: "mb_inv b \<Longrightarrow> mb_inv (snd (mb_reconcile i n b))"
  using od_length_pop_le [of i "mb_authorizations b"]
  by (auto simp: mb_inv_def mb_reconcile_def od_simps od_total_pop split: option.splits)

lemma mb_inv_release:
  assumes "mb_inv b" shows "mb_inv (snd (mb_release i b))"
proof (cases "map_of (mb_authorizations b) i")
  case (Some est)
  then have "i \<in> fst ` set (mb_authorizations b)" by (simp add: od_keys_iff)
  with assms have "Suc (length (od_pop i (mb_authorizations b))) = length (mb_authorizations b)"
    by (intro od_length_pop) (simp_all add: mb_inv_def)
  with assms Some show ?thesis
    by (auto simp: mb_inv_def mb_release_def od_simps od_total_pop split: option.splits)
qed (use assms in \<open>simp add: mb_release_def\<close>)

lemmas mb_inv_ops = mb_inv_authorize mb_inv_reconcile mb_inv_release

interpretation memory_budget:
  attempt_budget mb_authorize mb_reconcile mb_release "\<lambda>b. map_of (mb_authorizations b)" mb_inv
    "\<lambda>n. 0 \<le> n"
proof (unfold_locales, goal_cases)
  case (1 b est i b')
  then show ?case
    using mb_inv_authorize [of b est] mb_fresh [of b]
    by (auto simp: mb_authorize_def Let_def od_simps split: if_splits)
next
  case (3 b out i)
  then show ?case
    using mb_inv_reconcile [of b i out] by (auto simp: mb_reconcile_def od_simps)
next
  case (5 b i)
  then show ?case
    using mb_inv_release [of b i] by (auto simp: mb_release_def od_simps)
qed (auto simp: mb_authorize_def mb_reconcile_def mb_release_def Let_def split: if_splits)

subsection \<open>Arbitrary interleavings\<close>

text \<open>
  \<open>budget_run\<close> performs a list of operations and adds up the overrun: the bytes by which
  accepted reconciliations exceeded their estimate.
\<close>

datatype budget_event = AuthorizeEv nat | ReconcileEv nat int | ReleaseEv nat

fun budget_step :: "memory_budget \<Rightarrow> budget_event \<Rightarrow> memory_budget" where
  "budget_step b (AuthorizeEv est) = snd (mb_authorize est b)"
| "budget_step b (ReconcileEv i n) = snd (mb_reconcile i n b)"
| "budget_step b (ReleaseEv i) = snd (mb_release i b)"

fun budget_overrun :: "memory_budget \<Rightarrow> budget_event \<Rightarrow> int" where
  "budget_overrun b (ReconcileEv i n) =
     (case map_of (mb_authorizations b) i of None \<Rightarrow> 0 | Some est \<Rightarrow> max 0 (n - int est))"
| "budget_overrun b _ = 0"

fun budget_run :: "memory_budget \<Rightarrow> budget_event list \<Rightarrow> memory_budget \<times> int" where
  "budget_run b [] = (b, 0)"
| "budget_run b (e # es) =
     (case budget_run (budget_step b e) es of (b', over) \<Rightarrow> (b', budget_overrun b e + over))"

lemma budget_step_inv: "mb_inv b \<Longrightarrow> mb_inv (budget_step b e)"
  by (cases e) (simp_all add: mb_inv_ops)

lemma budget_step_limits [simp]:
  "mb_maximum_requests (budget_step b e) = mb_maximum_requests b"
  "mb_maximum_bytes (budget_step b e) = mb_maximum_bytes b"
  by (cases e; auto simp: mb_authorize_def mb_reconcile_def mb_release_def Let_def split: option.split)+

lemma budget_run_inv: "mb_inv b \<Longrightarrow> mb_inv (fst (budget_run b es))"
  by (induction b es rule: budget_run.induct) (auto simp: budget_step_inv split: prod.splits)

lemma budget_run_limits:
  "mb_maximum_requests (fst (budget_run b es)) = mb_maximum_requests b"
  "mb_maximum_bytes (fst (budget_run b es)) = mb_maximum_bytes b"
  by (induction b es rule: budget_run.induct) (auto split: prod.splits)

text \<open>One step never raises the charged bytes above the limit by more than its overrun.\<close>

lemma budget_step_bytes:
  assumes "mb_inv b" "mb_maximum_bytes b = Some m"
    and "mb_bytes b + mb_reserved_bytes b \<le> max 0 m + k"  and "0 \<le> k"
  shows "mb_bytes (budget_step b e) + mb_reserved_bytes (budget_step b e)
           \<le> max 0 m + (k + budget_overrun b e)"
  using assms
  by (cases e) (auto simp: mb_authorize_def mb_affordable_def mb_reconcile_def mb_release_def Let_def
      split: option.splits)

lemma budget_run_bytes:
  assumes "mb_inv b" "mb_maximum_bytes b = Some m"
    and "mb_bytes b + mb_reserved_bytes b \<le> max 0 m + k" "0 \<le> k"
  shows "mb_bytes (fst (budget_run b es)) + mb_reserved_bytes (fst (budget_run b es))
           \<le> max 0 m + (k + snd (budget_run b es))"
  using assms
proof (induction b es arbitrary: k rule: budget_run.induct)
  case (2 b e es)
  have "0 \<le> budget_overrun b e" by (cases e) (auto split: option.split)
  with 2(2-) have "mb_bytes (fst (budget_run (budget_step b e) es))
      + mb_reserved_bytes (fst (budget_run (budget_step b e) es))
      \<le> max 0 m + ((k + budget_overrun b e) + snd (budget_run (budget_step b e) es))"
    by (intro 2(1)) (auto intro: budget_step_inv dest: budget_step_bytes)
  then show ?case by (auto simp: add.assoc split: prod.splits)
qed simp

subsection \<open>Properties\<close>

text \<open>
  C10. The in-process budget is never overspent.  Whatever operations concurrent attempts perform on
  a new budget, in whatever order and with whatever identifiers, the charged requests never exceed
  the request limit, and the charged bytes together with the outstanding reservations exceed the
  byte limit at most by what responses ran over their own estimates.
\<close>

theorem request_budget_never_overspent:
  "mb_requests (fst (budget_run (memory_budget_init (Some n) (Some m)) es)) \<le> max 0 n \<and>
   mb_bytes (fst (budget_run (memory_budget_init (Some n) (Some m)) es))
     + mb_reserved_bytes (fst (budget_run (memory_budget_init (Some n) (Some m)) es))
     \<le> max 0 m + snd (budget_run (memory_budget_init (Some n) (Some m)) es)"
proof -
  let ?b0 = "memory_budget_init (Some n) (Some m)"
  have "mb_inv (fst (budget_run ?b0 es))" by (rule budget_run_inv [OF mb_inv_init])
  moreover have "mb_maximum_requests (fst (budget_run ?b0 es)) = Some n"
    by (simp add: budget_run_limits) (simp add: memory_budget_init_def)
  moreover have "mb_bytes (fst (budget_run ?b0 es)) + mb_reserved_bytes (fst (budget_run ?b0 es))
      \<le> max 0 m + (0 + snd (budget_run ?b0 es))"
    by (rule budget_run_bytes [OF mb_inv_init]) (simp_all add: memory_budget_init_def)
  ultimately show ?thesis by (simp add: mb_inv_def)
qed

text \<open>
  Reservations are conserved and settled once.  In every reachable state of the in-process
  budget the reserved bytes are the sum of the outstanding estimates; an outstanding authorization
  can be released without error, after which neither releasing nor reconciling it again has any
  effect but an exception.
\<close>

theorem request_budget_settled_once:
  assumes "b = fst (budget_run (memory_budget_init mr mx) es)"
    and "map_of (mb_authorizations b) i = Some est"
  shows "mb_reserved_bytes b = od_total (mb_authorizations b) \<and>
    fst (mb_release i b) = Inr () \<and>
    mb_reserved_bytes (snd (mb_release i b)) = mb_reserved_bytes b - int est \<and>
    (\<exists>e. mb_release i (snd (mb_release i b)) = (Inl e, snd (mb_release i b))) \<and>
    (\<exists>e. mb_reconcile i n (snd (mb_release i b)) = (Inl e, snd (mb_release i b)))"
proof -
  have inv: "mb_inv b" using assms(1) by (simp add: budget_run_inv mb_inv_init)
  have "map_of (mb_authorizations b) i \<noteq> None" using assms(2) by simp
  from memory_budget.settle_twice_raises [OF inv _ this, of 0 "snd (mb_release i b)"]
  have "\<exists>e. mb_reconcile i n (snd (mb_release i b)) = (Inl e, snd (mb_release i b))"
    "\<exists>e. mb_release i (snd (mb_release i b)) = (Inl e, snd (mb_release i b))" by blast+
  with inv assms(2) show ?thesis by (simp add: mb_inv_def mb_release_def)
qed

theorem request_budget_settled_once_witness:
  "fst (mb_release 0 (fst (budget_run (memory_budget_init None None) [AuthorizeEv 10]))) = Inr ()"
proof -
  have "map_of (mb_authorizations (fst (budget_run (memory_budget_init None None) [AuthorizeEv 10]))) 0 = Some 10"
    by code_simp
  from request_budget_settled_once [OF refl this] show ?thesis by blast
qed

end
