(* ===== verification/Middleware.thy ===== *)
theory Middleware
  imports Request_Size Effects Request_Budget
begin

section \<open>The middleware transport\<close>

text \<open>
  \<^verbatim>\<open>transports/middleware.py\<close>: one logical request through robots check, cache, budget, rate limit,
  backend, retries and stale fallback.  The collaborators are abstract (\<open>mt_ops\<close>): each may return
  anything, raise anything and change the environment in any way.  The history of a request records
  every call on a collaborator with its result and every telemetry emission.  Events carry the
  fields that depend on the attempt; the constant fields of the request (\<^verbatim>\<open>common\<close>) and elapsed
  times are left out.  \<^verbatim>\<open>uuid4().hex\<close> is the argument \<open>fresh_id\<close>.
\<close>

subsection \<open>Observations\<close>

datatype observation_phase = PhaseStarted | PhaseCompleted | PhaseFailed | PhaseRetry

record request_observation =
  ob_phase :: observation_phase
  ob_request_id :: "string option"
  ob_attempt :: nat
  ob_source_id :: "string option"
  ob_target_host :: string
  ob_method :: string
  ob_purpose :: request_purpose
  ob_status :: "nat option"
  ob_route :: "route_metadata option"
  ob_accounting :: transport_accounting
  ob_classification :: "string option"

definition optional_length_ok :: "nat \<Rightarrow> nat \<Rightarrow> string option \<Rightarrow> bool" where
  "optional_length_ok lo hi s = (case s of None \<Rightarrow> True | Some v \<Rightarrow> lo \<le> length v \<and> length v \<le> hi)"

text \<open>The field constraints of \<^verbatim>\<open>RequestObservation\<close>; a violation is a validation error.\<close>

definition observation_validate :: "request_observation \<Rightarrow> exn + request_observation" where
  "observation_validate ob =
     (if optional_length_ok 1 128 (ob_request_id ob) \<and> 1 \<le> ob_attempt ob
         \<and> optional_length_ok 1 256 (ob_source_id ob) \<and> length (ob_target_host ob) \<le> 253
         \<and> 1 \<le> length (ob_method ob) \<and> length (ob_method ob) \<le> 16
         \<and> (case ob_status ob of None \<Rightarrow> True | Some s \<Rightarrow> 100 \<le> s \<and> s \<le> 599)
         \<and> optional_length_ok 0 64 (ob_classification ob)
      then Inr ob else Inl (ValueError ''invalid request observation''))"

definition observation_outcome :: "request_observation \<Rightarrow> string" where
  "observation_outcome ob =
     (case ob_status ob of
        None \<Rightarrow> ''transport_error''
      | Some s \<Rightarrow> if s = 403 \<or> s = 429 then nat_str s else nat_str (s div 100) @ ''xx'')"

subsection \<open>Configuration, collaborators, history\<close>

record mt_config =
  mt_stale_on_error :: bool
  mt_retries :: nat
  mt_backoff :: "nat \<Rightarrow> rat"
  mt_telemetry :: bool
  mt_source_id :: "string option"
  mt_maximum_response_bytes :: nat

definition mt_init :: "bool \<Rightarrow> int \<Rightarrow> (nat \<Rightarrow> rat) \<Rightarrow> bool \<Rightarrow> string option \<Rightarrow> int \<Rightarrow> exn + mt_config" where
  "mt_init stale_on_error retries backoff telemetry source_id maximum_response_bytes =
     (if retries < 0 then Inl (ValueError ''retries must be non-negative'')
      else if maximum_response_bytes < 1 then Inl (ValueError ''maximum_response_bytes must be positive'')
      else Inr \<lparr>mt_stale_on_error = stale_on_error, mt_retries = nat retries, mt_backoff = backoff,
                mt_telemetry = telemetry, mt_source_id = source_id,
                mt_maximum_response_bytes = nat maximum_response_bytes\<rparr>)"

text \<open>The default backoff \<^verbatim>\<open>0.1 * 2**attempt\<close>.\<close>

definition default_backoff :: "nat \<Rightarrow> rat" where
  "default_backoff attempt = 1 / 10 * 2 ^ attempt"

text \<open>
  A cache is a plain \<^verbatim>\<open>ResponseCache\<close>, or also a \<^verbatim>\<open>StaleResponseCache\<close>: then \<open>co_lookup\<close> returns
  the fresh and the stale response and the handle of the lookup, through which it is written.
\<close>

record 'e cache_ops =
  co_get :: "transport_request \<Rightarrow> ('e, transport_response option) act"
  co_put :: "transport_request \<Rightarrow> transport_response \<Rightarrow> ('e, unit) act"
  co_lookup :: "(transport_request \<Rightarrow> ('e, transport_response option \<times> transport_response option \<times> nat) act) option"
  co_lookup_put :: "nat \<Rightarrow> transport_response \<Rightarrow> ('e, unit) act"

record 'e budget_ops =
  bo_authorize :: "transport_request \<Rightarrow> ('e, nat option) act"
  bo_reconcile :: "nat \<Rightarrow> nat \<Rightarrow> ('e, unit) act"
  bo_release :: "nat \<Rightarrow> ('e, unit) act"

record 'e limiter_ops =
  li_wait :: "transport_request \<Rightarrow> ('e, unit) act"
  li_release :: "transport_request \<Rightarrow> ('e, unit) act"

record 'e mt_ops =
  mo_robots :: "(string \<Rightarrow> ('e, bool) act) option"
  mo_cache :: "'e cache_ops option"
  mo_budget :: "'e budget_ops option"
  mo_limiter :: "'e limiter_ops option"
  mo_backend :: "transport_request \<Rightarrow> ('e, transport_response) act"
  mo_rotate :: "rotation_reason \<Rightarrow> ('e, unit) act"
  mo_rotate_for_request :: "(rotation_reason \<Rightarrow> transport_request \<Rightarrow> ('e, unit) act) option"
  mo_sleep :: "rat \<Rightarrow> ('e, unit) act"

datatype mt_event =
    EvAccepted | EvRobotsDenied | EvCacheHit | EvCacheMiss
  | EvCacheRejected string nat nat
  | EvBudgetDenied nat
  | EvRateLimitWait
  | EvStarted nat
  | EvFailed nat string transport_accounting "bool option" bool
  | EvRetry nat "nat option" rat
  | EvRevalidated nat
  | EvCacheWrite nat
  | EvCompleted nat nat transport_accounting
  | EvStaleUsed string "nat option"

datatype mt_call =
    MEmit mt_event
  | MObserve request_observation
  | MRobots string "exn + bool"
  | MCacheGet transport_request "exn + transport_response option"
  | MCacheLookup transport_request "exn + (transport_response option \<times> transport_response option \<times> nat)"
  | MCachePut transport_request transport_response "exn + unit"
  | MLookupPut nat transport_response "exn + unit"
  | MAuthorize transport_request "exn + nat option"
  | MReconcile nat nat "exn + unit"
  | MReleaseAuth nat "exn + unit"
  | MWait transport_request "exn + unit"
  | MReleasePermit transport_request "exn + unit"
  | MDispatch transport_request "exn + transport_response"
  | MRotate rotation_reason "exn + unit"
  | MRotateFor rotation_reason transport_request "exn + unit"
  | MSleep rat "exn + unit"

type_synonym ('e, 'a) mt_act = "((mt_call, 'e) world, 'a) act"

subsection \<open>Telemetry\<close>

definition mt_emit :: "mt_config \<Rightarrow> mt_event \<Rightarrow> ('e, unit) mt_act" where
  "mt_emit cfg ev = whenA (mt_telemetry cfg) (record_call (MEmit ev))"

definition mt_observation ::
  "mt_config \<Rightarrow> observation_phase \<Rightarrow> transport_request \<Rightarrow> nat \<Rightarrow> transport_accounting option \<Rightarrow>
   transport_response option \<Rightarrow> string option \<Rightarrow> exn + request_observation" where
  "mt_observation cfg phase request attempt accounting response classification =
     (case urlsplit (req_url request) of Inl e \<Rightarrow> Inl e
      | Inr parsed \<Rightarrow> observation_validate
          \<lparr>ob_phase = phase, ob_request_id = req_trace_request_id request, ob_attempt = attempt,
           ob_source_id = mt_source_id cfg,
           ob_target_host = py_lower (case us_hostname parsed of None \<Rightarrow> [] | Some h \<Rightarrow> h),
           ob_method = py_upper (req_method request), ob_purpose = req_purpose request,
           ob_status = map_option resp_status response, ob_route = map_option resp_route response,
           ob_accounting = (case accounting of Some a \<Rightarrow> a
             | None \<Rightarrow> \<lparr>physical_requests = 0, transmitted_bytes = 0, received_bytes = 0\<rparr>),
           ob_classification = classification\<rparr>)"

definition mt_observe ::
  "mt_config \<Rightarrow> observation_phase \<Rightarrow> transport_request \<Rightarrow> nat \<Rightarrow> transport_accounting option \<Rightarrow>
   transport_response option \<Rightarrow> string option \<Rightarrow> ('e, unit) mt_act" where
  "mt_observe cfg phase request attempt accounting response classification =
     whenA (mt_telemetry cfg)
       (bindA (liftA (mt_observation cfg phase request attempt accounting response classification))
         (\<lambda>ob. record_call (MObserve ob)))"

definition mt_emit_attempt_failure ::
  "mt_config \<Rightarrow> transport_request \<Rightarrow> transport_accounting \<Rightarrow> nat \<Rightarrow> string \<Rightarrow> bool option \<Rightarrow> bool \<Rightarrow> ('e, unit) mt_act" where
  "mt_emit_attempt_failure cfg request accounting attempt stage retryable cancelled =
     thenA (mt_emit cfg (EvFailed attempt stage accounting retryable cancelled))
       (mt_observe cfg PhaseFailed request attempt (Some accounting) None (Some stage))"

definition mt_emit_completed ::
  "mt_config \<Rightarrow> transport_request \<Rightarrow> transport_response \<Rightarrow> transport_accounting \<Rightarrow> nat \<Rightarrow> ('e, unit) mt_act" where
  "mt_emit_completed cfg request response accounting attempt =
     thenA (mt_emit cfg (EvCompleted attempt (resp_status response) accounting))
       (mt_observe cfg PhaseCompleted request attempt (Some accounting) (Some response) None)"

subsection \<open>Cache and identity helpers\<close>

definition mt_enforce_cached_body ::
  "mt_config \<Rightarrow> transport_response \<Rightarrow> string \<Rightarrow> ('e, transport_response) mt_act" where
  "mt_enforce_cached_body cfg response reason =
     (case enforce_response_body_limit response (mt_maximum_response_bytes cfg) of
        Inr r \<Rightarrow> ret r
      | Inl e \<Rightarrow> thenA (mt_emit cfg (EvCacheRejected reason (length (resp_content response)) (mt_maximum_response_bytes cfg)))
                  (raise e))"

definition mt_cache_put ::
  "mt_config \<Rightarrow> 'e cache_ops \<Rightarrow> transport_request \<Rightarrow> transport_response \<Rightarrow> nat option \<Rightarrow>
   transport_accounting \<Rightarrow> nat \<Rightarrow> ('e, unit) mt_act" where
  "mt_cache_put cfg cache request response lookup accounting attempt =
     catchA (case lookup of
          None \<Rightarrow> call (MCachePut request response) (co_put cache request response)
        | Some h \<Rightarrow> call (MLookupPut h response) (co_lookup_put cache h response))
       (\<lambda>e. thenA (mt_emit_attempt_failure cfg request accounting attempt ''cache_write'' (Some False) False)
              (raise e))"

definition mt_rotate_identity ::
  "'e mt_ops \<Rightarrow> rotation_reason \<Rightarrow> transport_request \<Rightarrow> ('e, unit) mt_act" where
  "mt_rotate_identity ops reason request =
     (case mo_rotate_for_request ops of
        Some rotate_for \<Rightarrow> call (MRotateFor reason request) (rotate_for reason request)
      | None \<Rightarrow> call (MRotate reason) (mo_rotate ops reason))"

definition header_ci :: "string \<Rightarrow> (string, string) odict \<Rightarrow> string option" where
  "header_ci wanted headers = map_option snd (find (\<lambda>(name, _). py_lower name = wanted) headers)"

definition add_validator ::
  "(string, string) odict \<Rightarrow> string list \<Rightarrow> string \<Rightarrow> string \<Rightarrow> (string, string) odict \<Rightarrow> (string, string) odict" where
  "add_validator stale_headers existing cached_name request_name headers =
     (case header_ci cached_name stale_headers of
        Some value \<Rightarrow> if request_name \<notin> set existing then od_set request_name value headers else headers
      | None \<Rightarrow> headers)"

definition mt_conditional_request :: "transport_request \<Rightarrow> transport_response \<Rightarrow> transport_request" where
  "mt_conditional_request request stale =
     (if py_upper (req_method request) \<notin> {''GET'', ''HEAD''} \<or> req_browser request \<noteq> BrowserNever then request
      else (let existing = map (py_lower \<circ> fst) (req_headers request) in
        request\<lparr>req_headers :=
          add_validator (resp_headers stale) existing ''last-modified'' ''if-modified-since''
            (add_validator (resp_headers stale) existing ''etag'' ''if-none-match'' (req_headers request))\<rparr>))"

definition mt_can_use_stale ::
  "mt_config \<Rightarrow> transport_request \<Rightarrow> transport_response option \<Rightarrow> nat option \<Rightarrow> bool" where
  "mt_can_use_stale cfg request stale status \<longleftrightarrow>
     mt_stale_on_error cfg \<and> stale \<noteq> None \<and> py_upper (req_method request) = ''GET''
     \<and> req_browser request = BrowserNever
     \<and> (case status of None \<Rightarrow> True | Some s \<Rightarrow> s \<in> {408, 425, 429} \<or> 500 \<le> s)"

definition mt_stale_fallback ::
  "mt_config \<Rightarrow> transport_response option \<Rightarrow> string \<Rightarrow> nat option \<Rightarrow> ('e, transport_response) mt_act" where
  "mt_stale_fallback cfg stale reason status =
     (case stale of None \<Rightarrow> raise (AssertionErr ''stale is not None'')
      | Some s \<Rightarrow> thenA (mt_emit cfg (EvStaleUsed reason status))
          (ret (s\<lparr>resp_route := route_cache, resp_from_cache := True\<rparr>)))"

definition mt_revalidated_response :: "transport_response \<Rightarrow> transport_response \<Rightarrow> transport_response" where
  "mt_revalidated_response stale response =
     \<lparr>resp_status = resp_status stale,
      resp_headers = foldl (\<lambda>hs (name, value).
           if py_lower name \<in> {''content-type'', ''content-language'', ''last-modified'', ''etag''}
           then od_set name value hs else hs) (resp_headers stale) (resp_headers response),
      resp_content = resp_content stale, resp_final_url = resp_final_url stale,
      resp_route = resp_route response, resp_from_cache = True, resp_elapsed_seconds = 0,
      resp_accounting = resp_accounting response\<rparr>"

subsection \<open>One attempt\<close>

record attempt_locals =
  al_acquired :: bool
  al_dispatched :: bool
  al_response_bytes :: nat
  al_accounting :: transport_accounting

definition locals0 :: attempt_locals where
  "locals0 = \<lparr>al_acquired = False, al_dispatched = False, al_response_bytes = 0,
     al_accounting = \<lparr>physical_requests = 0, transmitted_bytes = 0, received_bytes = 0\<rparr>\<rparr>"

text \<open>\<^verbatim>\<open>accounting or TransportAccounting(transmitted_bytes=estimated_transmitted_bytes(r), received_bytes=n)\<close>.\<close>

definition accounting_or_estimate ::
  "transport_accounting option \<Rightarrow> transport_request \<Rightarrow> nat \<Rightarrow> exn + transport_accounting" where
  "accounting_or_estimate accounting request received =
     (case accounting of Some a \<Rightarrow> Inr a
      | None \<Rightarrow> (case estimated_transmitted_bytes request of Inl e \<Rightarrow> Inl e
          | Inr n \<Rightarrow> Inr (accounting_default\<lparr>transmitted_bytes := n, received_bytes := received\<rparr>)))"

fun exn_accounting :: "exn \<Rightarrow> transport_accounting option" where
  "exn_accounting (TransportFailure a) = a"
| "exn_accounting (ResponseBodyTooLarge _ _ a) = a"
| "exn_accounting (CancelledError a) = a"
| "exn_accounting (BackendError a) = a"
| "exn_accounting _ = None"

text \<open>The \<^verbatim>\<open>try\<close> block: its outcome and the local variables at its end.\<close>

definition mt_wait_permit :: "mt_config \<Rightarrow> 'e mt_ops \<Rightarrow> transport_request \<Rightarrow> ('e, bool) mt_act" where
  "mt_wait_permit cfg ops request =
     (case mo_limiter ops of None \<Rightarrow> ret False
      | Some limiter \<Rightarrow> thenA (call (MWait request) (li_wait limiter request)) (ret True))"

definition mt_announce :: "mt_config \<Rightarrow> 'e mt_ops \<Rightarrow> transport_request \<Rightarrow> nat \<Rightarrow> ('e, unit) mt_act" where
  "mt_announce cfg ops request attempt =
     thenA (whenA (mo_limiter ops \<noteq> None) (mt_emit cfg EvRateLimitWait))
      (thenA (mt_emit cfg (EvStarted attempt))
        (mt_observe cfg PhaseStarted request attempt None None None))"

definition mt_receive ::
  "mt_config \<Rightarrow> transport_request \<Rightarrow> transport_response \<Rightarrow> attempt_locals \<Rightarrow> (exn + transport_response) \<times> attempt_locals" where
  "mt_receive cfg request response l =
     (let l1 = l\<lparr>al_response_bytes := length (resp_content response)\<rparr> in
      case accounting_or_estimate (resp_accounting response) request (length (resp_content response)) of
        Inl e \<Rightarrow> (Inl e, l1)
      | Inr accounting \<Rightarrow>
          (enforce_response_body_limit response (mt_maximum_response_bytes cfg), l1\<lparr>al_accounting := accounting\<rparr>))"

definition mt_try ::
  "mt_config \<Rightarrow> 'e mt_ops \<Rightarrow> transport_request \<Rightarrow> nat \<Rightarrow> ('e, (exn + transport_response) \<times> attempt_locals) mt_act" where
  "mt_try cfg ops request attempt =
     bindA (tryA (mt_wait_permit cfg ops request)) (\<lambda>r. case r of Inl e \<Rightarrow> ret (Inl e, locals0)
      | Inr acquired \<Rightarrow>
         (let l1 = locals0\<lparr>al_acquired := acquired\<rparr> in
          bindA (tryA (mt_announce cfg ops request attempt)) (\<lambda>r. case r of Inl e \<Rightarrow> ret (Inl e, l1)
           | Inr _ \<Rightarrow>
              (let l2 = l1\<lparr>al_dispatched := True\<rparr> in
               bindA (tryA (call (MDispatch request) (mo_backend ops request))) (\<lambda>r. case r of
                   Inl e \<Rightarrow> ret (Inl e, l2)
                 | Inr response \<Rightarrow> ret (mt_receive cfg request response l2))))))"

datatype attempt_result = ARaise exn | AResponse transport_response | AFailure exn

text \<open>
  The \<^verbatim>\<open>except\<close> clauses.  Before the dispatch every clause re-raises; after it the failure is
  accounted and announced, and only a \<^verbatim>\<open>TransportFailure\<close> lets the request go on.
\<close>

definition mt_failed ::
  "mt_config \<Rightarrow> transport_request \<Rightarrow> nat \<Rightarrow> exn \<Rightarrow> nat \<Rightarrow> string \<Rightarrow> bool option \<Rightarrow> bool \<Rightarrow> attempt_result \<Rightarrow>
   attempt_locals \<Rightarrow> ('e, attempt_result \<times> attempt_locals) mt_act" where
  "mt_failed cfg request attempt e received stage retryable cancelled outcome l =
     (case accounting_or_estimate (exn_accounting e) request received of
        Inl e' \<Rightarrow> ret (ARaise e', l)
      | Inr accounting \<Rightarrow>
         bindA (tryA (mt_emit_attempt_failure cfg request accounting attempt stage retryable cancelled))
           (\<lambda>r. ret ((case r of Inl e' \<Rightarrow> ARaise e' | Inr _ \<Rightarrow> outcome), l\<lparr>al_accounting := accounting\<rparr>)))"

definition mt_handle ::
  "mt_config \<Rightarrow> transport_request \<Rightarrow> nat \<Rightarrow> (exn + transport_response) \<times> attempt_locals \<Rightarrow>
   ('e, attempt_result \<times> attempt_locals) mt_act" where
  "mt_handle cfg request attempt outcome =
     (case outcome of
        (Inr response, l) \<Rightarrow> ret (AResponse response, l)
      | (Inl e, l) \<Rightarrow>
          if \<not> al_dispatched l then ret (ARaise e, l)
          else (case e of
             ResponseBodyTooLarge _ received _ \<Rightarrow>
               mt_failed cfg request attempt e received ''response_body_too_large'' (Some False) False (ARaise e)
                 (l\<lparr>al_response_bytes := received\<rparr>)
           | TransportFailure _ \<Rightarrow>
               mt_failed cfg request attempt e 0 ''transport_failure'' (Some True) False (AFailure e) l
           | CancelledError _ \<Rightarrow>
               mt_failed cfg request attempt e 0 ''cancelled'' (Some False) True (ARaise e) l
           | _ \<Rightarrow> mt_failed cfg request attempt e 0 ''backend_failure'' None False (ARaise e) l))"

text \<open>
  The \<^verbatim>\<open>finally\<close> block: return the permit, settle the authorization, report the last failure of
  these.  A cancellation of either call is not caught and leaves at once.
\<close>

definition mt_guarded :: "string \<Rightarrow> ('e, unit) mt_act \<Rightarrow> (exn \<times> string) option \<Rightarrow> ('e, (exn \<times> string) option) mt_act" where
  "mt_guarded stage m previous =
     bindA (tryA m) (\<lambda>r. case r of Inr _ \<Rightarrow> ret previous
       | Inl e \<Rightarrow> if is_exception e then ret (Some (e, stage)) else raise e)"

definition mt_return_permit ::
  "'e mt_ops \<Rightarrow> transport_request \<Rightarrow> attempt_locals \<Rightarrow> ('e, (exn \<times> string) option) mt_act" where
  "mt_return_permit ops request l =
     (case mo_limiter ops of
        Some limiter \<Rightarrow> if al_acquired l
          then mt_guarded ''rate_limit_release'' (call (MReleasePermit request) (li_release limiter request)) None
          else ret None
      | None \<Rightarrow> ret None)"

definition mt_settle ::
  "'e mt_ops \<Rightarrow> nat option \<Rightarrow> attempt_locals \<Rightarrow> (exn \<times> string) option \<Rightarrow> ('e, (exn \<times> string) option) mt_act" where
  "mt_settle ops authorization l previous =
     (case (mo_budget ops, authorization) of
        (Some budget, Some i) \<Rightarrow>
          if al_dispatched l
          then mt_guarded ''budget_reconcile''
                 (call (MReconcile i (al_response_bytes l)) (bo_reconcile budget i (al_response_bytes l))) previous
          else mt_guarded ''budget_release'' (call (MReleaseAuth i) (bo_release budget i)) previous
      | _ \<Rightarrow> ret previous)"

definition mt_cleanup ::
  "mt_config \<Rightarrow> 'e mt_ops \<Rightarrow> transport_request \<Rightarrow> nat \<Rightarrow> nat option \<Rightarrow> attempt_locals \<Rightarrow> ('e, unit) mt_act" where
  "mt_cleanup cfg ops request attempt authorization l =
     bindA (mt_return_permit ops request l) (\<lambda>previous.
     bindA (mt_settle ops authorization l previous) (\<lambda>failure.
       case failure of None \<Rightarrow> ret ()
       | Some (e, stage) \<Rightarrow>
           thenA (whenA (al_dispatched l)
               (mt_emit_attempt_failure cfg request (al_accounting l) attempt stage (Some False) False))
             (raise e)))"

definition mt_attempt ::
  "mt_config \<Rightarrow> 'e mt_ops \<Rightarrow> transport_request \<Rightarrow> nat \<Rightarrow> nat option \<Rightarrow> ('e, attempt_result \<times> attempt_locals) mt_act" where
  "mt_attempt cfg ops request attempt authorization =
     bindA (mt_try cfg ops request attempt) (\<lambda>outcome.
     bindA (mt_handle cfg request attempt outcome) (\<lambda>(result, l).
     thenA (mt_cleanup cfg ops request attempt authorization l)
       (case result of ARaise e \<Rightarrow> raise e | _ \<Rightarrow> ret (result, l))))"

subsection \<open>Retries\<close>

datatype mt_next = MReturn transport_response | MContinue

definition transient_status :: "nat \<Rightarrow> bool" where
  "transient_status s \<longleftrightarrow> s \<in> {403, 429, 500, 502, 503, 504}"

definition mt_after_failure ::
  "mt_config \<Rightarrow> 'e mt_ops \<Rightarrow> transport_request \<Rightarrow> transport_request \<Rightarrow> transport_response option \<Rightarrow> nat \<Rightarrow>
   exn \<Rightarrow> ('e, mt_next) mt_act" where
  "mt_after_failure cfg ops request attempt_request stale attempt e =
     (if attempt = mt_retries cfg
      then (if mt_can_use_stale cfg request stale None
            then bindA (mt_stale_fallback cfg stale ''transport_failure'' None) (\<lambda>r. ret (MReturn r))
            else raise e)
      else thenA (mt_emit cfg (EvRetry (attempt + 1) None (mt_backoff cfg attempt)))
        (thenA (mt_observe cfg PhaseRetry attempt_request (attempt + 1) None None (Some ''transport_failure''))
        (thenA (whenA (\<not> mt_can_use_stale cfg request stale None)
                  (mt_rotate_identity ops RotTransportFailure attempt_request))
        (thenA (call (MSleep (mt_backoff cfg attempt)) (mo_sleep ops (mt_backoff cfg attempt)))
          (ret MContinue)))))"

definition mt_finish ::
  "mt_config \<Rightarrow> 'e mt_ops \<Rightarrow> transport_request \<Rightarrow> transport_request \<Rightarrow> transport_request \<Rightarrow>
   transport_response option \<Rightarrow> nat option \<Rightarrow> nat \<Rightarrow> attempt_locals \<Rightarrow> transport_response \<Rightarrow> ('e, mt_next) mt_act" where
  "mt_finish cfg ops cache_request request attempt_request stale lookup attempt l response =
     thenA (case mo_cache ops of
         Some cache \<Rightarrow> whenA (resp_status response < 400)
           (thenA (mt_cache_put cfg cache cache_request response lookup (al_accounting l) (attempt + 1))
             (mt_emit cfg (EvCacheWrite (resp_status response))))
       | None \<Rightarrow> ret ())
      (thenA (mt_emit_completed cfg attempt_request response (al_accounting l) (attempt + 1))
        (if mt_can_use_stale cfg request stale (Some (resp_status response))
         then bindA (mt_stale_fallback cfg stale ''transient_status'' (Some (resp_status response))) (\<lambda>r. ret (MReturn r))
         else ret (MReturn response)))"

definition mt_revalidate ::
  "mt_config \<Rightarrow> 'e mt_ops \<Rightarrow> transport_request \<Rightarrow> transport_request \<Rightarrow> transport_response \<Rightarrow> nat option \<Rightarrow> nat \<Rightarrow>
   attempt_locals \<Rightarrow> transport_response \<Rightarrow> ('e, mt_next) mt_act" where
  "mt_revalidate cfg ops cache_request attempt_request stale lookup attempt l response =
     (let revalidated = mt_revalidated_response stale response in
      thenA (case mo_cache ops of
          Some cache \<Rightarrow> mt_cache_put cfg cache cache_request revalidated lookup (al_accounting l) (attempt + 1)
        | None \<Rightarrow> ret ())
      (thenA (mt_emit cfg (EvRevalidated (length (resp_content stale))))
      (thenA (mt_emit_completed cfg attempt_request response (al_accounting l) (attempt + 1))
        (ret (MReturn revalidated)))))"

definition mt_retry_status ::
  "mt_config \<Rightarrow> 'e mt_ops \<Rightarrow> transport_request \<Rightarrow> transport_request \<Rightarrow> transport_response option \<Rightarrow> nat \<Rightarrow>
   attempt_locals \<Rightarrow> transport_response \<Rightarrow> ('e, mt_next) mt_act" where
  "mt_retry_status cfg ops request attempt_request stale attempt l response =
     thenA (mt_emit cfg (EvRetry (attempt + 1) (Some (resp_status response)) (mt_backoff cfg attempt)))
      (thenA (mt_observe cfg PhaseRetry attempt_request (attempt + 1) (Some (al_accounting l)) (Some response)
               (Some ''transient_status''))
      (thenA (whenA (resp_status response \<in> {403, 429}
                 \<and> \<not> mt_can_use_stale cfg request stale (Some (resp_status response)))
               (mt_rotate_identity ops (if resp_status response = 403 then RotBlocked else RotRateLimited)
                  attempt_request))
      (thenA (call (MSleep (mt_backoff cfg attempt)) (mo_sleep ops (mt_backoff cfg attempt)))
        (ret MContinue))))"

definition mt_after_response ::
  "mt_config \<Rightarrow> 'e mt_ops \<Rightarrow> transport_request \<Rightarrow> transport_request \<Rightarrow> transport_request \<Rightarrow>
   transport_response option \<Rightarrow> nat option \<Rightarrow> nat \<Rightarrow> attempt_locals \<Rightarrow> transport_response \<Rightarrow> ('e, mt_next) mt_act" where
  "mt_after_response cfg ops cache_request request attempt_request stale lookup attempt l response =
     (case (stale, resp_status response = 304) of
        (Some s, True) \<Rightarrow> mt_revalidate cfg ops cache_request attempt_request s lookup attempt l response
      | _ \<Rightarrow>
         if \<not> transient_status (resp_status response) \<or> attempt = mt_retries cfg
         then mt_finish cfg ops cache_request request attempt_request stale lookup attempt l response
         else mt_retry_status cfg ops request attempt_request stale attempt l response)"

definition mt_authorize ::
  "mt_config \<Rightarrow> 'e mt_ops \<Rightarrow> transport_request \<Rightarrow> nat \<Rightarrow> ('e, nat option) mt_act" where
  "mt_authorize cfg ops request attempt =
     (case mo_budget ops of None \<Rightarrow> ret None
      | Some budget \<Rightarrow>
          bindA (call (MAuthorize request) (bo_authorize budget request)) (\<lambda>a. case a of
              None \<Rightarrow> thenA (mt_emit cfg (EvBudgetDenied (attempt + 1))) (raise BudgetExhausted)
            | Some i \<Rightarrow> ret (Some i)))"

definition mt_attempt_request :: "string option \<Rightarrow> nat \<Rightarrow> transport_request \<Rightarrow> transport_request" where
  "mt_attempt_request request_id attempt request =
     (case request_id of None \<Rightarrow> request
      | Some i \<Rightarrow> request\<lparr>req_trace_request_id := Some i, req_trace_attempt := Some (attempt + 1)\<rparr>)"

text \<open>The body of \<^verbatim>\<open>for attempt in range(retries + 1)\<close>, and the loop.\<close>

definition mt_iteration ::
  "mt_config \<Rightarrow> 'e mt_ops \<Rightarrow> transport_request \<Rightarrow> transport_request \<Rightarrow> string option \<Rightarrow>
   transport_response option \<Rightarrow> nat option \<Rightarrow> nat \<Rightarrow> ('e, mt_next) mt_act" where
  "mt_iteration cfg ops cache_request request request_id stale lookup attempt =
     (let attempt_request = mt_attempt_request request_id attempt request in
      bindA (mt_authorize cfg ops attempt_request attempt) (\<lambda>authorization.
      bindA (mt_attempt cfg ops attempt_request (attempt + 1) authorization) (\<lambda>(result, l).
        case result of
          AFailure e \<Rightarrow> mt_after_failure cfg ops request attempt_request stale attempt e
        | AResponse response \<Rightarrow>
            mt_after_response cfg ops cache_request request attempt_request stale lookup attempt l response
        | ARaise e \<Rightarrow> raise e)))"

fun mt_loop ::
  "mt_config \<Rightarrow> 'e mt_ops \<Rightarrow> transport_request \<Rightarrow> transport_request \<Rightarrow> string option \<Rightarrow>
   transport_response option \<Rightarrow> nat option \<Rightarrow> nat list \<Rightarrow> ('e, transport_response) mt_act" where
  "mt_loop cfg ops cache_request request request_id stale lookup [] = raise (AssertionErr ''unreachable'')"
| "mt_loop cfg ops cache_request request request_id stale lookup (attempt # attempts) =
     bindA (mt_iteration cfg ops cache_request request request_id stale lookup attempt) (\<lambda>next_step.
       case next_step of MReturn response \<Rightarrow> ret response
       | MContinue \<Rightarrow> mt_loop cfg ops cache_request request request_id stale lookup attempts)"

subsection \<open>The request\<close>

definition mt_check_robots :: "mt_config \<Rightarrow> 'e mt_ops \<Rightarrow> transport_request \<Rightarrow> ('e, unit) mt_act" where
  "mt_check_robots cfg ops request =
     (case mo_robots ops of
        Some allowed \<Rightarrow> if req_purpose request = PurposeRobots then ret ()
          else bindA (call (MRobots (req_url request)) (allowed (req_url request))) (\<lambda>ok.
            if ok then ret () else thenA (mt_emit cfg EvRobotsDenied) (raise RobotsDenied))
      | None \<Rightarrow> ret ())"

text \<open>The cache read: the fresh response, the stale response and the handle of the lookup.\<close>

definition mt_cache_read ::
  "mt_config \<Rightarrow> 'e cache_ops \<Rightarrow> transport_request \<Rightarrow>
   ('e, transport_response option \<times> transport_response option \<times> nat option) mt_act" where
  "mt_cache_read cfg cache request =
     (case co_lookup cache of
        Some lookup \<Rightarrow> bindA (call (MCacheLookup request) (lookup request)) (\<lambda>(fresh, stale, h).
          ret (fresh, stale, Some h))
      | None \<Rightarrow> bindA (call (MCacheGet request) (co_get cache request)) (\<lambda>fresh. ret (fresh, None, None)))"

definition mt_network ::
  "mt_config \<Rightarrow> 'e mt_ops \<Rightarrow> transport_request \<Rightarrow> string option \<Rightarrow> transport_response option \<Rightarrow> nat option \<Rightarrow>
   ('e, transport_response) mt_act" where
  "mt_network cfg ops request request_id stale lookup =
     mt_loop cfg ops request (case stale of None \<Rightarrow> request | Some s \<Rightarrow> mt_conditional_request request s)
       request_id stale lookup [0..<mt_retries cfg + 1]"

definition mt_request ::
  "mt_config \<Rightarrow> 'e mt_ops \<Rightarrow> string \<Rightarrow> transport_request \<Rightarrow> ('e, transport_response) mt_act" where
  "mt_request cfg ops fresh_id request =
     (let request_id = (case req_trace_request_id request of Some i \<Rightarrow> Some i
            | None \<Rightarrow> if mt_telemetry cfg then Some fresh_id else None) in
      thenA (mt_emit cfg EvAccepted)
      (thenA (mt_check_robots cfg ops request)
      (case (mo_cache ops, req_cache request = CacheDefault) of
         (Some cache, True) \<Rightarrow>
           bindA (mt_cache_read cfg cache request) (\<lambda>(fresh, stale, lookup).
             case fresh of
               Some cached \<Rightarrow>
                 bindA (mt_enforce_cached_body cfg cached ''response_body_too_large'') (\<lambda>body.
                   thenA (mt_emit cfg EvCacheHit) (ret (body\<lparr>resp_from_cache := True\<rparr>)))
             | None \<Rightarrow>
                 thenA (mt_emit cfg EvCacheMiss)
                 (case stale of
                    None \<Rightarrow> mt_network cfg ops request request_id None lookup
                  | Some s \<Rightarrow>
                      bindA (mt_enforce_cached_body cfg s ''stale_response_body_too_large'') (\<lambda>s'.
                        mt_network cfg ops request request_id (Some s') lookup)))
       | _ \<Rightarrow> mt_network cfg ops request request_id None None)))"

subsection \<open>A concrete stack\<close>

text \<open>
  One retry; a limiter that always grants; robots that denies \<^verbatim>\<open>/private\<close>; a cache that knows one
  URL; a backend whose first dispatch fails.  The environment counts dispatches.
\<close>

definition sample_accounting :: transport_accounting where
  "sample_accounting = \<lparr>physical_requests = 1, transmitted_bytes = 10, received_bytes = 2\<rparr>"

definition sample_response :: transport_response where
  "sample_response = \<lparr>resp_status = 200, resp_headers = [], resp_content = ''ok'', resp_final_url = ''http://a/b'',
     resp_route = route_default, resp_from_cache = False, resp_elapsed_seconds = 0,
     resp_accounting = Some sample_accounting\<rparr>"

definition sample_config :: mt_config where
  "sample_config = \<lparr>mt_stale_on_error = False, mt_retries = 1, mt_backoff = default_backoff, mt_telemetry = False,
     mt_source_id = None, mt_maximum_response_bytes = 100\<rparr>"

definition sample_cache :: "nat cache_ops" where
  "sample_cache = \<lparr>co_get = (\<lambda>r. ret None), co_put = (\<lambda>r resp. ret ()),
     co_lookup = Some (\<lambda>r. ret (if req_url r = ''http://a/cached'' then Some sample_response else None, None, 0)),
     co_lookup_put = (\<lambda>h resp. ret ())\<rparr>"

definition sample_ops :: "nat mt_ops" where
  "sample_ops = \<lparr>mo_robots = None, mo_cache = Some sample_cache, mo_budget = None,
     mo_limiter = Some \<lparr>li_wait = (\<lambda>r. ret ()), li_release = (\<lambda>r. ret ())\<rparr>,
     mo_backend = (\<lambda>r n. (if n = 0 then Inl (TransportFailure (Some sample_accounting)) else Inr sample_response, Suc n)),
     mo_rotate = (\<lambda>reason. ret ()), mo_rotate_for_request = None, mo_sleep = (\<lambda>d. ret ())\<rparr>"

lemmas mt_eval = mt_request_def mt_check_robots_def mt_cache_read_def mt_enforce_cached_body_def mt_network_def
  mt_iteration_def mt_attempt_request_def mt_authorize_def mt_attempt_def mt_try_def mt_wait_permit_def mt_announce_def
  mt_receive_def mt_handle_def mt_failed_def mt_cleanup_def mt_return_permit_def mt_settle_def mt_guarded_def
  mt_after_failure_def mt_after_response_def mt_finish_def mt_revalidate_def mt_retry_status_def mt_cache_put_def
  mt_rotate_identity_def mt_can_use_stale_def mt_stale_fallback_def mt_emit_def mt_observe_def mt_emit_completed_def
  mt_emit_attempt_failure_def accounting_or_estimate_def enforce_response_body_limit_def transient_status_def locals0_def
  act_defs call_def record_call_def Let_def

lemma sample_run:
  "\<exists>w. mt_request sample_config sample_ops ''id'' (sample_get ''http://a/b'') \<lparr>w_env = 0, w_log = []\<rparr> = (Inr sample_response, w)
     \<and> w_env w = 2"
  by (simp add: mt_eval sample_config_def sample_ops_def sample_cache_def sample_get_def sample_response_def
      default_backoff_def)

end
