(* ===== verification/Middleware_Protocol.thy ===== *)
theory Middleware_Protocol
  imports Middleware
begin

section \<open>The protocol of a request\<close>

text \<open>
  What the middleware promises to its collaborators, as an automaton over the history: an attempt is
  authorized, waits for its permit, is sent at most once, gives the permit back and settles its
  authorization, as spent if it was sent and as unused otherwise.  Identity rotation, backoff and
  cache traffic happen only between attempts, when nothing is held.
\<close>

subsection \<open>The automaton\<close>

record pstate =
  ps_auth :: "nat option"
  ps_permit :: bool
  ps_sent :: bool

definition ps_idle :: "pstate \<Rightarrow> bool" where
  "ps_idle st \<longleftrightarrow> ps_auth st = None \<and> \<not> ps_permit st"

fun proto_step :: "bool \<Rightarrow> bool \<Rightarrow> pstate \<Rightarrow> mt_call \<Rightarrow> pstate option" where
  "proto_step budget limiter st (MAuthorize _ res) =
     (if ps_idle st then Some (case res of Inr (Some i) \<Rightarrow> \<lparr>ps_auth = Some i, ps_permit = False, ps_sent = False\<rparr> | _ \<Rightarrow> st)
      else None)"
| "proto_step budget limiter st (MWait _ res) =
     (if \<not> ps_permit st \<and> \<not> ps_sent st then Some (case res of Inr _ \<Rightarrow> st\<lparr>ps_permit := True\<rparr> | Inl _ \<Rightarrow> st) else None)"
| "proto_step budget limiter st (MDispatch _ _) =
     (if (budget \<longrightarrow> ps_auth st \<noteq> None) \<and> (limiter \<longrightarrow> ps_permit st) \<and> \<not> ps_sent st
      then Some (st\<lparr>ps_sent := True\<rparr>) else None)"
| "proto_step budget limiter st (MReleasePermit _ _) =
     (if ps_permit st then Some (st\<lparr>ps_permit := False\<rparr>) else None)"
| "proto_step budget limiter st (MReconcile i _ _) =
     (if ps_auth st = Some i \<and> ps_sent st \<and> \<not> ps_permit st then Some (st\<lparr>ps_auth := None\<rparr>) else None)"
| "proto_step budget limiter st (MReleaseAuth i _) =
     (if ps_auth st = Some i \<and> \<not> ps_sent st \<and> \<not> ps_permit st then Some (st\<lparr>ps_auth := None\<rparr>) else None)"
| "proto_step budget limiter st (MSleep _ _) = (if ps_idle st then Some (st\<lparr>ps_sent := False\<rparr>) else None)"
| "proto_step budget limiter st (MEmit _) = Some st"
| "proto_step budget limiter st (MObserve _) = Some st"
| "proto_step budget limiter st _ = (if ps_idle st then Some st else None)"

definition ps_init :: pstate where
  "ps_init = \<lparr>ps_auth = None, ps_permit = False, ps_sent = False\<rparr>"

fun proto :: "bool \<Rightarrow> bool \<Rightarrow> mt_call list \<Rightarrow> pstate option" where
  "proto budget limiter [] = Some ps_init"
| "proto budget limiter (c # history) =
     (case proto budget limiter history of None \<Rightarrow> None | Some st \<Rightarrow> proto_step budget limiter st c)"

text \<open>The one way to leave an authorization unsettled: the return of the permit is cancelled.\<close>

definition cancelled_release :: "mt_call list \<Rightarrow> bool" where
  "cancelled_release history \<longleftrightarrow> (\<exists>r a. MReleasePermit r (Inl (CancelledError a)) \<in> set history)"

abbreviation follows :: "'e mt_ops \<Rightarrow> pstate \<Rightarrow> (mt_call, 'e) world \<Rightarrow> bool" where
  "follows ops st w \<equiv> proto (mo_budget ops \<noteq> None) (mo_limiter ops \<noteq> None) (w_log w) = Some st"

definition settled :: "'e mt_ops \<Rightarrow> (mt_call, 'e) world \<Rightarrow> bool" where
  "settled ops w \<longleftrightarrow> (\<exists>st. follows ops st w \<and> (ps_idle st \<or> cancelled_release (w_log w)))"

lemma settled_idle: "follows ops st w \<Longrightarrow> ps_idle st \<Longrightarrow> settled ops w"
  by (auto simp: settled_def)

subsection \<open>Each step follows the protocol\<close>

lemma spec_const: "spec P m (\<lambda>_. P) (\<lambda>_. P) \<Longrightarrow> (\<And>s. P s \<Longrightarrow> Q s) \<Longrightarrow> spec P m (\<lambda>_. P) (\<lambda>_. Q)"
  by (erule spec_weaken) auto

lemma mt_emit_proto: "spec (follows ops st) (mt_emit cfg ev) (\<lambda>_. follows ops st) E"
  by (auto simp: mt_emit_def intro!: spec_whenA spec_record_call)

lemma mt_observe_proto:
  "(\<And>w. follows ops st w \<Longrightarrow> E w) \<Longrightarrow>
   spec (follows ops st) (mt_observe cfg ph r n acc resp cl) (\<lambda>_. follows ops st) (\<lambda>_. E)"
  unfolding mt_observe_def
  by (rule spec_whenA, rule spec_bindA, rule spec_liftA, assumption, simp, rule spec_record_call) auto

lemma mt_emit_attempt_failure_proto:
  "(\<And>w. follows ops st w \<Longrightarrow> E w) \<Longrightarrow>
   spec (follows ops st) (mt_emit_attempt_failure cfg r acc n stage re ca) (\<lambda>_. follows ops st) (\<lambda>_. E)"
  unfolding mt_emit_attempt_failure_def
  by (rule spec_thenA, rule mt_emit_proto, rule mt_observe_proto)

lemma mt_emit_completed_proto:
  "(\<And>w. follows ops st w \<Longrightarrow> E w) \<Longrightarrow>
   spec (follows ops st) (mt_emit_completed cfg r resp acc n) (\<lambda>_. follows ops st) (\<lambda>_. E)"
  unfolding mt_emit_completed_def
  by (rule spec_thenA, rule mt_emit_proto, rule mt_observe_proto)

lemma mt_wait_permit_proto:
  "spec (follows ops \<lparr>ps_auth = a, ps_permit = False, ps_sent = False\<rparr>) (mt_wait_permit cfg ops r)
     (\<lambda>acq w. acq = (mo_limiter ops \<noteq> None) \<and> follows ops \<lparr>ps_auth = a, ps_permit = acq, ps_sent = False\<rparr> w)
     (\<lambda>_. follows ops \<lparr>ps_auth = a, ps_permit = False, ps_sent = False\<rparr>)"
proof (cases "mo_limiter ops")
  case (Some limiter)
  show ?thesis
    unfolding mt_wait_permit_def Some option.case
    by (rule spec_thenA [where R = "follows ops \<lparr>ps_auth = a, ps_permit = True, ps_sent = False\<rparr>"],
        rule spec_call) (use Some in \<open>auto intro!: spec_ret\<close>)
qed (auto simp: mt_wait_permit_def intro!: spec_ret)

lemma mt_announce_proto:
  "spec (follows ops st) (mt_announce cfg ops r n) (\<lambda>_. follows ops st) (\<lambda>_. follows ops st)"
  unfolding mt_announce_def
  by (rule spec_thenA [OF spec_whenA [OF mt_emit_proto]], assumption,
      rule spec_thenA, rule mt_emit_proto, rule mt_observe_proto)

text \<open>After the try block the automaton agrees with the local variables.\<close>

definition try_post :: "'e mt_ops \<Rightarrow> nat option \<Rightarrow> attempt_locals \<Rightarrow> (mt_call, 'e) world \<Rightarrow> bool" where
  "try_post ops a l w \<longleftrightarrow>
     follows ops \<lparr>ps_auth = a, ps_permit = al_acquired l, ps_sent = al_dispatched l\<rparr> w
     \<and> (al_acquired l \<longrightarrow> mo_limiter ops \<noteq> None)"

lemma mt_receive_flags [simp]:
  "al_acquired (snd (mt_receive cfg r resp l)) = al_acquired l"
  "al_dispatched (snd (mt_receive cfg r resp l)) = al_dispatched l"
  by (auto simp: mt_receive_def Let_def split: sum.split)

lemma mt_dispatch_proto:
  assumes "mo_budget ops \<noteq> None \<longrightarrow> a \<noteq> None" "acq = (mo_limiter ops \<noteq> None)"
  shows "spec (follows ops \<lparr>ps_auth = a, ps_permit = acq, ps_sent = False\<rparr>)
     (call (MDispatch r) (mo_backend ops r))
     (\<lambda>_. follows ops \<lparr>ps_auth = a, ps_permit = acq, ps_sent = True\<rparr>)
     (\<lambda>_. follows ops \<lparr>ps_auth = a, ps_permit = acq, ps_sent = True\<rparr>)"
  by (rule spec_call) (use assms in auto)

lemma mt_try_sent:
  assumes "mo_budget ops \<noteq> None \<longrightarrow> a \<noteq> None" "acq = (mo_limiter ops \<noteq> None)"
  shows "spec (follows ops \<lparr>ps_auth = a, ps_permit = acq, ps_sent = False\<rparr>)
    (bindA (tryA (call (MDispatch r) (mo_backend ops r))) (\<lambda>res. case res of
        Inl e \<Rightarrow> ret (Inl e, locals0\<lparr>al_acquired := acq, al_dispatched := True\<rparr>)
      | Inr response \<Rightarrow> ret (mt_receive cfg r response (locals0\<lparr>al_acquired := acq, al_dispatched := True\<rparr>))))
    (\<lambda>(res, l). try_post ops a l) (\<lambda>_ _. False)"
proof (rule spec_bindA [OF spec_tryA [OF mt_dispatch_proto [OF assms]]], goal_cases)
  case (1 res)
  with assms(2) show ?case
    by (cases res) (auto simp: try_post_def locals0_def case_prod_unfold intro!: spec_ret)
qed

lemma mt_try_proto:
  assumes "mo_budget ops \<noteq> None \<longrightarrow> a \<noteq> None"
  shows "spec (follows ops \<lparr>ps_auth = a, ps_permit = False, ps_sent = False\<rparr>) (mt_try cfg ops r n)
     (\<lambda>(res, l). try_post ops a l) (\<lambda>_ _. False)"
  unfolding mt_try_def
proof (rule spec_bindA [OF spec_tryA [OF mt_wait_permit_proto]], goal_cases)
  case (1 res)
  show ?case
  proof (cases res)
    case (Inl e)
    then show ?thesis by (auto simp: try_post_def locals0_def intro!: spec_ret)
  next
    case (Inr acq)
    show ?thesis
    proof (cases "acq = (mo_limiter ops \<noteq> None)")
      case True
      have pre: "spec (follows ops \<lparr>ps_auth = a, ps_permit = acq, ps_sent = False\<rparr>)
        (bindA (tryA (mt_announce cfg ops r n)) (\<lambda>r'. case r' of Inl e \<Rightarrow> ret (Inl e, locals0\<lparr>al_acquired := acq\<rparr>)
           | Inr _ \<Rightarrow> bindA (tryA (call (MDispatch r) (mo_backend ops r))) (\<lambda>res. case res of
               Inl e \<Rightarrow> ret (Inl e, locals0\<lparr>al_acquired := acq, al_dispatched := True\<rparr>)
             | Inr response \<Rightarrow> ret (mt_receive cfg r response (locals0\<lparr>al_acquired := acq, al_dispatched := True\<rparr>)))))
        (\<lambda>(res, l). try_post ops a l) (\<lambda>_ _. False)"
      proof (rule spec_bindA [OF spec_tryA [OF mt_announce_proto]], goal_cases)
        case (1 res2)
        with mt_try_sent [OF assms True] True show ?case
          by (cases res2) (auto simp: try_post_def locals0_def intro!: spec_ret)
      qed
      show ?thesis
        unfolding Inr sum.case Let_def
        by (rule spec_weaken [OF pre]) auto
    next
      case False
      then show ?thesis by (intro spec_absurd) (auto simp: Inr)
    qed
  qed
qed

lemma mt_failed_proto:
  "spec (try_post ops a l) (mt_failed cfg r n e rec stage re ca out l')
     (\<lambda>(res, l'') w. try_post ops a l w \<and> al_acquired l'' = al_acquired l' \<and> al_dispatched l'' = al_dispatched l')
     (\<lambda>_ _. False)"
proof (cases "accounting_or_estimate (exn_accounting e) r rec")
  case (Inl e')
  then show ?thesis by (auto simp: mt_failed_def intro!: spec_ret)
next
  case (Inr acc)
  let ?st = "\<lparr>ps_auth = a, ps_permit = al_acquired l, ps_sent = al_dispatched l\<rparr>"
  have "spec (try_post ops a l) (tryA (mt_emit_attempt_failure cfg r acc n stage re ca)) (\<lambda>_. try_post ops a l) (\<lambda>_ _. False)"
    if "al_acquired l \<longrightarrow> mo_limiter ops \<noteq> None"
    by (rule spec_weaken [OF spec_tryA [OF mt_emit_attempt_failure_proto [where ops = ops and st = ?st and E = "follows ops ?st"]]])
      (use that in \<open>auto simp: try_post_def split: sum.splits\<close>)
  moreover have "spec (try_post ops a l) m Q E" if "\<not> (al_acquired l \<longrightarrow> mo_limiter ops \<noteq> None)" for m Q E
    using that by (simp add: spec_def try_post_def)
  ultimately have *: "spec (try_post ops a l) (tryA (mt_emit_attempt_failure cfg r acc n stage re ca))
      (\<lambda>_. try_post ops a l) (\<lambda>_ _. False)" by blast
  show ?thesis
    unfolding mt_failed_def Inr sum.case
    by (rule spec_bindA [OF *]) (auto intro!: spec_ret)
qed

lemma mt_handle_proto:
  "spec (try_post ops a l) (mt_handle cfg r n (res, l)) (\<lambda>(out, l'). try_post ops a l') (\<lambda>_ _. False)"
proof -
  have failed: "spec (try_post ops a l) (mt_failed cfg r n e rec stage re ca out l') (\<lambda>(out, l'). try_post ops a l') (\<lambda>_ _. False)"
    if "al_acquired l' = al_acquired l" "al_dispatched l' = al_dispatched l" for e rec stage re ca out l'
    by (rule spec_weaken [OF mt_failed_proto [of ops a l]]) (use that in \<open>auto simp: try_post_def\<close>)
  show ?thesis
  proof (cases res)
    case (Inl e)
    show ?thesis
    proof (cases "al_dispatched l")
      case True
      with Inl show ?thesis by (cases e) (auto simp: mt_handle_def intro!: failed)
    qed (auto simp: mt_handle_def Inl intro!: spec_ret)
  qed (auto simp: mt_handle_def intro!: spec_ret)
qed

subsection \<open>Clean-up\<close>

lemma mt_guarded_proto:
  assumes "spec P m (\<lambda>_. Q) (\<lambda>e w. Q w \<and> (\<not> is_exception e \<longrightarrow> E w))"
  shows "spec P (mt_guarded stage m previous) (\<lambda>_. Q) (\<lambda>_. E)"
  unfolding mt_guarded_def
proof (rule spec_bindA [OF spec_tryA [OF assms]], goal_cases)
  case (1 r)
  show ?case
    by (cases r) (auto intro!: spec_ret spec_raise split: if_splits)
qed

lemma mt_return_permit_proto:
  "spec (try_post ops a l) (mt_return_permit ops r l)
     (\<lambda>_. follows ops \<lparr>ps_auth = a, ps_permit = False, ps_sent = al_dispatched l\<rparr>) (\<lambda>_. settled ops)"
proof (cases "mo_limiter ops")
  case None
  then show ?thesis
    by (auto simp: mt_return_permit_def try_post_def intro!: spec_ret)
next
  case (Some limiter)
  show ?thesis
  proof (cases "al_acquired l")
    case True
    show ?thesis
      unfolding mt_return_permit_def Some option.case if_P [OF True]
      by (rule mt_guarded_proto, rule spec_call)
        (use True Some in \<open>auto simp: try_post_def settled_def cancelled_release_def elim!: is_exception.elims\<close>)
  next
    case False
    with Some show ?thesis by (auto simp: mt_return_permit_def try_post_def intro!: spec_ret)
  qed
qed

lemma mt_settle_proto:
  assumes "a \<noteq> None \<longrightarrow> mo_budget ops \<noteq> None"
  shows "spec (follows ops \<lparr>ps_auth = a, ps_permit = False, ps_sent = al_dispatched l\<rparr>) (mt_settle ops a l previous)
     (\<lambda>_. follows ops \<lparr>ps_auth = None, ps_permit = False, ps_sent = al_dispatched l\<rparr>) (\<lambda>_. settled ops)"
proof (cases a)
  case None
  then show ?thesis by (auto simp: mt_settle_def intro!: spec_ret split: option.splits)
next
  case (Some i)
  with assms obtain budget where b: "mo_budget ops = Some budget" by auto
  show ?thesis
    unfolding mt_settle_def Some b prod.case option.case
    by (cases "al_dispatched l"; simp only: if_True if_False; rule mt_guarded_proto; rule spec_call)
      (use b in \<open>auto simp: settled_def ps_idle_def\<close>)
qed

lemma mt_cleanup_proto:
  assumes "a \<noteq> None \<longrightarrow> mo_budget ops \<noteq> None"
  shows "spec (try_post ops a l) (mt_cleanup cfg ops r n a l)
     (\<lambda>_. follows ops \<lparr>ps_auth = None, ps_permit = False, ps_sent = al_dispatched l\<rparr>) (\<lambda>_. settled ops)"
  unfolding mt_cleanup_def
proof (rule spec_bindA [OF mt_return_permit_proto], rule spec_bindA [OF mt_settle_proto [OF assms]], goal_cases)
  case (1 x failure)
  let ?st = "\<lparr>ps_auth = None, ps_permit = False, ps_sent = al_dispatched l\<rparr>"
  have idle: "follows ops ?st w \<Longrightarrow> settled ops w" for w by (rule settled_idle) (auto simp: ps_idle_def)
  show ?case
  proof (cases failure)
    case (Some f)
    show ?thesis
      unfolding Some option.case case_prod_unfold
      by (rule spec_thenA [OF spec_whenA [OF mt_emit_attempt_failure_proto]])
        (auto intro!: spec_raise idle)
  qed (auto intro!: spec_ret)
qed

lemma mt_attempt_proto:
  assumes "a \<noteq> None \<longleftrightarrow> mo_budget ops \<noteq> None"
  shows "spec (follows ops \<lparr>ps_auth = a, ps_permit = False, ps_sent = False\<rparr>) (mt_attempt cfg ops r n a)
     (\<lambda>(res, l). follows ops \<lparr>ps_auth = None, ps_permit = False, ps_sent = al_dispatched l\<rparr>) (\<lambda>_. settled ops)"
proof -
  have attempted: "spec (follows ops \<lparr>ps_auth = a, ps_permit = False, ps_sent = False\<rparr>) (mt_try cfg ops r n)
     (\<lambda>x. try_post ops a (snd x)) (\<lambda>_. settled ops)"
    by (rule spec_weaken [OF mt_try_proto]) (use assms in auto)
  have handle: "spec (try_post ops a (snd x)) (mt_handle cfg r n x) (\<lambda>y. try_post ops a (snd y)) (\<lambda>_. settled ops)" for x
    by (rule spec_weaken [OF mt_handle_proto [of ops a "snd x" cfg r n "fst x", simplified]]) auto
  have cleanup: "spec (try_post ops a l) (mt_cleanup cfg ops r n a l)
     (\<lambda>_. follows ops \<lparr>ps_auth = None, ps_permit = False, ps_sent = al_dispatched l\<rparr>) (\<lambda>_. settled ops)" for l
    by (rule mt_cleanup_proto) (use assms in auto)
  show ?thesis
    unfolding mt_attempt_def
  proof (rule spec_bindA [OF attempted], rule spec_bindA [OF handle], goal_cases)
    case (1 x y)
    obtain res l where y: "y = (res, l)" by fastforce
    have idle: "follows ops \<lparr>ps_auth = None, ps_permit = False, ps_sent = al_dispatched l\<rparr> w \<Longrightarrow> settled ops w" for w
      by (rule settled_idle) (auto simp: ps_idle_def)
    show ?case
      unfolding y prod.case snd_conv
      by (rule spec_thenA [OF cleanup], cases res) (auto intro!: spec_ret spec_raise idle)
  qed
qed

subsection \<open>Between attempts\<close>

definition between :: "'e mt_ops \<Rightarrow> (mt_call, 'e) world \<Rightarrow> bool" where
  "between ops w \<longleftrightarrow> (\<exists>sent. follows ops \<lparr>ps_auth = None, ps_permit = False, ps_sent = sent\<rparr> w)"

lemma between_settled: "between ops w \<Longrightarrow> settled ops w"
  by (auto simp: settled_def ps_idle_def between_def)

lemma spec_between:
  assumes "\<And>st. ps_idle st \<Longrightarrow> spec (follows ops st) m (\<lambda>_. follows ops st) (\<lambda>_. follows ops st)"
  shows "spec (between ops) m (\<lambda>_. between ops) (\<lambda>_. settled ops)"
  unfolding spec_def
proof (intro allI impI)
  fix w assume "between ops w"
  then obtain s where s: "follows ops \<lparr>ps_auth = None, ps_permit = False, ps_sent = s\<rparr> w"
    by (auto simp: between_def)
  have "spec (follows ops \<lparr>ps_auth = None, ps_permit = False, ps_sent = s\<rparr>) m
     (\<lambda>_. follows ops \<lparr>ps_auth = None, ps_permit = False, ps_sent = s\<rparr>)
     (\<lambda>_. follows ops \<lparr>ps_auth = None, ps_permit = False, ps_sent = s\<rparr>)"
    by (rule assms) (simp add: ps_idle_def)
  from spec_run [OF this s] show "case m w of (Inl e, w') \<Rightarrow> settled ops w' | (Inr x, w') \<Rightarrow> between ops w'"
    by (cases "m w") (auto split: sum.splits intro: settled_idle simp: ps_idle_def between_def)
qed

lemma mt_emit_between: "spec (between ops) (mt_emit cfg ev) (\<lambda>_. between ops) (\<lambda>_. settled ops)"
  by (rule spec_between) (rule mt_emit_proto)

lemma mt_observe_between:
  "spec (between ops) (mt_observe cfg ph r n acc resp cl) (\<lambda>_. between ops) (\<lambda>_. settled ops)"
  by (rule spec_between) (rule mt_observe_proto)

lemma mt_emit_completed_between:
  "spec (between ops) (mt_emit_completed cfg r resp acc n) (\<lambda>_. between ops) (\<lambda>_. settled ops)"
  by (rule spec_between) (rule mt_emit_completed_proto)

lemma idle_call_between:
  assumes "\<And>st res. ps_idle st \<Longrightarrow> proto_step (mo_budget ops \<noteq> None) (mo_limiter ops \<noteq> None) st (entry res) = Some st"
  shows "spec (between ops) (call entry op) (\<lambda>_. between ops) (\<lambda>_. settled ops)"
  by (rule spec_between, rule spec_call) (use assms in auto)

lemma mt_rotate_identity_between:
  "spec (between ops) (mt_rotate_identity ops reason r) (\<lambda>_. between ops) (\<lambda>_. settled ops)"
  unfolding mt_rotate_identity_def
  by (cases "mo_rotate_for_request ops") (auto intro!: idle_call_between)

lemma mt_emit_attempt_failure_between:
  "spec (between ops) (mt_emit_attempt_failure cfg r acc n stage re ca) (\<lambda>_. between ops) (\<lambda>_. between ops)"
  unfolding spec_def mt_emit_attempt_failure_def mt_emit_def mt_observe_def act_defs record_call_def
  by (auto simp: between_def split: prod.splits sum.splits if_splits)

lemma mt_cache_put_between:
  "spec (between ops) (mt_cache_put cfg cache r resp lookup acc n) (\<lambda>_. between ops) (\<lambda>_. settled ops)"
  unfolding mt_cache_put_def
proof (rule spec_catchA [where F = "\<lambda>_. between ops"], goal_cases)
  case 1
  show ?case
    by (cases lookup; simp; rule spec_call) (auto simp: ps_idle_def between_def)
next
  case (2 e)
  have "spec (between ops) (mt_emit_attempt_failure cfg r acc n ''cache_write'' (Some False) False)
      (\<lambda>_. between ops) (\<lambda>_. settled ops)"
    by (rule spec_weaken [OF mt_emit_attempt_failure_between]) (auto intro: between_settled)
  then show ?case by (rule spec_thenA) (auto intro!: spec_raise between_settled)
qed

lemma mt_stale_fallback_between:
  "spec (between ops) (mt_stale_fallback cfg stale reason status) (\<lambda>_. between ops) (\<lambda>_. settled ops)"
  unfolding mt_stale_fallback_def
  by (cases stale) (auto intro!: spec_raise between_settled spec_thenA [OF mt_emit_between] spec_ret)

text \<open>After the backoff sleep the next attempt may start.\<close>

definition ready :: "'e mt_ops \<Rightarrow> (mt_call, 'e) world \<Rightarrow> bool" where
  "ready ops w \<longleftrightarrow> follows ops ps_init w"

definition next_post :: "'e mt_ops \<Rightarrow> mt_next \<Rightarrow> (mt_call, 'e) world \<Rightarrow> bool" where
  "next_post ops x w = (case x of MContinue \<Rightarrow> ready ops w | MReturn _ \<Rightarrow> between ops w)"

lemma mt_sleep_ready:
  "spec (between ops) (thenA (call (MSleep d) (mo_sleep ops d)) (ret MContinue)) (next_post ops) (\<lambda>_. settled ops)"
  by (rule spec_thenA [where R = "ready ops"], rule spec_call)
    (auto simp: next_post_def ps_init_def ps_idle_def settled_def between_def ready_def intro!: spec_ret)

lemma mt_fallback_return:
  "spec (between ops) (bindA (mt_stale_fallback cfg stale reason status) (\<lambda>r. ret (MReturn r))) (next_post ops) (\<lambda>_. settled ops)"
  by (rule spec_bindA [OF mt_stale_fallback_between]) (auto simp: next_post_def intro!: spec_ret)

lemma mt_after_failure_between:
  "spec (between ops) (mt_after_failure cfg ops r ar stale n e) (next_post ops) (\<lambda>_. settled ops)"
  unfolding mt_after_failure_def
  by (cases "n = mt_retries cfg"; cases "mt_can_use_stale cfg r stale None")
    (simp_all add: mt_fallback_return whenA_def,
     auto intro!: spec_raise spec_ret between_settled spec_thenA [OF mt_emit_between]
      spec_thenA [OF mt_observe_between] spec_thenA [OF mt_rotate_identity_between] mt_sleep_ready
      spec_thenA [where R = "between ops" and m = "ret ()"])

lemma mt_retry_status_between:
  "spec (between ops) (mt_retry_status cfg ops r ar stale n l resp) (next_post ops) (\<lambda>_. settled ops)"
  unfolding mt_retry_status_def
  by (rule spec_thenA [OF mt_emit_between], rule spec_thenA [OF mt_observe_between],
      rule spec_thenA [OF spec_whenA [OF mt_rotate_identity_between]], assumption, rule mt_sleep_ready)

lemma mt_finish_between:
  "spec (between ops) (mt_finish cfg ops cr r ar stale lookup n l resp) (next_post ops) (\<lambda>_. settled ops)"
proof -
  have put: "spec (between ops) (case mo_cache ops of
         Some cache \<Rightarrow> whenA (resp_status resp < 400)
           (thenA (mt_cache_put cfg cache cr resp lookup (al_accounting l) (n + 1))
             (mt_emit cfg (EvCacheWrite (resp_status resp)))) | None \<Rightarrow> ret ()) (\<lambda>_. between ops) (\<lambda>_. settled ops)"
    by (cases "mo_cache ops")
      (auto intro!: spec_ret spec_whenA spec_thenA [OF mt_cache_put_between] mt_emit_between)
  show ?thesis
    unfolding mt_finish_def
    by (rule spec_thenA [OF put], rule spec_thenA [OF mt_emit_completed_between])
      (auto simp: mt_fallback_return, auto simp: next_post_def intro!: spec_ret)
qed

lemma mt_revalidate_between:
  "spec (between ops) (mt_revalidate cfg ops cr ar stale lookup n l resp) (next_post ops) (\<lambda>_. settled ops)"
proof -
  have put: "spec (between ops) (case mo_cache ops of
         Some cache \<Rightarrow> mt_cache_put cfg cache cr resp' lookup (al_accounting l) (n + 1) | None \<Rightarrow> ret ())
       (\<lambda>_. between ops) (\<lambda>_. settled ops)" for resp'
    by (cases "mo_cache ops") (auto intro!: spec_ret mt_cache_put_between)
  show ?thesis
    unfolding mt_revalidate_def Let_def
    by (rule spec_thenA [OF put], rule spec_thenA [OF mt_emit_between],
        rule spec_thenA [OF mt_emit_completed_between]) (auto simp: next_post_def intro!: spec_ret)
qed

lemma mt_after_response_between:
  "spec (between ops) (mt_after_response cfg ops cr r ar stale lookup n l resp) (next_post ops) (\<lambda>_. settled ops)"
  unfolding mt_after_response_def
  by (auto simp: mt_revalidate_between mt_finish_between mt_retry_status_between split: option.split bool.split)

subsection \<open>The loop and the request\<close>

lemma mt_authorize_proto:
  "spec (ready ops) (mt_authorize cfg ops r n)
     (\<lambda>a w. (a \<noteq> None \<longleftrightarrow> mo_budget ops \<noteq> None) \<and> follows ops \<lparr>ps_auth = a, ps_permit = False, ps_sent = False\<rparr> w)
     (\<lambda>_. settled ops)"
proof (cases "mo_budget ops")
  case None
  then show ?thesis by (auto simp: mt_authorize_def ready_def ps_init_def intro!: spec_ret)
next
  case (Some budget)
  have "spec (ready ops) (call (MAuthorize r) (bo_authorize budget r))
     (\<lambda>a w. case a of None \<Rightarrow> between ops w
        | Some i \<Rightarrow> follows ops \<lparr>ps_auth = a, ps_permit = False, ps_sent = False\<rparr> w) (\<lambda>_. settled ops)"
    by (rule spec_call) (auto simp: ready_def ps_init_def ps_idle_def between_def settled_def split: option.splits)
  then show ?thesis
    unfolding mt_authorize_def Some option.case
  proof (rule spec_bindA, goal_cases)
    case (1 a)
    show ?case
      by (cases a) (auto simp: Some intro!: spec_ret spec_thenA [OF mt_emit_between] spec_raise between_settled)
  qed
qed

lemma mt_iteration_proto:
  "spec (ready ops) (mt_iteration cfg ops cr r rid stale lookup n) (next_post ops) (\<lambda>_. settled ops)"
  unfolding mt_iteration_def Let_def
proof (rule spec_bindA [OF mt_authorize_proto], goal_cases)
  case (1 a)
  let ?ar = "mt_attempt_request rid n r"
  show ?case
  proof (cases "a \<noteq> None \<longleftrightarrow> mo_budget ops \<noteq> None")
    case True
    have pre: "spec (\<lambda>w. (a \<noteq> None \<longleftrightarrow> mo_budget ops \<noteq> None)
           \<and> follows ops \<lparr>ps_auth = a, ps_permit = False, ps_sent = False\<rparr> w)
        (mt_attempt cfg ops ?ar (n + 1) a) (\<lambda>_. between ops) (\<lambda>_. settled ops)"
      by (rule spec_weaken [OF mt_attempt_proto [OF True]]) (auto simp: between_def)
    show ?thesis
    proof (rule spec_bindA [OF pre], goal_cases)
      case (1 x)
      then show ?case
        by (cases x; cases "fst x")
          (auto intro!: mt_after_failure_between mt_after_response_between spec_raise between_settled)
    qed
  next
    case False
    then show ?thesis by (intro spec_absurd) blast
  qed
qed

lemma mt_loop_proto:
  "spec (ready ops) (mt_loop cfg ops cr r rid stale lookup ns) (\<lambda>_. between ops) (\<lambda>_. settled ops)"
proof (induction ns)
  case Nil
  show ?case
    by (auto simp: ready_def settled_def ps_idle_def ps_init_def intro!: spec_raise)
next
  case (Cons n ns)
  show ?case
    unfolding mt_loop.simps
  proof (rule spec_bindA [OF mt_iteration_proto], goal_cases)
    case (1 x)
    show ?case
    proof (cases x)
      case MContinue
      then show ?thesis by (auto simp: next_post_def intro: spec_weaken [OF Cons])
    qed (auto simp: next_post_def intro!: spec_ret)
  qed
qed

lemma ready_between: "ready ops w \<Longrightarrow> between ops w" "ready ops w \<Longrightarrow> settled ops w"
  by (auto simp: ready_def between_def ps_init_def settled_def ps_idle_def)

lemma mt_emit_ready: "spec (ready ops) (mt_emit cfg ev) (\<lambda>_. ready ops) (\<lambda>_. settled ops)"
  by (rule spec_weaken [OF mt_emit_proto [of ops ps_init]]) (auto simp: ready_def)

lemma idle_call_ready:
  assumes "\<And>st res. ps_idle st \<Longrightarrow> proto_step (mo_budget ops \<noteq> None) (mo_limiter ops \<noteq> None) st (entry res) = Some st"
  shows "spec (ready ops) (call entry op) (\<lambda>_. ready ops) (\<lambda>_. settled ops)"
proof -
  have "ps_idle ps_init" by (simp add: ps_idle_def ps_init_def)
  then show ?thesis
    by (intro spec_call) (use assms in \<open>auto simp: ready_def settled_def\<close>)
qed

lemma mt_check_robots_ready: "spec (ready ops) (mt_check_robots cfg ops r) (\<lambda>_. ready ops) (\<lambda>_. settled ops)"
proof (cases "mo_robots ops")
  case (Some allowed)
  show ?thesis
    unfolding mt_check_robots_def Some option.case
    by (auto intro!: spec_ret spec_bindA [OF idle_call_ready] spec_thenA [OF mt_emit_ready] spec_raise
        intro: ready_between)
qed (auto simp: mt_check_robots_def intro!: spec_ret)

lemma mt_enforce_cached_body_ready:
  "spec (ready ops) (mt_enforce_cached_body cfg resp reason) (\<lambda>_. ready ops) (\<lambda>_. settled ops)"
  unfolding mt_enforce_cached_body_def
  by (auto intro!: spec_ret spec_thenA [OF mt_emit_ready] spec_raise ready_between split: sum.split)

lemma mt_cache_read_ready:
  "spec (ready ops) (mt_cache_read cfg cache r) (\<lambda>_. ready ops) (\<lambda>_. settled ops)"
  unfolding mt_cache_read_def
  by (cases "co_lookup cache"; simp only: option.case; rule spec_bindA [OF idle_call_ready])
    (auto intro!: spec_ret)

lemma mt_network_proto:
  "spec (ready ops) (mt_network cfg ops r rid stale lookup) (\<lambda>_. between ops) (\<lambda>_. settled ops)"
  unfolding mt_network_def by (rule mt_loop_proto)

lemma mt_request_proto:
  "spec (ready ops) (mt_request cfg ops fresh r) (\<lambda>_. between ops) (\<lambda>_. settled ops)"
proof -
  have hit: "spec (ready ops) (bindA (mt_enforce_cached_body cfg c reason) (\<lambda>b.
      thenA (mt_emit cfg EvCacheHit) (ret (b\<lparr>resp_from_cache := True\<rparr>)))) (\<lambda>_. between ops) (\<lambda>_. settled ops)" for c reason
    by (rule spec_bindA [OF mt_enforce_cached_body_ready], rule spec_thenA [OF mt_emit_ready])
      (auto intro!: spec_ret ready_between)
  have miss: "spec (ready ops) (thenA (mt_emit cfg EvCacheMiss)
      (case stale of None \<Rightarrow> mt_network cfg ops r rid None lookup
       | Some s \<Rightarrow> bindA (mt_enforce_cached_body cfg s reason) (\<lambda>s'. mt_network cfg ops r rid (Some s') lookup)))
      (\<lambda>_. between ops) (\<lambda>_. settled ops)" for stale rid lookup reason
    by (rule spec_thenA [OF mt_emit_ready], cases stale)
      (auto intro!: mt_network_proto spec_bindA [OF mt_enforce_cached_body_ready])
  show ?thesis
    unfolding mt_request_def Let_def
  proof (rule spec_thenA [OF mt_emit_ready], rule spec_thenA [OF mt_check_robots_ready], goal_cases)
    case 1
    show ?case
    proof (cases "mo_cache ops")
      case (Some cache)
      have cached: "spec (ready ops) (bindA (mt_cache_read cfg cache r) (\<lambda>(fresh, stale, lookup).
             case fresh of
               Some cached \<Rightarrow>
                 bindA (mt_enforce_cached_body cfg cached ''response_body_too_large'') (\<lambda>body.
                   thenA (mt_emit cfg EvCacheHit) (ret (body\<lparr>resp_from_cache := True\<rparr>)))
             | None \<Rightarrow>
                 thenA (mt_emit cfg EvCacheMiss)
                 (case stale of
                    None \<Rightarrow> mt_network cfg ops r rid None lookup
                  | Some s \<Rightarrow>
                      bindA (mt_enforce_cached_body cfg s ''stale_response_body_too_large'') (\<lambda>s'.
                        mt_network cfg ops r rid (Some s') lookup))))
           (\<lambda>_. between ops) (\<lambda>_. settled ops)" for rid
      proof (rule spec_bindA [OF mt_cache_read_ready], goal_cases)
        case (1 x)
        obtain fresh stale lookup where x: "x = (fresh, stale, lookup)" by (cases x)
        show ?case unfolding x prod.case by (cases fresh) (simp_all only: option.case hit miss)
      qed
      show ?thesis
        using cached mt_network_proto unfolding Some by (cases "req_cache r = CacheDefault") auto
    qed (auto intro: mt_network_proto)
  qed
qed



end
