(* ===== verification/Middleware_Results.thy ===== *)
theory Middleware_Results
  imports Middleware
begin

section \<open>What a request returns\<close>

text \<open>
  The dispatches of a request and its result: how many attempts are made, which outcomes are
  retried, what is returned to the caller, and how large it can be.
\<close>

subsection \<open>Dispatches in a history\<close>

fun sends :: "mt_call list \<Rightarrow> (exn + transport_response) list" where
  "sends [] = []"
| "sends (MDispatch _ res # history) = res # sends history"
| "sends (_ # history) = sends history"

fun is_dispatch :: "mt_call \<Rightarrow> bool" where
  "is_dispatch (MDispatch _ _) = True"
| "is_dispatch _ = False"

lemma sends_other: "\<not> is_dispatch c \<Longrightarrow> sends (c # history) = sends history"
  by (cases c) auto

text \<open>An action that does not dispatch.\<close>

definition quiet :: "('e, 'a) mt_act \<Rightarrow> bool" where
  "quiet m \<longleftrightarrow> (\<forall>S. keeps (\<lambda>w. sends (w_log w) = S) m)"

lemma quietD: "quiet m \<Longrightarrow> m w = (r, w') \<Longrightarrow> sends (w_log w') = sends (w_log w)"
  by (metis (mono_tags, lifting) keepsD quiet_def)

lemma quiet_control:
  "quiet (ret x)" "quiet (raise e)" "quiet (liftA r)"
  "quiet m \<Longrightarrow> (\<And>x. quiet (f x)) \<Longrightarrow> quiet (bindA m f)"
  "quiet n \<Longrightarrow> quiet k \<Longrightarrow> quiet (thenA n k)"
  "quiet m \<Longrightarrow> quiet (tryA m)"
  "quiet m \<Longrightarrow> (\<And>e. quiet (h e)) \<Longrightarrow> quiet (catchA m h)"
  "quiet n \<Longrightarrow> quiet (whenA b n)"
  by (simp_all add: quiet_def keeps_intros)

lemmas quiet_ret = quiet_control(1)

lemma quiet_call: "(\<And>res. \<not> is_dispatch (entry res)) \<Longrightarrow> quiet (call entry op)"
  by (simp add: quiet_def keeps_def call_def sends_other split: prod.split)

lemma quiet_record_call: "\<not> is_dispatch c \<Longrightarrow> quiet (record_call c)"
  by (simp add: quiet_def keeps_def record_call_def sends_other)

lemmas quiet_intros = quiet_control quiet_call quiet_record_call

lemma quiet_telemetry:
  "quiet (mt_emit cfg ev)" "quiet (mt_observe cfg ph r n acc resp cl)"
  "quiet (mt_emit_attempt_failure cfg r acc' n stage re ca)" "quiet (mt_emit_completed cfg r resp' acc' n)"
  by (simp_all add: mt_emit_def mt_observe_def mt_emit_attempt_failure_def mt_emit_completed_def quiet_intros)

lemma quiet_mt_failed: "quiet (mt_failed cfg r n e rec stage re ca out l)"
  unfolding mt_failed_def by (auto intro!: quiet_intros quiet_telemetry split: sum.split)

lemma quiet_steps:
  "quiet (mt_wait_permit cfg ops r)" "quiet (mt_announce cfg ops r n)"
  "quiet (mt_handle cfg r n out)" "quiet (mt_guarded stage m previous)" if "quiet m"
proof -
  show "quiet (mt_wait_permit cfg ops r)"
    unfolding mt_wait_permit_def by (auto intro!: quiet_intros split: option.split)
  show "quiet (mt_announce cfg ops r n)"
    unfolding mt_announce_def by (intro quiet_intros quiet_telemetry)
  show "quiet (mt_handle cfg r n out)"
    unfolding mt_handle_def
    by (auto intro!: quiet_ret quiet_mt_failed split: prod.split sum.split exn.split)
  show "quiet (mt_guarded stage m previous)"
    unfolding mt_guarded_def using that by (auto intro!: quiet_intros split: sum.split)
qed

lemma quiet_cleanup: "quiet (mt_cleanup cfg ops r n a l)"
proof -
  have "quiet (mt_return_permit ops r l)"
    unfolding mt_return_permit_def by (auto intro!: quiet_ret quiet_steps(4) quiet_call split: option.split)
  moreover have "quiet (mt_settle ops a l previous)" for previous
    unfolding mt_settle_def by (auto intro!: quiet_ret quiet_steps(4) quiet_call split: option.split)
  ultimately show ?thesis
    unfolding mt_cleanup_def by (auto intro!: quiet_intros quiet_telemetry split: option.split)
qed

lemma quiet_between:
  "quiet (mt_authorize cfg ops r n)" "quiet (mt_rotate_identity ops reason r)"
  "quiet (mt_cache_put cfg cache r resp lookup acc n)" "quiet (mt_stale_fallback cfg stale why status)"
  "quiet (mt_enforce_cached_body cfg resp why)" "quiet (mt_cache_read cfg cache r)"
  "quiet (mt_check_robots cfg ops r)"
  by (auto simp: mt_authorize_def mt_rotate_identity_def mt_cache_put_def mt_stale_fallback_def
      mt_enforce_cached_body_def mt_cache_read_def mt_check_robots_def
      intro!: quiet_intros quiet_telemetry split: option.split sum.split)

lemma quiet_after:
  "quiet (mt_after_failure cfg ops r ar stale n e)"
  "quiet (mt_after_response cfg ops cr r ar stale lookup n l resp)"
  by (auto simp: mt_after_failure_def mt_after_response_def mt_revalidate_def mt_finish_def mt_retry_status_def
      Let_def intro!: quiet_intros quiet_telemetry quiet_between split: option.split bool.split)

subsection \<open>Returned values\<close>

definition val :: "('a \<Rightarrow> bool) \<Rightarrow> ('e, 'a) mt_act \<Rightarrow> bool" where
  "val P m \<longleftrightarrow> (\<forall>w x w'. m w = (Inr x, w') \<longrightarrow> P x)"

lemma val_ret: "P x \<Longrightarrow> val P (ret x)" by (simp add: val_def ret_def)

lemma val_raise: "val P (raise e)" by (simp add: val_def raise_def)

lemma val_bindA: "val Q m \<Longrightarrow> (\<And>x. Q x \<Longrightarrow> val P (f x)) \<Longrightarrow> val P (bindA m f)"
  unfolding val_def bindA_def by (fastforce split: prod.splits sum.splits)

lemma val_True: "val (\<lambda>_. True) m" by (simp add: val_def)

lemma val_thenA: "val P k \<Longrightarrow> val P (thenA m k)"
  unfolding thenA_def by (rule val_bindA [OF val_True])

lemmas val_intros = val_ret val_raise val_thenA

lemma quiet_val:
  fixes m :: "('e, 'a) mt_act"
  assumes "quiet m" "val P m"
  shows "spec (\<lambda>w. sends (w_log w) = S) m (\<lambda>x w. P x \<and> sends (w_log w) = S) (\<lambda>_ w. sends (w_log w) = S)"
  unfolding spec_def
proof (intro allI impI)
  fix w :: "(mt_call, 'e) world"
  assume "sends (w_log w) = S"
  moreover obtain r w' where m: "m w = (r, w')" by fastforce
  ultimately show "case m w of (Inl e, w') \<Rightarrow> sends (w_log w') = S | (Inr x, w') \<Rightarrow> P x \<and> sends (w_log w') = S"
    using quietD [OF assms(1) m] assms(2) by (cases r) (auto simp: val_def)
qed

fun retryable :: "exn + transport_response \<Rightarrow> bool" where
  "retryable (Inl (TransportFailure _)) = True"
| "retryable (Inl _) = False"
| "retryable (Inr response) = transient_status (resp_status response)"

lemma mt_receive_Inr: "mt_receive cfg r resp l = (Inr resp', l') \<Longrightarrow> resp' = resp \<and> length (resp_content resp) \<le> mt_maximum_response_bytes cfg"
  by (auto simp: mt_receive_def Let_def enforce_response_body_limit_Inr split: sum.splits)

lemma mt_receive_Inl: "mt_receive cfg r resp l = (Inl (TransportFailure a), l') \<Longrightarrow> False"
  by (auto simp: mt_receive_def Let_def enforce_response_body_limit_def accounting_or_estimate_def
      split: sum.splits if_splits option.splits dest: estimated_transmitted_bytes_Inl)

text \<open>The outcome of the try block and the dispatch it made, if any.\<close>

definition tried :: "mt_config \<Rightarrow> (exn + transport_response) list \<Rightarrow> (exn + transport_response) \<times> attempt_locals \<Rightarrow>
    (exn + transport_response) list \<Rightarrow> bool" where
  "tried cfg S x S' \<longleftrightarrow> (case x of (res, l) \<Rightarrow>
     (if al_dispatched l then
        (\<exists>d. S' = d # S \<and> (\<forall>resp. res = Inr resp \<longrightarrow> d = res \<and> length (resp_content resp) \<le> mt_maximum_response_bytes cfg)
             \<and> (\<forall>a. res = Inl (TransportFailure a) \<longrightarrow> d = res))
      else S' = S \<and> (\<exists>e. res = Inl e)))"

lemma mt_receive_dispatched: "al_dispatched (snd (mt_receive cfg r resp l)) = al_dispatched l"
  by (auto simp: mt_receive_def Let_def split: sum.split)

lemma mt_try_sends:
  "spec (\<lambda>w. sends (w_log w) = S) (mt_try cfg ops r n) (\<lambda>x w. tried cfg S x (sends (w_log w))) (\<lambda>_ _. False)"
proof -
  have sent: "spec (\<lambda>w. sends (w_log w) = S) (call (MDispatch r) (mo_backend ops r))
    (\<lambda>resp w. sends (w_log w) = Inr resp # S) (\<lambda>e w. sends (w_log w) = Inl e # S)"
    by (rule spec_call) auto
  have recv: "tried cfg S (mt_receive cfg r resp l) (Inr resp # S)" if "al_dispatched l" for resp l
    using that mt_receive_dispatched [of cfg r resp l] mt_receive_Inr [of cfg r resp l] mt_receive_Inl [of cfg r resp l]
    by (cases "mt_receive cfg r resp l") (auto simp: tried_def)
  note quietly = quiet_val [OF _ val_True, simplified]
  show ?thesis
    unfolding mt_try_def Let_def
  proof (rule spec_bindA [OF spec_tryA [OF quietly [OF quiet_steps(1) [OF quiet_ret]]]], goal_cases)
    case (1 r1)
    show ?case
    proof (cases r1)
      case (Inr acq)
      show ?thesis
        unfolding Inr sum.case
      proof (rule spec_bindA [OF spec_tryA [OF quietly [OF quiet_steps(2) [OF quiet_ret]]]], goal_cases)
        case (1 r2)
        show ?case
        proof (cases r2)
          case (Inr u)
          show ?thesis
            unfolding Inr sum.case
          proof (rule spec_bindA [OF spec_tryA [OF sent]], goal_cases)
            case (1 r3)
            show ?case by (cases r3) (auto simp: tried_def [of _ _ "(Inl _, _)"] intro!: spec_ret recv)
          qed
        qed (auto simp: tried_def locals0_def intro!: spec_ret)
      qed
    qed (auto simp: tried_def locals0_def intro!: spec_ret)
  qed
qed

subsection \<open>Attempts and iterations\<close>

lemma mt_failed_val:
  "val (\<lambda>(res, l'). (res = out \<or> (\<exists>e. res = ARaise e)) \<and> al_dispatched l' = al_dispatched l)
     (mt_failed cfg r n e rec stage re ca out l)"
  unfolding mt_failed_def
  by (auto intro!: val_ret val_bindA [OF val_True] split: sum.split)

lemma mt_handle_val:
  "val (\<lambda>(res, l'). case res of
          AResponse resp \<Rightarrow> outcome = (Inr resp, l')
        | AFailure e \<Rightarrow> fst outcome = Inl e \<and> (\<exists>a. e = TransportFailure a) \<and> al_dispatched (snd outcome)
        | ARaise _ \<Rightarrow> True)
     (mt_handle cfg r n outcome)"
proof -
  have failed: "val Q (mt_failed cfg r n e rec stage re ca (ARaise e') l)"
    if "\<And>e l. Q (ARaise e, l)" for Q e rec stage re ca e' l
    using mt_failed_val [of "ARaise e'" l cfg r n e rec stage re ca] that
    by (fastforce simp: val_def)
  have failure: "val Q (mt_failed cfg r n e rec stage re ca (AFailure e') l)"
    if "\<And>e l. Q (ARaise e, l)" "\<And>l. Q (AFailure e', l)" for Q e rec stage re ca e' l
    using mt_failed_val [of "AFailure e'" l cfg r n e rec stage re ca] that
    by (fastforce simp: val_def)
  show ?thesis
    unfolding mt_handle_def
    by (auto intro!: val_ret failed failure split: prod.split sum.split exn.split)
qed

definition attempted :: "mt_config \<Rightarrow> (exn + transport_response) list \<Rightarrow> attempt_result \<Rightarrow> (exn + transport_response) list \<Rightarrow> bool" where
  "attempted cfg S res S' \<longleftrightarrow>
     (case res of
        AResponse resp \<Rightarrow> S' = Inr resp # S \<and> length (resp_content resp) \<le> mt_maximum_response_bytes cfg
      | AFailure e \<Rightarrow> S' = Inl e # S \<and> (\<exists>a. e = TransportFailure a)
      | ARaise _ \<Rightarrow> False)"

abbreviation at_most_one :: "'a list \<Rightarrow> 'a list \<Rightarrow> bool" where
  "at_most_one S S' \<equiv> S' = S \<or> (\<exists>d. S' = d # S)"

lemma tried_at_most_one: "tried cfg S x S' \<Longrightarrow> at_most_one S S'"
  by (auto simp: tried_def split: prod.splits if_splits)

lemma mt_attempt_sends:
  "spec (\<lambda>w. sends (w_log w) = S) (mt_attempt cfg ops r n a) (\<lambda>x w. attempted cfg S (fst x) (sends (w_log w)))
     (\<lambda>_ w. at_most_one S (sends (w_log w)))"
proof -
  have "case mt_attempt cfg ops r n a w of (Inl e, w') \<Rightarrow> at_most_one S (sends (w_log w'))
      | (Inr x, w') \<Rightarrow> attempted cfg S (fst x) (sends (w_log w'))" if "sends (w_log w) = S" for w
  proof -
    obtain t w1 where 1: "mt_try cfg ops r n w = (t, w1)" by fastforce
    with spec_run [OF mt_try_sends that] obtain out where t: "t = Inr out" "tried cfg S out (sends (w_log w1))"
      by (cases t) (fastforce)+
    obtain h w2 where 2: "mt_handle cfg r n out w1 = (h, w2)" by fastforce
    have s2: "sends (w_log w2) = sends (w_log w1)" by (rule quietD [OF quiet_steps(3) [OF quiet_ret] 2])
    show ?thesis
    proof (cases h)
      case (Inl e)
      with 1 2 t s2 tried_at_most_one [OF t(2)] show ?thesis by (simp add: mt_attempt_def bindA_def)
    next
      case (Inr rl)
      obtain res l where rl: "rl = (res, l)" by fastforce
      obtain c w3 where 3: "mt_cleanup cfg ops r n a l w2 = (c, w3)" by fastforce
      have s3: "sends (w_log w3) = sends (w_log w1)" using quietD [OF quiet_cleanup 3] s2 by simp
      have "case res of AResponse resp \<Rightarrow> out = (Inr resp, l)
        | AFailure e \<Rightarrow> fst out = Inl e \<and> (\<exists>a. e = TransportFailure a) \<and> al_dispatched (snd out)
        | ARaise _ \<Rightarrow> True"
        using mt_handle_val 2 Inr rl by (fastforce simp: val_def)
      moreover have "attempted cfg S res (sends (w_log w3))" if "res = AResponse resp" "out = (Inr resp, l)" for resp
        using that t(2) s3 by (auto simp: attempted_def tried_def split: if_splits)
      moreover have "attempted cfg S res (sends (w_log w3))"
        if "res = AFailure e" "fst out = Inl e" "e = TransportFailure a" "al_dispatched (snd out)" for e a
        using that t(2) s3 by (cases out) (auto simp: attempted_def tried_def split: if_splits)
      ultimately show ?thesis
        using 1 2 3 t Inr rl tried_at_most_one [OF t(2)] s3
        by (cases c; cases res)
          (auto simp: mt_attempt_def bindA_def thenA_def raise_def ret_def)
    qed
  qed
  then show ?thesis by (simp add: spec_def)
qed

definition from_stale :: "transport_response option \<Rightarrow> transport_response \<Rightarrow> bool" where
  "from_stale stale resp \<longleftrightarrow> (\<exists>s. stale = Some s \<and> resp_content resp = resp_content s \<and> resp_from_cache resp)"

lemma mt_stale_fallback_val: "val (from_stale stale) (mt_stale_fallback cfg stale why status)"
  unfolding mt_stale_fallback_def
  by (auto simp: from_stale_def intro!: val_intros split: option.split)

lemma mt_fallback_val:
  "(\<And>r. from_stale stale r \<Longrightarrow> P (MReturn r)) \<Longrightarrow>
   val P (bindA (mt_stale_fallback cfg stale why status) (\<lambda>r. ret (MReturn r)))"
  by (rule val_bindA [OF mt_stale_fallback_val]) (auto intro: val_ret)

lemma mt_after_failure_val:
  "val (\<lambda>x. case x of MContinue \<Rightarrow> n \<noteq> mt_retries cfg | MReturn resp \<Rightarrow> from_stale stale resp)
     (mt_after_failure cfg ops r ar stale n e)"
  unfolding mt_after_failure_def
  by (auto intro!: val_intros mt_fallback_val)

lemma mt_after_response_val:
  "val (\<lambda>x. case x of
          MContinue \<Rightarrow> n \<noteq> mt_retries cfg \<and> transient_status (resp_status resp)
        | MReturn r' \<Rightarrow> from_stale stale r' \<or> r' = resp \<and> (transient_status (resp_status resp) \<longrightarrow> n = mt_retries cfg))
     (mt_after_response cfg ops cr r ar stale lookup n l resp)"
proof -
  have rev: "val P (mt_revalidate cfg ops cr ar s lookup n l resp)"
    if "P (MReturn (mt_revalidated_response s resp))" for P s
    unfolding mt_revalidate_def Let_def using that by (auto intro!: val_intros)
  have fin: "val P (mt_finish cfg ops cr r ar stale lookup n l resp)"
    if "P (MReturn resp)" "\<And>r. from_stale stale r \<Longrightarrow> P (MReturn r)" for P
    unfolding mt_finish_def using that by (auto intro!: val_intros mt_fallback_val)
  have retry: "val P (mt_retry_status cfg ops r ar stale n l resp)" if "P MContinue" for P
    unfolding mt_retry_status_def using that by (auto intro!: val_intros)
  show ?thesis
  proof (cases "\<exists>s. stale = Some s \<and> resp_status resp = 304")
    case True
    then obtain s where "stale = Some s" "resp_status resp = 304" by blast
    then show ?thesis
      by (simp add: mt_after_response_def) (rule rev, simp add: from_stale_def mt_revalidated_response_def)
  next
    case False
    then have eq: "mt_after_response cfg ops cr r ar stale lookup n l resp =
      (if \<not> transient_status (resp_status resp) \<or> n = mt_retries cfg
       then mt_finish cfg ops cr r ar stale lookup n l resp else mt_retry_status cfg ops r ar stale n l resp)"
      by (auto simp: mt_after_response_def split: option.split bool.split)
    show ?thesis
    proof (cases "\<not> transient_status (resp_status resp) \<or> n = mt_retries cfg")
      case True
      then show ?thesis unfolding eq if_P [OF True] by (intro fin) auto
    next
      case False
      then show ?thesis unfolding eq if_not_P [OF False] by (intro retry) auto
    qed
  qed
qed

definition iterated :: "mt_config \<Rightarrow> transport_response option \<Rightarrow> nat \<Rightarrow> (exn + transport_response) list \<Rightarrow> mt_next \<Rightarrow>
    (exn + transport_response) list \<Rightarrow> bool" where
  "iterated cfg stale n S x S' \<longleftrightarrow>
     (\<exists>d. S' = d # S \<and>
       (case x of MContinue \<Rightarrow> n \<noteq> mt_retries cfg \<and> retryable d
        | MReturn resp \<Rightarrow> from_stale stale resp \<or>
            d = Inr resp \<and> length (resp_content resp) \<le> mt_maximum_response_bytes cfg
            \<and> (transient_status (resp_status resp) \<longrightarrow> n = mt_retries cfg)))"

lemma mt_iteration_sends:
  "spec (\<lambda>w. sends (w_log w) = S) (mt_iteration cfg ops cr r rid stale lookup n)
     (\<lambda>x w. iterated cfg stale n S x (sends (w_log w))) (\<lambda>_ w. at_most_one S (sends (w_log w)))"
  unfolding mt_iteration_def Let_def
proof (rule spec_bindA [where R = "\<lambda>_ w. sends (w_log w) = S"], goal_cases)
  case 1
  show ?case by (rule spec_weaken [OF quiet_val [OF quiet_between(1) val_True]]) auto
next
  case (2 a)
  let ?ar = "mt_attempt_request rid n r"
  show ?case
  proof (rule spec_bindA [OF mt_attempt_sends], goal_cases)
    case (1 x)
    obtain res l where x: "x = (res, l)" by fastforce
    show ?case
    proof (cases res)
      case (ARaise e)
      then show ?thesis by (intro spec_absurd) (simp add: x attempted_def)
    next
      case (AResponse resp)
      have "spec (\<lambda>w. sends (w_log w) = Inr resp # S) (mt_after_response cfg ops cr r ?ar stale lookup n l resp)
         (\<lambda>y w. (case y of MContinue \<Rightarrow> n \<noteq> mt_retries cfg \<and> transient_status (resp_status resp)
        | MReturn r' \<Rightarrow> from_stale stale r' \<or> r' = resp \<and> (transient_status (resp_status resp) \<longrightarrow> n = mt_retries cfg))
           \<and> sends (w_log w) = Inr resp # S) (\<lambda>_ w. sends (w_log w) = Inr resp # S)"
        by (rule quiet_val [OF quiet_after(2) mt_after_response_val])
      note post = this
      show ?thesis
      proof (cases "length (resp_content resp) \<le> mt_maximum_response_bytes cfg")
        case True
        show ?thesis
          unfolding x prod.case AResponse attempt_result.case
          by (rule spec_weaken [OF post]) (use True in \<open>auto simp: attempted_def iterated_def split: mt_next.splits\<close>)
      next
        case False
        then show ?thesis by (intro spec_absurd) (simp add: x AResponse attempted_def)
      qed
    next
      case (AFailure e)
      show ?thesis
      proof (cases "\<exists>a. e = TransportFailure a")
        case True
        show ?thesis
          unfolding x prod.case AFailure attempt_result.case
          by (rule spec_weaken [OF quiet_val [OF quiet_after(1) mt_after_failure_val, of "Inl e # S"]])
            (use True in \<open>auto simp: attempted_def iterated_def split: mt_next.splits\<close>)
      next
        case False
        then show ?thesis by (intro spec_absurd) (simp add: x AFailure attempted_def)
      qed
    qed
  qed
qed

subsection \<open>The whole request\<close>

text \<open>What the caller gets after the dispatches \<open>S\<close>, newest first, with at most \<open>k\<close> of them.\<close>

definition good_result :: "mt_config \<Rightarrow> nat \<Rightarrow> transport_response \<Rightarrow> (exn + transport_response) list \<Rightarrow> bool" where
  "good_result cfg k resp S \<longleftrightarrow>
     length (resp_content resp) \<le> mt_maximum_response_bytes cfg \<and>
     (resp_from_cache resp \<or>
      (\<exists>rest. S = Inr resp # rest \<and> (transient_status (resp_status resp) \<longrightarrow> length S = k)))"

definition sends_ok :: "nat \<Rightarrow> (exn + transport_response) list \<Rightarrow> bool" where
  "sends_ok k S \<longleftrightarrow> length S \<le> k \<and> list_all retryable (tl S)"

lemma mt_loop_sends:
  assumes "\<forall>s. stale = Some s \<longrightarrow> length (resp_content s) \<le> mt_maximum_response_bytes cfg"
    and N: "N = mt_retries cfg + 1"
  shows "ns = [n..<N] \<Longrightarrow> length S = n \<Longrightarrow> n \<le> N \<Longrightarrow> list_all retryable S \<Longrightarrow>
   spec (\<lambda>w. sends (w_log w) = S) (mt_loop cfg ops cr r rid stale lookup ns)
     (\<lambda>resp w. good_result cfg N resp (sends (w_log w)) \<and> sends_ok N (sends (w_log w)))
     (\<lambda>_ w. sends_ok N (sends (w_log w)))"
proof (induction ns arbitrary: n S)
  case Nil
  then show ?case
    by (cases S) (auto simp: sends_ok_def intro!: spec_raise)
next
  case (Cons m ns)
  have m: "m = n" "ns = [Suc n..<N]" "n < N"
    using Cons(2) upt_eq_Cons_conv [of n N m ns] by auto
  have tl: "list_all retryable S" by (fact Cons(5))
  have ok: "sends_ok N S'" if "at_most_one S S'" for S'
    using that m(3) Cons(3) tl by (cases S) (auto simp: sends_ok_def)
  have iter: "spec (\<lambda>w. sends (w_log w) = S) (mt_iteration cfg ops cr r rid stale lookup n)
     (\<lambda>x w. iterated cfg stale n S x (sends (w_log w))) (\<lambda>_ w. sends_ok N (sends (w_log w)))"
    by (rule spec_weaken [OF mt_iteration_sends]) (auto intro: ok)
  show ?case
    unfolding mt_loop.simps m(1)
  proof (rule spec_bindA [OF iter], goal_cases)
    case (1 x)
    show ?case
    proof (cases x)
      case (MReturn resp)
      then show ?thesis
        using assms(1) N Cons(3) tl m(3)
        by (auto simp: iterated_def good_result_def sends_ok_def from_stale_def intro!: spec_ret)
    next
      case MContinue
      have "spec (\<lambda>w. sends (w_log w) = d # S) (mt_loop cfg ops cr r rid stale lookup ns)
         (\<lambda>resp w. good_result cfg N resp (sends (w_log w)) \<and> sends_ok N (sends (w_log w)))
         (\<lambda>_ w. sends_ok N (sends (w_log w)))" if "retryable d" for d
        by (rule Cons.IH [of "Suc n"]) (use that Cons(3) tl m in auto)
      then show ?thesis
        unfolding MContinue mt_next.case by (fastforce simp: spec_def iterated_def)
    qed
  qed
qed

lemma mt_network_sends:
  assumes "\<forall>s. stale = Some s \<longrightarrow> length (resp_content s) \<le> mt_maximum_response_bytes cfg"
  shows "spec (\<lambda>w. sends (w_log w) = []) (mt_network cfg ops r rid stale lookup)
     (\<lambda>resp w. good_result cfg (mt_retries cfg + 1) resp (sends (w_log w)) \<and> sends_ok (mt_retries cfg + 1) (sends (w_log w)))
     (\<lambda>_ w. sends_ok (mt_retries cfg + 1) (sends (w_log w)))"
  unfolding mt_network_def by (rule mt_loop_sends [OF assms refl refl]) auto

lemma mt_enforce_cached_body_val:
  "val (\<lambda>r. r = resp \<and> length (resp_content resp) \<le> mt_maximum_response_bytes cfg) (mt_enforce_cached_body cfg resp why)"
  unfolding mt_enforce_cached_body_def
  by (auto simp: enforce_response_body_limit_Inr intro!: val_intros split: sum.split)

lemma quiet_clean:
  assumes "quiet m" "val P m"
  shows "spec (\<lambda>w. sends (w_log w) = []) m (\<lambda>x w. P x \<and> sends (w_log w) = []) (\<lambda>_ w. sends_ok k (sends (w_log w)))"
  by (rule spec_weaken [OF quiet_val [OF assms, of "[]"]]) (auto simp: sends_ok_def)

lemma quiet_clean1:
  assumes "quiet m"
  shows "spec (\<lambda>w. sends (w_log w) = []) m (\<lambda>_ w. sends (w_log w) = []) (\<lambda>_ w. sends_ok k (sends (w_log w)))"
  by (rule spec_weaken [OF quiet_clean [OF assms val_True]]) auto

lemma mt_request_sends:
  "spec (\<lambda>w. sends (w_log w) = []) (mt_request cfg ops fresh r)
     (\<lambda>resp w. good_result cfg (mt_retries cfg + 1) resp (sends (w_log w)) \<and> sends_ok (mt_retries cfg + 1) (sends (w_log w)))
     (\<lambda>_ w. sends_ok (mt_retries cfg + 1) (sends (w_log w)))"
  (is "spec ?P _ ?Q ?E")
proof -
  note quietly = quiet_clean [where k = "mt_retries cfg + 1"] and q1 = quiet_clean1 [where k = "mt_retries cfg + 1"]
  have hit: "spec ?P (bindA (mt_enforce_cached_body cfg c why) (\<lambda>b.
      thenA (mt_emit cfg EvCacheHit) (ret (b\<lparr>resp_from_cache := True\<rparr>)))) ?Q ?E" for c why
  proof (rule spec_bindA [OF quietly [OF quiet_between(5) mt_enforce_cached_body_val]], goal_cases)
    case (1 b)
    show ?case
    proof (cases "b = c \<and> length (resp_content c) \<le> mt_maximum_response_bytes cfg")
      case True
      show ?thesis
        by (rule spec_weaken [OF spec_thenA [OF q1 [OF quiet_telemetry(1)] spec_ret [where Q = ?Q]]])
          (use True in \<open>auto simp: good_result_def sends_ok_def\<close>)
    next
      case False
      then show ?thesis by (intro spec_absurd) auto
    qed
  qed
  have stale: "spec ?P (bindA (mt_enforce_cached_body cfg s why) (\<lambda>s'. mt_network cfg ops r rid (Some s') lookup)) ?Q ?E"
    for s why rid lookup
  proof (rule spec_bindA [OF quietly [OF quiet_between(5) mt_enforce_cached_body_val]], goal_cases)
    case (1 s')
    show ?case
    proof (cases "s' = s \<and> length (resp_content s) \<le> mt_maximum_response_bytes cfg")
      case True
      show ?thesis by (rule spec_weaken [OF mt_network_sends]) (use True in auto)
    next
      case False
      then show ?thesis by (intro spec_absurd) auto
    qed
  qed
  have none: "spec ?P (mt_network cfg ops r rid None lookup) ?Q ?E" for rid lookup
    by (rule mt_network_sends) simp
  show ?thesis
    unfolding mt_request_def Let_def
  proof (rule spec_thenA [OF q1 [OF quiet_telemetry(1)]], rule spec_thenA [OF q1 [OF quiet_between(7)]],
      cases "mo_cache ops", goal_cases)
    case (2 cache)
    show ?case
    proof (cases "req_cache r = CacheDefault")
      case True
      show ?thesis
        unfolding 2 prod.case option.case simp_thms(6) using True
      proof (simp only: simp_thms bool.case, intro spec_bindA [OF q1 [OF quiet_between(6)]], goal_cases)
        case (1 x)
        obtain fr st lookup where x: "x = (fr, st, lookup)" by (cases x)
        have miss: "spec ?P m ?Q ?E \<Longrightarrow> spec ?P (thenA (mt_emit cfg EvCacheMiss) m) ?Q ?E" for m
          by (rule spec_thenA [OF q1 [OF quiet_telemetry(1)]])
        show ?case
          unfolding x prod.case
          by (cases fr; cases st) (simp_all only: option.case hit miss stale none)
      qed
    next
      case False
      then show ?thesis by (simp only: 2 prod.case option.case bool.case refl if_False simp_thms none)
    qed
  next
    case 1
    then show ?case by (simp only: prod.case option.case none)
  qed
qed

subsection \<open>Properties\<close>

text \<open>
  C3. Bounded retries and faithful results.  A request is dispatched at most \<open>retries + 1\<close> times, and
  every dispatch but the last failed with a \<^verbatim>\<open>TransportFailure\<close> or a transient status.  A returned
  response never exceeds the retained-body limit, even if it comes from a cache; if it does not come
  from a cache it is the response of the last dispatch, and it has a transient status only if all
  attempts were used up.
\<close>

theorem middleware_result:
  assumes "mt_request cfg ops fresh_id request \<lparr>w_env = env, w_log = []\<rparr> = (result, w)"
  shows "length (sends (w_log w)) \<le> mt_retries cfg + 1 \<and> list_all retryable (tl (sends (w_log w))) \<and>
    (\<forall>resp. result = Inr resp \<longrightarrow>
       length (resp_content resp) \<le> mt_maximum_response_bytes cfg \<and>
       (resp_from_cache resp \<or>
        (\<exists>rest. sends (w_log w) = Inr resp # rest \<and>
          (transient_status (resp_status resp) \<longrightarrow> length rest = mt_retries cfg))))"
proof -
  from spec_run [OF mt_request_sends _ assms] show ?thesis
    by (cases result) (auto simp: good_result_def sends_ok_def)
qed

text \<open>
  Refusals touch nothing.  When the robots policy denies a request, it ends with
  \<^verbatim>\<open>RobotsDenied\<close> and its whole history is the robots check and its telemetry: the cache, the
  budget, the limiter and the backend are not called.
\<close>

theorem middleware_robots_denied:
  assumes "mo_robots ops = Some allowed" and "req_purpose request \<noteq> PurposeRobots"
    and "allowed (req_url request) env = (Inr False, env')"
  shows "mt_request cfg ops fresh_id request \<lparr>w_env = env, w_log = []\<rparr> =
    (Inl RobotsDenied, \<lparr>w_env = env', w_log =
       (if mt_telemetry cfg
        then [MEmit EvRobotsDenied, MRobots (req_url request) (Inr False), MEmit EvAccepted]
        else [MRobots (req_url request) (Inr False)])\<rparr>)"
  using assms
  by (simp add: mt_request_def mt_check_robots_def mt_emit_def Let_def act_defs call_def record_call_def)

text \<open>
  A fresh cached response is served without the network.  When the request may use the cache,
  robots is not consulted or allows it, and the cache has a fresh response within the body limit,
  that response is returned marked as cached, and the budget, the limiter and the backend are not
  called.
\<close>

theorem middleware_cache_hit:
  assumes "mo_robots ops = None" and "mo_cache ops = Some cache" and "req_cache request = CacheDefault"
    and "co_lookup cache = Some lookup" and "lookup request env = (Inr (Some cached, stale, h), env')"
    and "length (resp_content cached) \<le> mt_maximum_response_bytes cfg"
  shows "mt_request cfg ops fresh_id request \<lparr>w_env = env, w_log = []\<rparr> =
    (Inr (cached\<lparr>resp_from_cache := True\<rparr>), \<lparr>w_env = env', w_log =
       (if mt_telemetry cfg
        then [MEmit EvCacheHit, MCacheLookup request (Inr (Some cached, stale, h)), MEmit EvAccepted]
        else [MCacheLookup request (Inr (Some cached, stale, h))])\<rparr>)"
  using assms
  by (simp add: mt_request_def mt_check_robots_def mt_cache_read_def mt_enforce_cached_body_def
      enforce_response_body_limit_def mt_emit_def Let_def act_defs call_def record_call_def)

subsection \<open>Concrete runs\<close>

theorem middleware_result_witness:
  "\<exists>w. mt_request sample_config sample_ops ''id'' (sample_get ''http://a/b'') \<lparr>w_env = 0, w_log = []\<rparr> = (Inr sample_response, w)
     \<and> length (sends (w_log w)) \<le> 2 \<and> (\<exists>rest. sends (w_log w) = Inr sample_response # rest)"
proof -
  obtain w where run: "mt_request sample_config sample_ops ''id'' (sample_get ''http://a/b'') \<lparr>w_env = 0, w_log = []\<rparr>
      = (Inr sample_response, w)" using sample_run by blast
  have "mt_retries sample_config = 1" "\<not> resp_from_cache sample_response"
    by (simp_all add: sample_config_def sample_response_def)
  with middleware_result [OF run] run show ?thesis by auto
qed

theorem middleware_robots_denied_witness:
  "fst (mt_request sample_config (sample_ops\<lparr>mo_robots := Some (\<lambda>url. ret (url \<noteq> ''http://a/private''))\<rparr>) ''id''
      (sample_get ''http://a/private'') \<lparr>w_env = 0, w_log = []\<rparr>) = Inl RobotsDenied"
  by (subst middleware_robots_denied [where allowed = "\<lambda>url. ret (url \<noteq> ''http://a/private'')" and env' = 0])
    (simp_all add: sample_get_def ret_def)

theorem middleware_cache_hit_witness:
  "fst (mt_request sample_config sample_ops ''id'' (sample_get ''http://a/cached'') \<lparr>w_env = 0, w_log = []\<rparr>)
     = Inr (sample_response\<lparr>resp_from_cache := True\<rparr>)"
  by (subst middleware_cache_hit [where cache = sample_cache and cached = sample_response and stale = None and h = 0
        and env' = 0
        and lookup = "\<lambda>r. ret (if req_url r = ''http://a/cached'' then Some sample_response else None, None, 0)"])
    (simp_all add: sample_ops_def sample_cache_def sample_get_def sample_config_def sample_response_def ret_def)

end
