(* ===== verification/Middleware_Budget.thy ===== *)
theory Middleware_Budget
  imports Middleware_Protocol Middleware_Results
begin

section \<open>The middleware over the in-process budget\<close>

text \<open>
  The middleware composed with \<^verbatim>\<open>MemoryRequestBudget\<close>.  An invariant of the collaborators is an
  invariant of a request (\<open>mt_invariant\<close>); with it the history determines the budget, and the
  protocol of the middleware then gives what a request charges.
\<close>

subsection \<open>Invariants of the collaborators\<close>

locale mt_invariant =
  fixes ops :: "'e mt_ops" and I :: "(mt_call, 'e) world \<Rightarrow> bool"
  assumes emit: "I w \<Longrightarrow> I (w\<lparr>w_log := MEmit ev # w_log w\<rparr>)"
    and observe: "I w \<Longrightarrow> I (w\<lparr>w_log := MObserve ob # w_log w\<rparr>)"
    and robots: "mo_robots ops = Some allowed \<Longrightarrow> keeps I (call (MRobots url) (allowed url))"
    and cache: "mo_cache ops = Some c \<Longrightarrow> keeps I (call (MCacheGet r) (co_get c r))"
      "mo_cache ops = Some c \<Longrightarrow> keeps I (call (MCachePut r resp) (co_put c r resp))"
      "mo_cache ops = Some c \<Longrightarrow> keeps I (call (MLookupPut h resp) (co_lookup_put c h resp))"
      "mo_cache ops = Some c \<Longrightarrow> co_lookup c = Some f \<Longrightarrow> keeps I (call (MCacheLookup r) (f r))"
    and budget: "mo_budget ops = Some b \<Longrightarrow> keeps I (call (MAuthorize r) (bo_authorize b r))"
      "mo_budget ops = Some b \<Longrightarrow> keeps I (call (MReconcile i n) (bo_reconcile b i n))"
      "mo_budget ops = Some b \<Longrightarrow> keeps I (call (MReleaseAuth i) (bo_release b i))"
    and limiter: "mo_limiter ops = Some l \<Longrightarrow> keeps I (call (MWait r) (li_wait l r))"
      "mo_limiter ops = Some l \<Longrightarrow> keeps I (call (MReleasePermit r) (li_release l r))"
    and backend: "keeps I (call (MDispatch r) (mo_backend ops r))"
      "keeps I (call (MRotate reason) (mo_rotate ops reason))"
      "mo_rotate_for_request ops = Some g \<Longrightarrow> keeps I (call (MRotateFor reason r) (g reason r))"
      "keeps I (call (MSleep d) (mo_sleep ops d))"
begin

lemma telemetry:
  "keeps I (mt_emit cfg ev)" "keeps I (mt_observe cfg ph r n acc resp cl)"
  "keeps I (mt_emit_attempt_failure cfg r acc' n stage re ca)" "keeps I (mt_emit_completed cfg r resp' acc' n)"
proof -
  have "keeps I (record_call (MEmit ev))" "keeps I (record_call (MObserve ob))" for ev ob
    using emit observe by (auto simp: keeps_def record_call_def)
  then show "keeps I (mt_emit cfg ev)" "keeps I (mt_observe cfg ph r n acc resp cl)"
    "keeps I (mt_emit_attempt_failure cfg r acc' n stage re ca)" "keeps I (mt_emit_completed cfg r resp' acc' n)"
    by (simp_all add: mt_emit_def mt_observe_def mt_emit_attempt_failure_def mt_emit_completed_def keeps_intros)
qed

lemma attempt: "keeps I (mt_attempt cfg ops r n a)"
proof -
  have failed: "keeps I (mt_failed cfg r n e rec stage re ca out l)" for e rec stage re ca out l
    unfolding mt_failed_def by (auto intro!: keeps_intros telemetry split: sum.split)
  have guarded: "keeps I m \<Longrightarrow> keeps I (mt_guarded stage m p)" for m stage p
    unfolding mt_guarded_def by (auto intro!: keeps_intros split: sum.split)
  have "keeps I (mt_try cfg ops r n)"
    unfolding mt_try_def mt_wait_permit_def mt_announce_def Let_def
    by (auto intro!: keeps_intros telemetry limiter backend split: sum.split option.split)
  moreover have "keeps I (mt_handle cfg r n out)" for out
    unfolding mt_handle_def by (auto intro!: keeps_ret failed split: prod.split sum.split exn.split)
  moreover have "keeps I (mt_cleanup cfg ops r n a l)" for l
    unfolding mt_cleanup_def mt_return_permit_def mt_settle_def
    by (auto intro!: keeps_intros guarded telemetry limiter budget split: option.split)
  ultimately show ?thesis
    unfolding mt_attempt_def by (auto intro!: keeps_intros split: prod.split attempt_result.split)
qed

lemma cache_put: "mo_cache ops = Some c \<Longrightarrow> keeps I (mt_cache_put cfg c r resp lookup acc n)"
  unfolding mt_cache_put_def by (auto intro!: keeps_intros telemetry cache split: option.split)

lemma between_attempts:
  "keeps I (mt_after_failure cfg ops r ar stale n e)"
  "keeps I (mt_after_response cfg ops cr r ar stale lookup n l resp)"
proof -
  have rotate: "keeps I (mt_rotate_identity ops reason r)" for reason r
    unfolding mt_rotate_identity_def by (auto intro!: backend split: option.split)
  have stale_fallback: "keeps I (mt_stale_fallback cfg st why status)" for st why status
    unfolding mt_stale_fallback_def by (auto intro!: keeps_intros telemetry split: option.split)
  show "keeps I (mt_after_failure cfg ops r ar stale n e)"
    unfolding mt_after_failure_def by (auto intro!: keeps_intros telemetry rotate stale_fallback backend)
  show "keeps I (mt_after_response cfg ops cr r ar stale lookup n l resp)"
    unfolding mt_after_response_def mt_revalidate_def mt_finish_def mt_retry_status_def Let_def
    by (auto intro!: keeps_intros telemetry rotate stale_fallback backend cache_put split: option.split bool.split)
qed

lemma loop: "keeps I (mt_loop cfg ops cr r rid stale lookup ns)"
proof (induction ns)
  case (Cons n ns)
  have "keeps I (mt_authorize cfg ops ar n)" for ar
    unfolding mt_authorize_def by (auto intro!: keeps_intros telemetry budget split: option.split)
  then have "keeps I (mt_iteration cfg ops cr r rid stale lookup n)"
    unfolding mt_iteration_def Let_def
    by (auto intro!: keeps_intros attempt between_attempts split: prod.split attempt_result.split)
  with Cons show ?case by (auto intro!: keeps_intros split: mt_next.split)
qed (auto intro!: keeps_intros)

lemma request: "keeps I (mt_request cfg ops fresh r)"
proof -
  have "keeps I (mt_check_robots cfg ops r)"
    unfolding mt_check_robots_def by (auto intro!: keeps_intros telemetry robots split: option.split)
  moreover have "keeps I (mt_enforce_cached_body cfg resp why)" for resp why
    unfolding mt_enforce_cached_body_def by (auto intro!: keeps_intros telemetry split: sum.split)
  moreover have "keeps I (mt_cache_read cfg c r)" if "mo_cache ops = Some c" for c
    unfolding mt_cache_read_def using that by (auto intro!: keeps_intros cache split: option.split)
  moreover have "keeps I (mt_network cfg ops r rid stale lookup)" for rid stale lookup
    unfolding mt_network_def by (rule loop)
  ultimately show ?thesis
    unfolding mt_request_def Let_def
    by (auto intro!: keeps_intros telemetry split: option.split bool.split)
qed

end

subsection \<open>Composition with the budget\<close>

text \<open>
  The environment is the budget and the state of all other collaborators, which do not touch the
  budget; the request is the budget's only client while it runs.
\<close>

definition beside :: "('x, 'a) act \<Rightarrow> ('b \<times> 'x, 'a) act" where
  "beside m e = (case m (snd e) of (r, x) \<Rightarrow> (r, (fst e, x)))"

definition cache_beside :: "'x cache_ops \<Rightarrow> ('b \<times> 'x) cache_ops" where
  "cache_beside c = \<lparr>co_get = (\<lambda>r. beside (co_get c r)), co_put = (\<lambda>r resp. beside (co_put c r resp)),
     co_lookup = map_option (\<lambda>f r. beside (f r)) (co_lookup c), co_lookup_put = (\<lambda>h resp. beside (co_lookup_put c h resp))\<rparr>"

definition limiter_beside :: "'x limiter_ops \<Rightarrow> ('b \<times> 'x) limiter_ops" where
  "limiter_beside l = \<lparr>li_wait = (\<lambda>r. beside (li_wait l r)), li_release = (\<lambda>r. beside (li_release l r))\<rparr>"

definition memory_budget_ops :: "(memory_budget \<times> 'x) budget_ops" where
  "memory_budget_ops =
     \<lparr>bo_authorize = (\<lambda>r e. case mb_authorize (req_estimated_bytes r) (fst e) of (a, b) \<Rightarrow> (Inr a, (b, snd e))),
      bo_reconcile = (\<lambda>i n e. case mb_reconcile i (int n) (fst e) of (res, b) \<Rightarrow> (res, (b, snd e))),
      bo_release = (\<lambda>i e. case mb_release i (fst e) of (res, b) \<Rightarrow> (res, (b, snd e)))\<rparr>"

definition budgeted :: "'x mt_ops \<Rightarrow> (memory_budget \<times> 'x) mt_ops" where
  "budgeted ops =
     \<lparr>mo_robots = map_option (\<lambda>f url. beside (f url)) (mo_robots ops),
      mo_cache = map_option cache_beside (mo_cache ops), mo_budget = Some memory_budget_ops,
      mo_limiter = map_option limiter_beside (mo_limiter ops), mo_backend = (\<lambda>r. beside (mo_backend ops r)),
      mo_rotate = (\<lambda>reason. beside (mo_rotate ops reason)),
      mo_rotate_for_request = map_option (\<lambda>f reason r. beside (f reason r)) (mo_rotate_for_request ops),
      mo_sleep = (\<lambda>d. beside (mo_sleep ops d))\<rparr>"

text \<open>The budget that a history leaves behind, if its budget calls have the results recorded.\<close>

fun budget_after :: "memory_budget \<Rightarrow> mt_call list \<Rightarrow> memory_budget option" where
  "budget_after b0 [] = Some b0"
| "budget_after b0 (MAuthorize r res # history) =
     (case budget_after b0 history of None \<Rightarrow> None
      | Some b \<Rightarrow> if res = Inr (fst (mb_authorize (req_estimated_bytes r) b))
                then Some (snd (mb_authorize (req_estimated_bytes r) b)) else None)"
| "budget_after b0 (MReconcile i n res # history) =
     (case budget_after b0 history of None \<Rightarrow> None | Some b \<Rightarrow> Some (snd (mb_reconcile i (int n) b)))"
| "budget_after b0 (MReleaseAuth i res # history) =
     (case budget_after b0 history of None \<Rightarrow> None | Some b \<Rightarrow> Some (snd (mb_release i b)))"
| "budget_after b0 (_ # history) = budget_after b0 history"

interpretation budgeted: mt_invariant "budgeted ops" "\<lambda>w. budget_after b0 (w_log w) = Some (fst (w_env w))"
  by unfold_locales
    (auto simp: budgeted_def cache_beside_def limiter_beside_def memory_budget_ops_def beside_def keeps_def call_def
      split: prod.splits)

text \<open>What an accepted history does to the budget.\<close>

definition spent :: "memory_budget \<Rightarrow> mt_call list \<Rightarrow> pstate \<Rightarrow> memory_budget \<Rightarrow> bool" where
  "spent b0 history st b \<longleftrightarrow> mb_inv b \<and>
     (case ps_auth st of
        None \<Rightarrow> map_of (mb_authorizations b) = map_of (mb_authorizations b0) \<and> mb_reserved_bytes b = mb_reserved_bytes b0
      | Some i \<Rightarrow> (\<exists>est. map_of (mb_authorizations b0) i = None
            \<and> map_of (mb_authorizations b) = (map_of (mb_authorizations b0))(i \<mapsto> est)
            \<and> mb_reserved_bytes b = mb_reserved_bytes b0 + int est)) \<and>
     mb_requests b = mb_requests b0 + int (length (sends history)) + (if ps_auth st \<noteq> None \<and> \<not> ps_sent st then 1 else 0)"

lemma spent_authorize:
  assumes "spent b0 history st b" "ps_idle st" "mb_authorize est b = (a, b')"
  shows "spent b0 history (case a of Some i \<Rightarrow> \<lparr>ps_auth = Some i, ps_permit = False, ps_sent = False\<rparr> | None \<Rightarrow> st) b'"
proof (cases a)
  case None
  with assms show ?thesis by (auto simp: mb_authorize_def Let_def split: if_splits)
next
  case (Some i)
  have "mb_inv b'" using assms(1,3) mb_inv_ops(1) by (metis snd_conv spent_def)
  have "od_below (mb_next_authorization_id b) (mb_authorizations b)"
    "map_of (mb_authorizations b) = map_of (mb_authorizations b0)"
    using assms(1,2) by (auto simp: spent_def ps_idle_def mb_inv_def)
  then have "map_of (mb_authorizations b0) (mb_next_authorization_id b) = None"
    by (metis od_below_fresh)
  with \<open>mb_inv b'\<close> Some assms show ?thesis
    by (auto simp: spent_def ps_idle_def mb_authorize_def Let_def od_simps split: if_splits)
qed

lemma spent_settle:
  assumes "spent b0 history st b" "ps_auth st = Some i"
  shows "ps_sent st \<Longrightarrow> spent b0 history (st\<lparr>ps_auth := None\<rparr>) (snd (mb_reconcile i (int n) b))"
    and "\<not> ps_sent st \<Longrightarrow> spent b0 history (st\<lparr>ps_auth := None\<rparr>) (snd (mb_release i b))"
proof -
  obtain est where e: "map_of (mb_authorizations b0) i = None"
      "map_of (mb_authorizations b) = (map_of (mb_authorizations b0))(i \<mapsto> est)"
      "mb_reserved_bytes b = mb_reserved_bytes b0 + int est" "mb_inv b"
    using assms by (auto simp: spent_def)
  have undo: "((map_of (mb_authorizations b0))(i \<mapsto> est))(i := None) = map_of (mb_authorizations b0)"
    using e(1) by (auto simp: fun_upd_def)
  have "mb_inv (snd (mb_reconcile i (int n) b))" "mb_inv (snd (mb_release i b))"
    using e(4) by (simp_all add: mb_inv_ops)
  moreover have "snd (mb_reconcile i (int n) b) = b\<lparr>mb_authorizations := od_pop i (mb_authorizations b),
      mb_reserved_bytes := mb_reserved_bytes b - int est, mb_bytes := mb_bytes b + int n\<rparr>"
    "snd (mb_release i b) = b\<lparr>mb_authorizations := od_pop i (mb_authorizations b),
      mb_requests := mb_requests b - 1, mb_reserved_bytes := mb_reserved_bytes b - int est\<rparr>"
    using e(2) by (simp_all add: mb_reconcile_def mb_release_def)
  ultimately show "ps_sent st \<Longrightarrow> spent b0 history (st\<lparr>ps_auth := None\<rparr>) (snd (mb_reconcile i (int n) b))"
    "\<not> ps_sent st \<Longrightarrow> spent b0 history (st\<lparr>ps_auth := None\<rparr>) (snd (mb_release i b))"
    using assms e(2,3) undo by (simp_all add: spent_def od_simps)
qed

fun is_budget_call :: "mt_call \<Rightarrow> bool" where
  "is_budget_call (MAuthorize _ _) = True"
| "is_budget_call (MReconcile _ _ _) = True"
| "is_budget_call (MReleaseAuth _ _) = True"
| "is_budget_call _ = False"

lemma budget_after_other: "\<not> is_budget_call c \<Longrightarrow> budget_after b0 (c # history) = budget_after b0 history"
  by (cases c) auto

lemma spent_other:
  assumes "spent b0 history st0 b" "\<not> is_budget_call c" "proto_step True limiter st0 c = Some st"
  shows "spent b0 (c # history) st b"
  using assms by (cases c) (auto simp: spent_def ps_idle_def split: if_splits sum.splits option.splits)

lemma budget_after_spent:
  "mb_inv b0 \<Longrightarrow> budget_after b0 history = Some b \<Longrightarrow> proto True limiter history = Some st \<Longrightarrow> spent b0 history st b"
proof (induction history arbitrary: b st)
  case Nil
  then show ?case by (auto simp: spent_def ps_init_def)
next
  case (Cons c history)
  obtain st0 where st0: "proto True limiter history = Some st0" "proto_step True limiter st0 c = Some st"
    using Cons(4) by (auto split: option.splits)
  have other: ?case if "\<not> is_budget_call c"
    using Cons(3) that spent_other [OF Cons.IH [OF Cons(2) _ st0(1)] that st0(2)] by (simp add: budget_after_other)
  show ?case
  proof (cases c)
    case (MAuthorize r res)
    with Cons(3) obtain b1 where b1: "budget_after b0 history = Some b1"
      "res = Inr (fst (mb_authorize (req_estimated_bytes r) b1))" "b = snd (mb_authorize (req_estimated_bytes r) b1)"
      by (auto split: option.splits if_splits)
    have "ps_idle st0" using st0(2) MAuthorize by (simp split: if_splits)
    from spent_authorize [OF Cons.IH [OF Cons(2) b1(1) st0(1)] this, of "req_estimated_bytes r"
        "fst (mb_authorize (req_estimated_bytes r) b1)" b] b1 st0(2) MAuthorize
    show ?thesis by (auto simp: spent_def split: if_splits option.splits)
  next
    case (MReconcile i n res)
    with Cons(3) obtain b1 where b1: "budget_after b0 history = Some b1" "b = snd (mb_reconcile i (int n) b1)"
      by (auto split: option.splits)
    with MReconcile st0 spent_settle(1) [OF Cons.IH [OF Cons(2) b1(1) st0(1)], of i n] show ?thesis
      by (auto simp: spent_def split: if_splits)
  next
    case (MReleaseAuth i res)
    with Cons(3) obtain b1 where b1: "budget_after b0 history = Some b1" "b = snd (mb_release i b1)"
      by (auto split: option.splits)
    with MReleaseAuth st0 spent_settle(2) [OF Cons.IH [OF Cons(2) b1(1) st0(1)], of i] show ?thesis
      by (auto simp: spent_def split: if_splits)
  qed (use other in simp_all)
qed

subsection \<open>Property\<close>


lemma sample_budgeted_run:
  "\<exists>w. mt_request sample_config (budgeted sample_ops) ''id'' (sample_get ''http://a/b'')
       \<lparr>w_env = (memory_budget_init (Some 5) None, 0), w_log = []\<rparr> = (Inr sample_response, w)
     \<and> \<not> cancelled_release (w_log w) \<and> length (sends (w_log w)) = 2"
  by (simp add: mt_eval sample_config_def sample_ops_def sample_cache_def sample_get_def sample_response_def
      default_backoff_def budgeted_def cache_beside_def limiter_beside_def memory_budget_ops_def beside_def
      memory_budget_init_def mb_authorize_def mb_affordable_def mb_reconcile_def od_set_def od_pop_def
      cancelled_release_def)


end
