(* ===== verification/Rate_Limit.thy ===== *)
theory Rate_Limit
  imports Urls Effects
begin

section \<open>Per-origin rate limiting\<close>

text \<open>
  \<^verbatim>\<open>transports/rate_limit.py\<close>.  Between the semaphore acquisition and the sleep, \<^verbatim>\<open>wait\<close> does not
  suspend (the pacing lock is never held across an \<^verbatim>\<open>await\<close>, so it is always free), so the two are
  one atomic step \<open>rl_begin\<close> with the two clock readings of the code as arguments; a waiter that
  finds no permit stays blocked.  The sleep ends normally or with an exception, which returns the
  permit (\<open>rl_abort\<close>).
\<close>

subsection \<open>Origins\<close>

text \<open>The tuple of scheme, host and port.\<close>

datatype origin = Origin string string nat

text \<open>\<^verbatim>\<open>hostname.encode("idna")\<close> on ASCII: labels are nonempty and short, the last may be empty.\<close>

definition idna_ascii :: "string \<Rightarrow> exn + string" where
  "idna_ascii host =
     (let labels = py_split (CHR ''.'') host in
      if list_all (\<lambda>l. 0 < length l \<and> length l < 64) (butlast labels) \<and> length (last labels) < 64
      then Inr host else Inl (ValueError ''label empty or too long''))"

definition origin_of :: "string \<Rightarrow> exn + origin" where
  "origin_of url =
     (case urlsplit url of
        Inl _ \<Rightarrow> Inl (ValueError ''request URL has an invalid origin'')
      | Inr parsed \<Rightarrow> (case us_port parsed of
            Inl _ \<Rightarrow> Inl (ValueError ''request URL has an invalid origin'')
          | Inr port \<Rightarrow>
             (let scheme = py_lower (us_scheme parsed) in
              case us_hostname parsed of
                None \<Rightarrow> Inl (ValueError ''request URL must have an HTTP(S) origin'')
              | Some hostname \<Rightarrow>
                 if scheme \<notin> {''http'', ''https''}
                 then Inl (ValueError ''request URL must have an HTTP(S) origin'')
                 else (case idna_ascii hostname of
                     Inl _ \<Rightarrow> Inl (ValueError ''request URL has an invalid hostname'')
                   | Inr normalized_host \<Rightarrow>
                      Inr (Origin scheme (py_lower normalized_host)
                        (case port of Some p \<Rightarrow> if p = 0 then (if scheme = ''https'' then 443 else 80) else p
                         | None \<Rightarrow> if scheme = ''https'' then 443 else 80))))))"

subsection \<open>The limiter\<close>

record origin_state =
  os_permits :: nat
  os_next_start :: rat

record limiter =
  rl_delay :: rat
  rl_concurrency :: nat
  rl_states :: "(origin, origin_state) odict"

definition limiter_init :: "pyfloat \<Rightarrow> int \<Rightarrow> exn + limiter" where
  "limiter_init delay concurrency =
     (case delay of
        PFin d \<Rightarrow>
          if d < 0 then Inl (ValueError ''delay must be a finite non-negative number'')
          else if concurrency < 1 then Inl (ValueError ''concurrency must be a positive integer'')
          else Inr \<lparr>rl_delay = d, rl_concurrency = nat concurrency, rl_states = []\<rparr>
      | _ \<Rightarrow> Inl (ValueError ''delay must be a finite non-negative number''))"

definition rl_state_for :: "string \<Rightarrow> limiter \<Rightarrow> exn + (origin \<times> origin_state \<times> limiter)" where
  "rl_state_for url l =
     (case origin_of url of Inl e \<Rightarrow> Inl e
      | Inr origin \<Rightarrow> (case map_of (rl_states l) origin of
            Some state \<Rightarrow> Inr (origin, state, l)
          | None \<Rightarrow> (let state = \<lparr>os_permits = rl_concurrency l, os_next_start = 0\<rparr> in
              Inr (origin, state, l\<lparr>rl_states := od_set origin state (rl_states l)\<rparr>))))"

text \<open>
  \<^verbatim>\<open>wait\<close> up to its sleep: \<open>Inr None\<close> while no permit is free, otherwise \<open>Inr (Some remaining)\<close>
  with the time left to sleep (no sleep if it is not positive).
\<close>

definition rl_begin :: "rat \<Rightarrow> rat \<Rightarrow> string \<Rightarrow> limiter \<Rightarrow> (exn + rat option) \<times> limiter" where
  "rl_begin now1 now2 url l =
     (case rl_state_for url l of Inl e \<Rightarrow> (Inl e, l)
      | Inr (origin, state, l1) \<Rightarrow>
          if os_permits state = 0 then (Inr None, l1)
          else (let remaining = os_next_start state - now1 in
            (Inr (Some remaining),
             l1\<lparr>rl_states := od_set origin
                \<lparr>os_permits = os_permits state - 1,
                 os_next_start = max (os_next_start state) now2 + rl_delay l1\<rparr> (rl_states l1)\<rparr>)))"

definition rl_return_permit :: "origin \<Rightarrow> origin_state \<Rightarrow> limiter \<Rightarrow> limiter" where
  "rl_return_permit origin state l =
     l\<lparr>rl_states := od_set origin (state\<lparr>os_permits := os_permits state + 1\<rparr>) (rl_states l)\<rparr>"

text \<open>The \<^verbatim>\<open>BoundedSemaphore\<close> refuses to exceed its initial value.\<close>

definition rl_release :: "string \<Rightarrow> limiter \<Rightarrow> (exn + unit) \<times> limiter" where
  "rl_release url l =
     (case rl_state_for url l of Inl e \<Rightarrow> (Inl e, l)
      | Inr (origin, state, l1) \<Rightarrow>
          if os_permits state \<ge> rl_concurrency l1
          then (Inl (RuntimeErr ''rate limiter permit released without a matching wait''), l1)
          else (Inr (), rl_return_permit origin state l1))"

definition rl_abort :: "origin \<Rightarrow> limiter \<Rightarrow> limiter" where
  "rl_abort origin l =
     (case map_of (rl_states l) origin of None \<Rightarrow> l
      | Some state \<Rightarrow> if os_permits state \<ge> rl_concurrency l then l else rl_return_permit origin state l)"

subsection \<open>Tasks and permits\<close>

text \<open>
  Tasks that use one limiter: a task sleeps inside \<^verbatim>\<open>wait\<close> or holds its permit after it; the permit
  is recorded with the URL of its request.
\<close>

datatype permit = Sleeping string | Holding string

fun permit_url :: "permit \<Rightarrow> string" where
  "permit_url (Sleeping url) = url"
| "permit_url (Holding url) = url"

inductive rl_step :: "limiter \<times> (nat \<rightharpoonup> permit) \<Rightarrow> limiter \<times> (nat \<rightharpoonup> permit) \<Rightarrow> bool" where
  step_begin: "T t = None \<Longrightarrow> rl_begin now1 now2 url l = (Inr (Some remaining), l') \<Longrightarrow>
     rl_step (l, T) (l', T(t \<mapsto> if remaining > 0 then Sleeping url else Holding url))"
| step_blocked: "T t = None \<Longrightarrow> rl_begin now1 now2 url l = (Inr None, l') \<Longrightarrow> rl_step (l, T) (l', T)"
| step_woken: "T t = Some (Sleeping url) \<Longrightarrow> rl_step (l, T) (l, T(t \<mapsto> Holding url))"
| step_abort: "T t = Some (Sleeping url) \<Longrightarrow> origin_of url = Inr origin \<Longrightarrow>
     rl_step (l, T) (rl_abort origin l, T(t := None))"
| step_release: "T t = Some (Holding url) \<Longrightarrow> rl_release url l = (Inr (), l') \<Longrightarrow>
     rl_step (l, T) (l', T(t := None))"

definition in_flight :: "origin \<Rightarrow> (nat \<rightharpoonup> permit) \<Rightarrow> nat set" where
  "in_flight origin T = {t. \<exists>p. T t = Some p \<and> origin_of (permit_url p) = Inr origin}"

definition rl_permits :: "origin \<Rightarrow> limiter \<Rightarrow> nat" where
  "rl_permits origin l = (case map_of (rl_states l) origin of None \<Rightarrow> rl_concurrency l | Some s \<Rightarrow> os_permits s)"

text \<open>Every permit is free or held by a task.\<close>

definition rl_inv :: "limiter \<times> (nat \<rightharpoonup> permit) \<Rightarrow> bool" where
  "rl_inv s = (case s of (l, T) \<Rightarrow>
     finite (dom T) \<and> (\<forall>t p. T t = Some p \<longrightarrow> (\<exists>origin. origin_of (permit_url p) = Inr origin)) \<and>
     (\<forall>origin. rl_permits origin l + card (in_flight origin T) = rl_concurrency l))"

lemma rl_permits_set:
  "rl_permits x (l\<lparr>rl_states := od_set orig st (rl_states l)\<rparr>) = (if x = orig then os_permits st else rl_permits x l)"
  by (simp add: rl_permits_def od_simps split: option.split)

lemma rl_state_for_cases:
  assumes "rl_state_for url l = Inr (orig, st, l1)"
  obtains (known) "origin_of url = Inr orig" "map_of (rl_states l) orig = Some st" "l1 = l"
  | (new) "origin_of url = Inr orig" "map_of (rl_states l) orig = None"
      "st = \<lparr>os_permits = rl_concurrency l, os_next_start = 0\<rparr>"
      "l1 = l\<lparr>rl_states := od_set orig st (rl_states l)\<rparr>"
proof (cases "origin_of url")
  case (Inr x)
  show thesis
  proof (cases "map_of (rl_states l) x")
    case None
    with Inr assms show thesis by (intro new) (auto simp: rl_state_for_def Let_def)
  next
    case (Some s)
    with Inr assms show thesis by (intro known) (simp_all add: rl_state_for_def)
  qed
qed (use assms in \<open>simp add: rl_state_for_def\<close>)

lemma rl_state_for_spec:
  assumes "rl_state_for url l = Inr (orig, st, l1)"
  shows "origin_of url = Inr orig" "rl_permits x l1 = rl_permits x l"
    "rl_concurrency l1 = rl_concurrency l" "os_permits st = rl_permits orig l"
  using assms by (cases rule: rl_state_for_cases; simp add: rl_permits_set; simp add: rl_permits_def)+

lemma rl_begin_Some:
  assumes "rl_begin now1 now2 url l = (Inr (Some remaining), l')"
  obtains orig where "origin_of url = Inr orig" "0 < rl_permits orig l"
    "\<And>x. rl_permits x l' = (if x = orig then rl_permits orig l - 1 else rl_permits x l)"
    "rl_concurrency l' = rl_concurrency l"
proof -
  obtain orig st l1 where st: "rl_state_for url l = Inr (orig, st, l1)" "os_permits st \<noteq> 0"
    and l': "l' = l1\<lparr>rl_states := od_set orig \<lparr>os_permits = os_permits st - 1,
       os_next_start = max (os_next_start st) now2 + rl_delay l1\<rparr> (rl_states l1)\<rparr>"
    using assms by (auto simp: rl_begin_def Let_def split: sum.splits if_splits)
  note s = rl_state_for_spec [OF st(1)]
  show thesis
    by (rule that [of orig]) (use st(2) in \<open>simp_all add: l' rl_permits_set s\<close>)
qed

lemma rl_begin_None:
  assumes "rl_begin now1 now2 url l = (Inr None, l')"
  shows "rl_permits x l' = rl_permits x l \<and> rl_concurrency l' = rl_concurrency l
     \<and> (\<exists>orig. origin_of url = Inr orig \<and> rl_permits orig l = 0)"
proof -
  obtain orig st where st: "rl_state_for url l = Inr (orig, st, l')" "os_permits st = 0"
    using assms by (auto simp: rl_begin_def Let_def split: sum.splits if_splits)
  from rl_state_for_spec [OF st(1)] st(2) show ?thesis by metis
qed

lemma rl_release_Inr:
  assumes "rl_release url l = (Inr (), l')"
  obtains orig where "origin_of url = Inr orig"
    "\<And>x. rl_permits x l' = (if x = orig then rl_permits orig l + 1 else rl_permits x l)"
    "rl_concurrency l' = rl_concurrency l"
proof -
  obtain orig st l1 where st: "rl_state_for url l = Inr (orig, st, l1)"
    and l': "l' = rl_return_permit orig st l1"
    using assms by (auto simp: rl_release_def split: sum.splits if_splits)
  note s = rl_state_for_spec [OF st]
  show thesis
    by (rule that [of orig]) (simp_all add: l' rl_return_permit_def rl_permits_set s)
qed

lemma rl_release_eq:
  assumes "origin_of url = Inr orig"
  shows "(\<exists>l'. rl_release url l = (Inr (), l')) \<longleftrightarrow> rl_permits orig l < rl_concurrency l"
proof -
  obtain st l1 where st: "rl_state_for url l = Inr (orig, st, l1)"
    using assms by (cases "map_of (rl_states l) orig") (simp_all add: rl_state_for_def Let_def)
  from rl_state_for_spec [OF st] show ?thesis by (auto simp: rl_release_def st)
qed

lemma rl_abort_permits:
  assumes "rl_permits orig l < rl_concurrency l"
  shows "rl_permits x (rl_abort orig l) = (if x = orig then rl_permits orig l + 1 else rl_permits x l)"
    "rl_concurrency (rl_abort orig l) = rl_concurrency l"
  using assms
  by (cases "map_of (rl_states l) orig"; simp add: rl_abort_def rl_return_permit_def rl_permits_set;
      simp add: rl_permits_def)+

lemma in_flight_finite: "finite (dom T) \<Longrightarrow> finite (in_flight x T)"
  by (rule finite_subset [of _ "dom T"]) (auto simp: in_flight_def)

lemma in_flight_add:
  "T t = None \<Longrightarrow> in_flight x (T(t \<mapsto> p)) =
     (if origin_of (permit_url p) = Inr x then insert t (in_flight x T) else in_flight x T)"
  by (auto simp: in_flight_def)

lemma in_flight_remove: "in_flight x (T(t := None)) = in_flight x T - {t}"
  by (auto simp: in_flight_def)

lemma in_flight_mem:
  "T t = Some p \<Longrightarrow> t \<in> in_flight x T \<longleftrightarrow> origin_of (permit_url p) = Inr x"
  by (simp add: in_flight_def)

lemma in_flight_woken: "T t = Some (Sleeping url) \<Longrightarrow> in_flight x (T(t \<mapsto> Holding url)) = in_flight x T"
  by (auto simp: in_flight_def)

lemma card_in_flight_remove:
  assumes "finite (dom T)" "T t = Some p" "origin_of (permit_url p) = Inr orig"
  shows "card (in_flight x T) = card (in_flight x (T(t := None))) + (if x = orig then 1 else 0)"
proof (cases "x = orig")
  case True
  then have "t \<in> in_flight x T" using assms in_flight_mem by metis
  from card.remove [OF in_flight_finite [OF assms(1)] this] True show ?thesis
    by (simp add: in_flight_remove)
next
  case False
  then have "t \<notin> in_flight x T" using assms(2,3) by (auto simp: in_flight_def)
  with False show ?thesis by (simp add: in_flight_remove)
qed

lemma rl_step_inv:
  assumes "rl_step s s'" "rl_inv s" shows "rl_inv s'"
  using assms
proof (cases rule: rl_step.cases)
  case (step_begin T t now1 now2 url l remaining l')
  let ?p = "if remaining > 0 then Sleeping url else Holding url"
  obtain orig where b: "origin_of url = Inr orig" "0 < rl_permits orig l"
    "\<And>x. rl_permits x l' = (if x = orig then rl_permits orig l - 1 else rl_permits x l)"
    "rl_concurrency l' = rl_concurrency l"
    using rl_begin_Some [OF step_begin(4)] by metis
  have url: "permit_url ?p = url" by simp
  have bal: "rl_permits x l + card (in_flight x T) = rl_concurrency l" for x
    using assms(2) step_begin(1) by (simp add: rl_inv_def)
  have fin: "finite (in_flight x T)" for x
    using assms(2) step_begin(1) by (simp add: rl_inv_def in_flight_finite)
  have "t \<notin> in_flight x T" for x using step_begin(3) by (simp add: in_flight_def)
  then have "card (in_flight x (T(t \<mapsto> ?p))) = card (in_flight x T) + (if x = orig then 1 else 0)" for x
    using in_flight_add [of T t x ?p] step_begin(3) b(1) fin [of x] by (auto simp: url)
  then have "rl_permits x l' + card (in_flight x (T(t \<mapsto> ?p))) = rl_concurrency l'" for x
    using bal [of x] b by (cases "x = orig") auto
  with assms(2) step_begin(1,2) b(1) show ?thesis by (auto simp: rl_inv_def)
next
  case (step_blocked T t now1 now2 url l l')
  with assms(2) rl_begin_None [OF step_blocked(4)] show ?thesis by (simp add: rl_inv_def)
next
  case (step_woken T t url l)
  with assms(2) show ?thesis
    by (auto simp: rl_inv_def in_flight_woken) (metis permit_url.simps(1))
next
  case (step_abort T t url orig l)
  have fin: "finite (dom T)" and bal: "rl_permits x l + card (in_flight x T) = rl_concurrency l" for x
    using assms(2) step_abort(1) by (simp_all add: rl_inv_def)
  note c = card_in_flight_remove [OF fin step_abort(3), simplified, OF step_abort(4)]
  have "rl_permits orig l < rl_concurrency l" using bal [of orig] c [of orig] by simp
  note a = rl_abort_permits [OF this]
  have "rl_permits x (rl_abort orig l) + card (in_flight x (T(t := None))) = rl_concurrency (rl_abort orig l)" for x
    using bal [of x] c [of x] a(1) [of x] a(2) by (auto split: if_splits)
  with assms(2) step_abort(1,2) show ?thesis by (auto simp: rl_inv_def)
next
  case (step_release T t url l l')
  have fin: "finite (dom T)" and bal: "rl_permits x l + card (in_flight x T) = rl_concurrency l" for x
    using assms(2) step_release(1) by (simp_all add: rl_inv_def)
  obtain orig where r: "origin_of url = Inr orig"
    "\<And>x. rl_permits x l' = (if x = orig then rl_permits orig l + 1 else rl_permits x l)"
    "rl_concurrency l' = rl_concurrency l"
    using rl_release_Inr [OF step_release(4)] by metis
  note c = card_in_flight_remove [OF fin step_release(3), simplified, OF r(1)]
  have "rl_permits x l' + card (in_flight x (T(t := None))) = rl_concurrency l'" for x
    using bal [of x] c [of x] r(2,3) by (auto split: if_splits)
  with assms(2) step_release(1,2) show ?thesis by (auto simp: rl_inv_def)
qed

subsection \<open>Pacing\<close>

text \<open>
  \<open>rl_run\<close> performs operations of any tasks in their order.  For every \<^verbatim>\<open>wait\<close> that obtained a permit
  it records the origin and the earliest time at which that \<^verbatim>\<open>wait\<close> returns.
\<close>

datatype rl_event = BeginEv rat rat string | ReleaseEv string | AbortEv origin

fun rl_apply :: "limiter \<Rightarrow> rl_event \<Rightarrow> (origin \<times> rat) list \<times> limiter" where
  "rl_apply l (BeginEv now1 now2 url) =
     (case rl_begin now1 now2 url l of
        (Inr (Some remaining), l') \<Rightarrow>
          ((case origin_of url of Inr origin \<Rightarrow> [(origin, now1 + max 0 remaining)] | Inl _ \<Rightarrow> []), l')
      | (_, l') \<Rightarrow> ([], l'))"
| "rl_apply l (ReleaseEv url) = ([], snd (rl_release url l))"
| "rl_apply l (AbortEv origin) = ([], rl_abort origin l)"

fun rl_run :: "limiter \<Rightarrow> rl_event list \<Rightarrow> (origin \<times> rat) list" where
  "rl_run l [] = []"
| "rl_run l (e # es) = (case rl_apply l e of (starts, l') \<Rightarrow> starts @ rl_run l' es)"

fun clock_ok :: "rl_event \<Rightarrow> bool" where
  "clock_ok (BeginEv now1 now2 url) = (now1 \<le> now2)"
| "clock_ok _ = True"

definition starts_at :: "origin \<Rightarrow> (origin \<times> rat) list \<Rightarrow> rat list" where
  "starts_at x starts = map snd (filter (\<lambda>e. fst e = x) starts)"

definition rl_next :: "origin \<Rightarrow> limiter \<Rightarrow> rat" where
  "rl_next x l = (case map_of (rl_states l) x of None \<Rightarrow> 0 | Some s \<Rightarrow> os_next_start s)"

text \<open>Consecutive elements, and a bound on the first, are at least \<open>d\<close> apart.\<close>

fun spaced :: "rat \<Rightarrow> rat \<Rightarrow> rat list \<Rightarrow> bool" where
  "spaced d lo [] = True"
| "spaced d lo (t # ts) = (lo \<le> t \<and> spaced d (t + d) ts)"

lemma spaced_mono: "spaced d lo ts \<Longrightarrow> lo' \<le> lo \<Longrightarrow> spaced d lo' ts"
  by (cases ts) auto

lemma spaced_nth0: "spaced d lo ts \<Longrightarrow> j < length ts \<Longrightarrow> lo + of_nat j * d \<le> ts ! j"
proof (induction d lo ts arbitrary: j rule: spaced.induct)
  case (2 d lo t ts)
  show ?case
  proof (cases j)
    case (Suc k)
    with 2 have "t + d + of_nat k * d \<le> ts ! k" by simp
    with 2(2) Suc show ?thesis by (simp add: algebra_simps)
  qed (use 2 in simp)
qed simp

lemma spaced_nth: "spaced d lo ts \<Longrightarrow> i < j \<Longrightarrow> j < length ts \<Longrightarrow> ts ! i + of_nat (j - i) * d \<le> ts ! j"
proof (induction d lo ts arbitrary: i j rule: spaced.induct)
  case (2 d lo t ts)
  show ?case
  proof (cases i)
    case 0
    with 2(3) obtain k where j: "j = Suc k" by (cases j) auto
    with 2 spaced_nth0 [of d "t + d" ts k] 0 show ?thesis by (simp add: algebra_simps)
  next
    case (Suc k)
    with 2 show ?thesis by (cases j) auto
  qed
qed simp

lemma rl_begin_next:
  assumes "rl_begin now1 now2 url l = (Inr (Some remaining), l')" "origin_of url = Inr orig"
  shows "rl_next x l' = (if x = orig then max (rl_next orig l) now2 + rl_delay l else rl_next x l)"
    "remaining = rl_next orig l - now1" "rl_delay l' = rl_delay l"
proof -
  obtain o1 st l1 where st: "rl_state_for url l = Inr (o1, st, l1)"
    and r: "remaining = os_next_start st - now1"
    and l': "l' = l1\<lparr>rl_states := od_set o1 \<lparr>os_permits = os_permits st - 1,
       os_next_start = max (os_next_start st) now2 + rl_delay l1\<rparr> (rl_states l1)\<rparr>"
    using assms(1) by (auto simp: rl_begin_def Let_def split: sum.splits if_splits)
  from st show "rl_next x l' = (if x = orig then max (rl_next orig l) now2 + rl_delay l else rl_next x l)"
      "remaining = rl_next orig l - now1" "rl_delay l' = rl_delay l"
    by (cases rule: rl_state_for_cases; use assms(2) in \<open>simp add: l' r rl_next_def od_simps\<close>)+
qed

lemma rl_other_next:
  "rl_begin now1 now2 url l = (Inr None, l') \<or> rl_begin now1 now2 url l = (Inl e, l') \<Longrightarrow>
     rl_next x l' = rl_next x l \<and> rl_delay l' = rl_delay l"
  by (auto simp: rl_begin_def Let_def rl_next_def rl_state_for_def od_simps
      split: sum.splits if_splits option.splits)

lemma rl_return_next:
  "map_of (rl_states l) orig = Some st \<Longrightarrow> rl_next x (rl_return_permit orig st l) = rl_next x l"
  by (simp add: rl_return_permit_def rl_next_def od_simps)

lemma rl_state_for_next:
  assumes "rl_state_for url l = Inr (orig, st, l1)"
  shows "rl_next x l1 = rl_next x l" "map_of (rl_states l1) orig = Some st" "rl_delay l1 = rl_delay l"
  using assms by (cases rule: rl_state_for_cases; auto simp: rl_next_def od_simps)+

lemma rl_release_next:
  "rl_next x (snd (rl_release url l)) = rl_next x l \<and> rl_delay (snd (rl_release url l)) = rl_delay l"
proof (cases "rl_state_for url l")
  case (Inr r)
  then obtain orig st l1 where st: "rl_state_for url l = Inr (orig, st, l1)" by (cases r) auto
  from rl_state_for_next [OF this] show ?thesis
    by (auto simp: rl_release_def st rl_return_next) (simp add: rl_return_permit_def)
qed (simp add: rl_release_def)

lemma rl_abort_next: "rl_next x (rl_abort orig l) = rl_next x l \<and> rl_delay (rl_abort orig l) = rl_delay l"
  by (auto simp: rl_abort_def rl_return_next split: option.split) (simp add: rl_return_permit_def)

lemma rl_run_spaced:
  "list_all clock_ok es \<Longrightarrow> spaced (rl_delay l) (rl_next x l) (starts_at x (rl_run l es))"
proof (induction es arbitrary: l)
  case (Cons e es)
  obtain starts l' where ap: "rl_apply l e = (starts, l')" by fastforce
  have run: "starts_at x (rl_run l (e # es)) = starts_at x starts @ starts_at x (rl_run l' es)"
    by (simp add: ap starts_at_def)
  have IH: "spaced (rl_delay l') (rl_next x l') (starts_at x (rl_run l' es))" using Cons by simp
  show ?case
  proof (cases "\<exists>now1 now2 url remaining. e = BeginEv now1 now2 url
      \<and> rl_begin now1 now2 url l = (Inr (Some remaining), l')")
    case True
    then obtain now1 now2 url remaining where e: "e = BeginEv now1 now2 url"
      and b: "rl_begin now1 now2 url l = (Inr (Some remaining), l')" by blast
    from rl_begin_Some [OF b] obtain orig where orig: "origin_of url = Inr orig" by metis
    note n = rl_begin_next [OF b orig]
    have starts: "starts = [(orig, now1 + max 0 remaining)]" using ap e b orig by simp
    have "now1 \<le> now2" using Cons(2) e by simp
    with IH n(1) [of x] n(3) show ?thesis
      unfolding run starts
      by (cases "x = orig") (auto simp: starts_at_def n(2) max_def intro: spaced_mono split: if_splits)
  next
    case False
    have "starts = [] \<and> rl_next x l' = rl_next x l \<and> rl_delay l' = rl_delay l"
    proof (cases e)
      case (BeginEv now1 now2 url)
      obtain r l2 where b: "rl_begin now1 now2 url l = (r, l2)" by fastforce
      have "starts = [] \<and> l' = l2 \<and> (r = Inr None \<or> (\<exists>e. r = Inl e))"
      proof (cases r)
        case (Inr m)
        with ap False b BeginEv show ?thesis by (cases m) auto
      qed (use ap b BeginEv in auto)
      with b rl_other_next [of now1 now2 url l l2] show ?thesis by blast
    next
      case (ReleaseEv url)
      with ap rl_release_next show ?thesis by auto
    next
      case (AbortEv orig)
      with ap rl_abort_next show ?thesis by auto
    qed
    with IH show ?thesis unfolding run by (simp add: starts_at_def)
  qed
qed (simp add: starts_at_def)

subsection \<open>Properties\<close>

lemma limiter_init_Inr:
  "limiter_init (PFin d) c = Inr l \<Longrightarrow> 0 \<le> d \<and> 1 \<le> c \<and> l = \<lparr>rl_delay = d, rl_concurrency = nat c, rl_states = []\<rparr>"
  by (auto simp: limiter_init_def split: if_splits)

lemma rl_inv_init: "limiter_init (PFin d) c = Inr l \<Longrightarrow> rl_inv (l, Map.empty)"
  by (auto dest!: limiter_init_Inr simp: rl_inv_def rl_permits_def in_flight_def)

lemma rl_step_concurrency: "rl_step s s' \<Longrightarrow> rl_concurrency (fst s') = rl_concurrency (fst s)"
proof (induction rule: rl_step.induct)
  case (step_begin T t now1 now2 url l remaining l')
  then show ?case using rl_begin_Some by (metis fst_conv)
next
  case (step_release T t url l l')
  then show ?case using rl_release_Inr by (metis fst_conv)
qed (auto dest: rl_begin_None simp: rl_abort_def rl_return_permit_def split: option.split)

lemma rl_reachable:
  "rl_step\<^sup>*\<^sup>* s s' \<Longrightarrow> rl_inv s \<Longrightarrow> rl_inv s' \<and> rl_concurrency (fst s') = rl_concurrency (fst s)"
  by (induction rule: rtranclp_induct) (auto simp: rl_step_inv rl_step_concurrency)

text \<open>
  C15. In-flight work per origin is bounded and permits are paired.  In every state that concurrent
  tasks can reach, at most \<open>concurrency\<close> tasks per origin sleep in or have returned from \<^verbatim>\<open>wait\<close>
  without releasing; a further \<^verbatim>\<open>wait\<close> is blocked exactly when that many are in flight; the
  release of a task that holds a permit succeeds, and a release when no task has a permit for the
  origin raises.
\<close>

theorem rate_limit_permits:
  assumes "limiter_init (PFin d) c = Inr l0" and "rl_step\<^sup>*\<^sup>* (l0, Map.empty) (l, T)"
    and "origin_of url = Inr orig"
  shows "int (card (in_flight orig T)) \<le> c \<and>
    ((\<exists>l'. rl_begin now1 now2 url l = (Inr None, l')) \<longleftrightarrow> int (card (in_flight orig T)) = c) \<and>
    (T t = Some (Holding url) \<longrightarrow> (\<exists>l'. rl_release url l = (Inr (), l'))) \<and>
    (in_flight orig T = {} \<longrightarrow> \<not> (\<exists>l'. rl_release url l = (Inr (), l')))"
proof -
  have inv: "rl_inv (l, T)" and conc: "rl_concurrency l = nat c" and c: "1 \<le> c"
    using rl_reachable [OF assms(2) rl_inv_init [OF assms(1)]] limiter_init_Inr [OF assms(1)] by auto
  have bal: "rl_permits orig l + card (in_flight orig T) = rl_concurrency l"
    and fin: "finite (in_flight orig T)"
    using inv by (simp_all add: rl_inv_def in_flight_finite)
  obtain st l1 where st: "rl_state_for url l = Inr (orig, st, l1)"
    using assms(3) by (cases "map_of (rl_states l) orig") (simp_all add: rl_state_for_def Let_def)
  have blocked: "(\<exists>l'. rl_begin now1 now2 url l = (Inr None, l')) \<longleftrightarrow> rl_permits orig l = 0"
    using rl_state_for_spec(4) [OF st] by (simp add: rl_begin_def st Let_def)
  have "T t = Some (Holding url) \<Longrightarrow> 0 < card (in_flight orig T)"
    using fin assms(3) in_flight_mem [of T t "Holding url" orig] by (auto simp: card_gt_0_iff)
  with bal conc c show ?thesis
    unfolding blocked rl_release_eq [OF assms(3)] by auto
qed

text \<open>
  C16. Starts are spaced.  Whatever operations tasks perform on one limiter, and whatever the clock
  reads as long as it does not run backwards within a \<^verbatim>\<open>wait\<close>, the \<open>j\<close>-th \<^verbatim>\<open>wait\<close> on an origin
  returns no earlier than the earliest return of the \<open>i\<close>-th plus \<open>(j - i)\<close> delays.
\<close>

theorem rate_limit_spacing:
  assumes "limiter_init (PFin d) c = Inr l" and "list_all clock_ok es"
    and "i < j" and "j < length (starts_at orig (rl_run l es))"
  shows "starts_at orig (rl_run l es) ! i + of_nat (j - i) * d \<le> starts_at orig (rl_run l es) ! j"
  using spaced_nth [OF rl_run_spaced [OF assms(2), of l] assms(3,4)] limiter_init_Inr [OF assms(1)]
  by simp

definition sample_limiter :: limiter where
  "sample_limiter = \<lparr>rl_delay = 2, rl_concurrency = 2, rl_states = []\<rparr>"

lemma sample_limiter_init: "limiter_init (PFin 2) 2 = Inr sample_limiter"
  by (simp add: limiter_init_def sample_limiter_def)

lemma sample_origin: "origin_of ''http://a/'' = Inr (Origin ''http'' ''a'' 80)"
  by code_simp

theorem rate_limit_permits_witness:
  "\<not> (\<exists>l'. rl_release ''http://a/'' sample_limiter = (Inr (), l'))"
proof -
  have "in_flight (Origin ''http'' ''a'' 80) Map.empty = {}" by (simp add: in_flight_def)
  with rate_limit_permits [OF sample_limiter_init rtranclp.rtrancl_refl sample_origin] show ?thesis by blast
qed

theorem rate_limit_spacing_witness:
  "starts_at (Origin ''http'' ''a'' 80)
     (rl_run sample_limiter [BeginEv 5 6 ''http://a/'', BeginEv 6 6 ''http://a/'']) = [5, 8] \<and> 5 + 2 \<le> (8 :: rat)"
proof -
  let ?es = "[BeginEv 5 6 ''http://a/'', BeginEv 6 6 ''http://a/'']"
  have run: "starts_at (Origin ''http'' ''a'' 80) (rl_run sample_limiter ?es) = [5, 8]"
    by (simp add: starts_at_def rl_begin_def rl_state_for_def sample_origin sample_limiter_def od_set_def Let_def)
  show ?thesis
    using rate_limit_spacing [OF sample_limiter_init, of ?es 0 1 "Origin ''http'' ''a'' 80"] run by simp
qed

subsection \<open>The rate limited transport\<close>

text \<open>
  \<^verbatim>\<open>RateLimitedTransport.request\<close> over an arbitrary limiter and backend.  The history records its
  calls; the telemetry event appears without its fields.
\<close>

record 'e limited_ops =
  lo_wait :: "transport_request \<Rightarrow> ('e, unit) act"
  lo_release :: "transport_request \<Rightarrow> ('e, unit) act"
  lo_backend :: "transport_request \<Rightarrow> ('e, transport_response) act"

datatype limited_call =
    LWait transport_request "exn + unit"
  | LEmitWait
  | LBackend transport_request "exn + transport_response"
  | LRelease transport_request "exn + unit"

definition limited_request ::
  "'e limited_ops \<Rightarrow> bool \<Rightarrow> transport_request \<Rightarrow> ((limited_call, 'e) world, transport_response) act" where
  "limited_request ops telemetry request =
     thenA (call (LWait request) (lo_wait ops request))
      (thenA (whenA telemetry (record_call LEmitWait))
        (finallyA (call (LBackend request) (lo_backend ops request))
           (call (LRelease request) (lo_release ops request))))"

text \<open>A successful wait is followed by exactly one release, after the backend; a failed one by nothing.\<close>

lemma limited_request_paired:
  assumes "limited_request ops telemetry request w = (res, w')"
  shows "(\<exists>e. w_log w' = LWait request (Inl e) # w_log w \<and> res = Inl e) \<or>
    (\<exists>emit resp rel. w_log w' = LRelease request rel # LBackend request resp # emit @ LWait request (Inr ()) # w_log w
       \<and> emit = (if telemetry then [LEmitWait] else [])
       \<and> res = (case rel of Inl e \<Rightarrow> Inl e | Inr _ \<Rightarrow> resp))"
proof -
  obtain r1 env1 where 1: "lo_wait ops request (w_env w) = (r1, env1)" by fastforce
  obtain r2 env2 where 2: "lo_backend ops request env1 = (r2, env2)" by fastforce
  obtain r3 env3 where 3: "lo_release ops request env2 = (r3, env3)" by fastforce
  show ?thesis
    using assms 1 2 3
    by (cases r1; cases r3) (auto simp: limited_request_def act_defs call_def record_call_def split: if_splits)
qed

end
