(* ===== verification/Proxy_Contract.thy ===== *)
theory Proxy_Contract
  imports Transport_Base
begin

section \<open>The contract of a proxy pool\<close>

text \<open>
  The \<^verbatim>\<open>ProxyPool\<close> protocol of \<^verbatim>\<open>proxy/base.py\<close> as a locale.  \<open>active\<close> is the set of leases that
  were granted and not returned.  Acquiring grants one new lease, releasing returns exactly one and
  never raises, rotating exchanges one lease for another one; a rotation that fails may already have
  returned the old lease but never touches another one.
\<close>

locale proxy_pool =
  fixes acquire :: "'r \<Rightarrow> 'p \<Rightarrow> (exn + 'l) \<times> 'p"
    and rotate :: "'l \<Rightarrow> rotation_reason \<Rightarrow> 'p \<Rightarrow> (exn + 'l) \<times> 'p"
    and release :: "'l \<Rightarrow> 'p \<Rightarrow> (exn + unit) \<times> 'p"
    and active :: "'p \<Rightarrow> 'l set"
    and invar :: "'p \<Rightarrow> bool"
  assumes acquire_Inr:
      "invar p \<Longrightarrow> acquire r p = (Inr l, p') \<Longrightarrow> l \<notin> active p \<and> active p' = insert l (active p) \<and> invar p'"
    and acquire_Inl:
      "invar p \<Longrightarrow> acquire r p = (Inl e, p') \<Longrightarrow> active p' = active p \<and> invar p'"
    and rotate_Inr:
      "invar p \<Longrightarrow> l \<in> active p \<Longrightarrow> rotate l reason p = (Inr l', p') \<Longrightarrow>
        l' \<notin> active p \<and> active p' = insert l' (active p - {l}) \<and> invar p'"
    and rotate_Inl:
      "invar p \<Longrightarrow> l \<in> active p \<Longrightarrow> rotate l reason p = (Inl e, p') \<Longrightarrow>
        active p - {l} \<subseteq> active p' \<and> active p' \<subseteq> active p \<and> invar p'"
    and release_pool:
      "invar p \<Longrightarrow> \<exists>p'. release l p = (Inr (), p') \<and> active p' = active p - {l} \<and> invar p'"
begin

text \<open>Releasing twice is the same as releasing once, as far as the active leases go.\<close>

lemma release_idempotent:
  assumes "invar p" "release l p = (x, p')"
  shows "\<exists>p''. release l p' = (Inr (), p'') \<and> active p'' = active p'"
proof -
  from release_pool [OF assms(1), of l] assms(2) have "active p' = active p - {l}" "invar p'" by auto
  with release_pool [of p' l] show ?thesis by auto
qed

text \<open>A failed rotation followed by a release leaves the old lease returned and the others alone.\<close>

lemma rotate_Inl_release:
  assumes "invar p" "l \<in> active p" "rotate l reason p = (Inl e, p')" "release l p' = (x, p'')"
  shows "active p'' = active p - {l} \<and> invar p''"
proof -
  from rotate_Inl [OF assms(1-3)] have "active p - {l} \<subseteq> active p'" "active p' \<subseteq> active p" "invar p'"
    by simp_all
  moreover from release_pool [OF this(3), of l] assms(4) have "active p'' = active p' - {l}" "invar p''"
    by auto
  ultimately show ?thesis by blast
qed

end

text \<open>A pool whose decisions depend on the time of the call.\<close>

locale timed_pool =
  fixes acquire :: "int \<Rightarrow> 'r \<Rightarrow> 'p \<Rightarrow> (exn + 'l) \<times> 'p"
    and rotate :: "int \<Rightarrow> 'l \<Rightarrow> rotation_reason \<Rightarrow> 'p \<Rightarrow> (exn + 'l) \<times> 'p"
    and release :: "'l \<Rightarrow> 'p \<Rightarrow> (exn + unit) \<times> 'p"
    and active :: "'p \<Rightarrow> 'l set"
    and invar :: "'p \<Rightarrow> bool"
  assumes at_time: "proxy_pool (acquire now) (rotate now) release active invar"

end
