(* ===== verification/Proxy_Health.thy ===== *)
theory Proxy_Health
  imports Transport_Base
begin

section \<open>Proxy health\<close>

text \<open>
  \<^verbatim>\<open>proxy/health.py\<close>: failures per provider, endpoint and target host, an exponentially growing
  cooldown, and least-recently-used eviction.  A \<^verbatim>\<open>datetime\<close> is the integer number of
  microseconds it counts; a cooldown in seconds becomes a \<^verbatim>\<open>timedelta\<close> by rounding to the nearest
  microsecond, ties to even.
\<close>

datatype proxy_failure_reason =
  FailBlocked | FailRateLimited | FailCaptcha | FailTransportFailure

record health_state =
  hs_consecutive_failures :: nat
  hs_reason_failures :: "(proxy_failure_reason, nat) odict"
  hs_last_success :: "int option"
  hs_last_failure :: "int option"
  hs_cooldown_until :: "int option"

definition health_state_new :: health_state where
  "health_state_new = \<lparr>hs_consecutive_failures = 0, hs_reason_failures = [],
     hs_last_success = None, hs_last_failure = None, hs_cooldown_until = None\<rparr>"

type_synonym health_key = "string \<times> string \<times> string"

record proxy_health =
  ph_states :: "(health_key, health_state) odict"
  ph_initial_cooldown :: rat
  ph_maximum_cooldown :: rat
  ph_maximum_entries :: nat
  ph_maximum_exponent :: nat

subsection \<open>Arithmetic of cooldowns\<close>

text \<open>\<^verbatim>\<open>ceil(log2(ratio))\<close> for a ratio above one, and zero otherwise.\<close>

function ceil_log2 :: "rat \<Rightarrow> nat" where
  "ceil_log2 r = (if r \<le> 1 then 0 else Suc (ceil_log2 (r / 2)))"
  by pat_completeness auto
termination
proof (relation "measure (\<lambda>r. nat \<lceil>r\<rceil>)", goal_cases)
  case (2 r)
  then have "r / 2 \<le> rat_of_int (\<lceil>r\<rceil> - 1)"
  proof (cases "2 \<le> r")
    case True
    have "r \<le> rat_of_int \<lceil>r\<rceil>" by (rule le_of_int_ceiling)
    with True show ?thesis by (simp add: field_simps) linarith
  next
    case False
    from 2 have "1 < \<lceil>r\<rceil>" by (simp add: less_ceiling_iff)
    then have "1 \<le> rat_of_int (\<lceil>r\<rceil> - 1)" by simp
    with False show ?thesis by linarith
  qed
  then have "\<lceil>r / 2\<rceil> \<le> \<lceil>r\<rceil> - 1" by (rule ceiling_le)
  moreover from 2 have "0 < \<lceil>r\<rceil>" by (simp add: less_ceiling_iff)
  ultimately show ?case by simp
qed simp

declare ceil_log2.simps [simp del]

lemma ceil_log2_ge: "r \<le> 2 ^ ceil_log2 r"
proof (induction r rule: ceil_log2.induct)
  case (1 r)
  then show ?case by (cases "r \<le> 1") (simp_all add: ceil_log2.simps [of r])
qed

lemma ceil_log2_less: "1 < r \<Longrightarrow> 2 ^ (ceil_log2 r - 1) < r"
proof (induction r rule: ceil_log2.induct)
  case (1 r)
  show ?case
  proof (cases "r / 2 \<le> 1")
    case True
    with 1 show ?thesis by (simp add: ceil_log2.simps [of r] ceil_log2.simps [of "r / 2"])
  next
    case False
    then obtain n where "ceil_log2 (r / 2) = Suc n" by (simp add: ceil_log2.simps [of "r / 2"])
    with 1 False show ?thesis by (simp add: ceil_log2.simps [of r])
  qed
qed

text \<open>It is the ceiling of the binary logarithm.\<close>

lemma ceil_log2_log:
  assumes "1 < r" shows "\<lceil>log 2 (real_of_rat r)\<rceil> = int (ceil_log2 r)"
proof -
  let ?n = "ceil_log2 r" and ?x = "real_of_rat r"
  have x: "0 < ?x" using assms by (metis less_trans of_rat_0 of_rat_less zero_less_one)
  have pos: "1 \<le> ?n" using assms by (simp add: ceil_log2.simps [of r])
  have "?x \<le> real_of_rat (2 ^ ?n)" using ceil_log2_ge [of r] by (simp only: of_rat_less_eq)
  then have "?x \<le> 2 powr ?n" by (simp add: of_rat_power powr_realpow)
  with x have upper: "log 2 ?x \<le> ?n" by (simp add: log_le_iff)
  have "real_of_rat (2 ^ (?n - 1)) < ?x" using ceil_log2_less [OF assms] by (simp only: of_rat_less)
  then have "2 powr (real (?n - 1)) < ?x" by (simp add: of_rat_power powr_realpow)
  with x have "real (?n - 1) < log 2 ?x" by (simp add: less_log_iff)
  with pos upper show ?thesis by (intro ceiling_unique) (simp_all add: of_nat_diff)
qed

definition round_half_even :: "rat \<Rightarrow> int" where
  "round_half_even x =
     (let f = \<lfloor>x\<rfloor>; d = x - rat_of_int f in
      if d < 1 / 2 then f else if d > 1 / 2 then f + 1 else if even f then f else f + 1)"

text \<open>\<^verbatim>\<open>timedelta(seconds=s)\<close> in microseconds.\<close>

definition timedelta_us :: "rat \<Rightarrow> int" where
  "timedelta_us s = round_half_even (s * 1000000)"

lemma round_half_even_mono:
  assumes "x \<le> y" shows "round_half_even x \<le> round_half_even y"
proof (cases "\<lfloor>x\<rfloor> = \<lfloor>y\<rfloor>")
  case True
  with assms show ?thesis by (auto simp: round_half_even_def Let_def)
next
  case False
  with floor_mono [OF assms] have "\<lfloor>x\<rfloor> + 1 \<le> \<lfloor>y\<rfloor>" by simp
  moreover have "round_half_even x \<le> \<lfloor>x\<rfloor> + 1" "\<lfloor>y\<rfloor> \<le> round_half_even y"
    by (auto simp: round_half_even_def Let_def)
  ultimately show ?thesis by simp
qed

lemma timedelta_us_mono: "s \<le> t \<Longrightarrow> timedelta_us s \<le> timedelta_us t"
  by (simp add: timedelta_us_def round_half_even_mono)

subsection \<open>Operations\<close>

definition proxy_health_init :: "rat \<Rightarrow> rat \<Rightarrow> int \<Rightarrow> exn + proxy_health" where
  "proxy_health_init initial_cooldown maximum_cooldown maximum_entries =
     (if initial_cooldown \<le> 0 then Inl (ValueError ''initial_cooldown must be positive'')
      else if maximum_cooldown \<le> 0 then Inl (ValueError ''maximum_cooldown must be positive'')
      else if maximum_entries < 1 then Inl (ValueError ''maximum_entries must be a positive integer'')
      else (let ratio = maximum_cooldown / initial_cooldown in
        Inr \<lparr>ph_states = [], ph_initial_cooldown = initial_cooldown,
             ph_maximum_cooldown = maximum_cooldown, ph_maximum_entries = nat maximum_entries,
             ph_maximum_exponent = (if ratio > 1 then ceil_log2 ratio else 0)\<rparr>))"

definition ph_entry_count :: "proxy_health \<Rightarrow> nat" where
  "ph_entry_count h = length (ph_states h)"

definition ph_snapshot :: "health_key \<Rightarrow> proxy_health \<Rightarrow> health_state option" where
  "ph_snapshot key h = map_of (ph_states h) key"

definition ph_available :: "int \<Rightarrow> health_key \<Rightarrow> proxy_health \<Rightarrow> bool \<times> proxy_health" where
  "ph_available now key h =
     (case map_of (ph_states h) key of
        None \<Rightarrow> (True, h)
      | Some state \<Rightarrow>
          ((case hs_cooldown_until state of None \<Rightarrow> True | Some until \<Rightarrow> until \<le> now),
           h\<lparr>ph_states := od_move_to_end key (ph_states h)\<rparr>))"

text \<open>\<^verbatim>\<open>_state\<close>: fetch or create the entry of a key, as the most recently used one.\<close>

definition ph_state :: "health_key \<Rightarrow> proxy_health \<Rightarrow> health_state \<times> proxy_health" where
  "ph_state key h =
     (case map_of (ph_states h) key of
        Some state \<Rightarrow> (state, h\<lparr>ph_states := od_move_to_end key (ph_states h)\<rparr>)
      | None \<Rightarrow>
          (let states = (if length (ph_states h) \<ge> ph_maximum_entries h
                         then tl (ph_states h) else ph_states h)
           in (health_state_new, h\<lparr>ph_states := od_set key health_state_new states\<rparr>)))"

definition ph_success :: "int \<Rightarrow> health_key \<Rightarrow> proxy_health \<Rightarrow> proxy_health" where
  "ph_success now key h =
     (case ph_state key h of (state, h') \<Rightarrow>
        h'\<lparr>ph_states := od_set key
             (state\<lparr>hs_consecutive_failures := 0, hs_last_success := Some now,
                    hs_cooldown_until := None\<rparr>) (ph_states h')\<rparr>)"

definition ph_cooldown_seconds :: "proxy_health \<Rightarrow> nat \<Rightarrow> rat" where
  "ph_cooldown_seconds h consecutive_failures =
     (let exponent = min (consecutive_failures - 1) (ph_maximum_exponent h)
      in min (ph_maximum_cooldown h) (ph_initial_cooldown h * 2 ^ exponent))"

definition ph_failure ::
  "int \<Rightarrow> health_key \<Rightarrow> proxy_failure_reason \<Rightarrow> proxy_health \<Rightarrow> proxy_health" where
  "ph_failure now key reason h =
     (case ph_state key h of (state, h') \<Rightarrow>
        (let failures = hs_consecutive_failures state + 1;
             counted = (case map_of (hs_reason_failures state) reason of None \<Rightarrow> 0 | Some n \<Rightarrow> n);
             state' = state\<lparr>hs_consecutive_failures := failures,
               hs_reason_failures := od_set reason (counted + 1) (hs_reason_failures state),
               hs_last_failure := Some now,
               hs_cooldown_until := Some (now + timedelta_us (ph_cooldown_seconds h' failures))\<rparr>
         in h'\<lparr>ph_states := od_set key state' (ph_states h')\<rparr>))"

subsection \<open>Configuration and the closed form of the cooldown\<close>

text \<open>What the constructor establishes and no operation changes.\<close>

definition ph_config :: "proxy_health \<Rightarrow> bool" where
  "ph_config h \<longleftrightarrow> 0 < ph_initial_cooldown h \<and> 0 < ph_maximum_cooldown h \<and> 0 < ph_maximum_entries h \<and>
     ph_maximum_cooldown h \<le> ph_initial_cooldown h * 2 ^ ph_maximum_exponent h"

lemma proxy_health_init_config: "proxy_health_init i m n = Inr h \<Longrightarrow> ph_config h \<and> ph_states h = []"
  using ceil_log2_ge [of "m / i"]
  by (auto simp: proxy_health_init_def ph_config_def Let_def field_simps split: if_splits)

text \<open>
  The exponent is capped only to keep the power small: the cooldown is the uncapped exponential
  schedule cut off at the maximum.
\<close>

lemma ph_cooldown_closed:
  assumes "ph_config h"
  shows "ph_cooldown_seconds h n = min (ph_maximum_cooldown h) (ph_initial_cooldown h * 2 ^ (n - 1))"
proof (cases "n - 1 \<le> ph_maximum_exponent h")
  case True
  then show ?thesis by (simp add: ph_cooldown_seconds_def)
next
  case False
  let ?e = "ph_maximum_exponent h" and ?i = "ph_initial_cooldown h"
  from False have "(2 :: rat) ^ ?e \<le> 2 ^ (n - 1)" by (intro power_increasing) auto
  with assms have "ph_maximum_cooldown h \<le> ?i * 2 ^ (n - 1)"
    by (auto simp: ph_config_def intro: order_trans mult_left_mono)
  with assms False show ?thesis by (simp add: ph_cooldown_seconds_def ph_config_def min_def)
qed

subsection \<open>Runs\<close>

datatype health_event =
    AvailableEv int health_key
  | SuccessEv int health_key
  | FailureEv int health_key proxy_failure_reason

fun health_step :: "proxy_health \<Rightarrow> health_event \<Rightarrow> proxy_health" where
  "health_step h (AvailableEv now key) = snd (ph_available now key h)"
| "health_step h (SuccessEv now key) = ph_success now key h"
| "health_step h (FailureEv now key reason) = ph_failure now key reason h"

lemmas ph_ops = ph_available_def ph_success_def ph_failure_def ph_state_def Let_def

lemma ph_state_wf: "ph_state key h = (st, h') \<Longrightarrow> od_wf (ph_states h) \<Longrightarrow> od_wf (ph_states h')"
  by (auto simp: ph_state_def Let_def intro!: od_wfs split: option.splits if_splits)

lemma ph_state_keys: "ph_state key h = (st, h') \<Longrightarrow> key \<in> fst ` set (ph_states h')"
  by (auto simp: ph_state_def Let_def od_simps od_keys_iff split: option.splits)

lemma ph_state_bound:
  assumes "ph_state key h = (st, h')" "od_wf (ph_states h)" "0 < ph_maximum_entries h"
    "length (ph_states h) \<le> ph_maximum_entries h"
  shows "length (ph_states h') \<le> ph_maximum_entries h"
proof (cases "map_of (ph_states h) key")
  case None
  then have new: "key \<notin> fst ` set (ph_states h)" by (simp add: map_of_eq_None_iff)
  with od_keys_tl [of "ph_states h"] have "key \<notin> fst ` set (tl (ph_states h))" by blast
  with new None assms(1)
  have "length (ph_states h') = Suc (if length (ph_states h) \<ge> ph_maximum_entries h
      then length (ph_states h) - 1 else length (ph_states h))"
    by (auto simp: ph_state_def Let_def od_length_set simp del: set_map)
  with assms(3,4) show ?thesis by (simp split: if_splits)
next
  case (Some s)
  with assms show ?thesis by (auto simp: ph_state_def od_length_move_to_end)
qed

lemma ph_state_config:
  "ph_state key h = (st, h') \<Longrightarrow> ph_initial_cooldown h' = ph_initial_cooldown h
     \<and> ph_maximum_cooldown h' = ph_maximum_cooldown h \<and> ph_maximum_entries h' = ph_maximum_entries h
     \<and> ph_maximum_exponent h' = ph_maximum_exponent h"
  by (auto simp: ph_state_def Let_def split: option.splits)

lemmas ph_state_facts = ph_state_wf ph_state_bound ph_state_config
lemmas ph_writes = ph_success_def ph_failure_def Let_def

interpretation health: bounded_store health_step ph_states ph_maximum_entries
proof (unfold_locales, goal_cases)
  case (1 h e)
  then show ?case
    by (cases e) (auto simp: ph_available_def ph_writes dest: ph_state_wf intro!: od_wfs split: option.split prod.split)
next
  case (2 h e)
  then show ?case
  proof (cases e)
    case (AvailableEv t key)
    with 2 show ?thesis by (simp add: ph_available_def od_length_move_to_end split: option.split)
  qed (auto simp: ph_writes od_length_set dest: ph_state_keys ph_state_bound split: prod.split)
next
  case (3 h e)
  then show ?case
    by (cases e) (auto simp: ph_available_def ph_writes dest: ph_state_config split: option.split prod.split)
qed

lemma health_step_config [simp]:
  "ph_initial_cooldown (health_step h e) = ph_initial_cooldown h"
  "ph_maximum_cooldown (health_step h e) = ph_maximum_cooldown h"
  "ph_maximum_exponent (health_step h e) = ph_maximum_exponent h"
  by (cases e; auto simp: ph_available_def ph_writes dest: ph_state_config split: option.split prod.split)+

lemma health_run_config [simp]:
  "ph_initial_cooldown (foldl health_step h es) = ph_initial_cooldown h"
  "ph_maximum_cooldown (foldl health_step h es) = ph_maximum_cooldown h"
  "ph_maximum_exponent (foldl health_step h es) = ph_maximum_exponent h"
  by (induction es rule: rev_induct) simp_all

lemma ph_cooldown_run [simp]: "ph_cooldown_seconds (foldl health_step h es) n = ph_cooldown_seconds h n"
  by (simp add: ph_cooldown_seconds_def)

text \<open>The entry an operation writes, and what it leaves of the others.\<close>

lemma ph_state_lookup:
  "ph_state key h = (state, h') \<Longrightarrow> state = (case ph_snapshot key h of None \<Rightarrow> health_state_new | Some s \<Rightarrow> s)"
  by (auto simp: ph_state_def ph_snapshot_def Let_def split: option.splits)

lemma ph_snapshot_failure:
  "ph_snapshot key (ph_failure now key reason h) =
     (let state = (case ph_snapshot key h of None \<Rightarrow> health_state_new | Some s \<Rightarrow> s);
          failures = hs_consecutive_failures state + 1;
          counted = (case map_of (hs_reason_failures state) reason of None \<Rightarrow> 0 | Some n \<Rightarrow> n)
      in Some (state\<lparr>hs_consecutive_failures := failures,
               hs_reason_failures := od_set reason (counted + 1) (hs_reason_failures state),
               hs_last_failure := Some now,
               hs_cooldown_until := Some (now + timedelta_us (ph_cooldown_seconds h failures))\<rparr>))"
  by (auto simp: ph_snapshot_def ph_failure_def ph_state_def Let_def od_simps ph_cooldown_seconds_def
      split: option.splits)

lemma ph_snapshot_success:
  "ph_snapshot key (ph_success now key h) =
     (let state = (case ph_snapshot key h of None \<Rightarrow> health_state_new | Some s \<Rightarrow> s)
      in Some (state\<lparr>hs_consecutive_failures := 0, hs_last_success := Some now,
                    hs_cooldown_until := None\<rparr>))"
  by (auto simp: ph_snapshot_def ph_success_def ph_state_def Let_def od_simps split: option.splits)

fun event_key :: "health_event \<Rightarrow> health_key" where
  "event_key (AvailableEv _ key) = key"
| "event_key (SuccessEv _ key) = key"
| "event_key (FailureEv _ key _) = key"

text \<open>An operation on one key never writes another key's entry: it keeps it or evicts it.\<close>

lemma health_step_frame:
  assumes "od_wf (ph_states h)" "event_key e \<noteq> key"
  shows "ph_snapshot key (health_step h e) \<in> {ph_snapshot key h, None}"
proof -
  have "map_of (tl (ph_states h)) key \<in> {map_of (ph_states h) key, None}"
    using map_of_tlD [OF assms(1), of key] by (cases "map_of (tl (ph_states h)) key") auto
  with assms show ?thesis
    by (cases e) (auto simp: ph_ops ph_snapshot_def od_simps split: option.splits if_splits)
qed

text \<open>\<open>n\<close> consecutive failures of one key at the given times.\<close>

lemma failures_in_a_row:
  assumes "ph_snapshot key h = None"
    and "ts \<noteq> []"
  shows "\<exists>s. ph_snapshot key (foldl health_step h (map (\<lambda>t. FailureEv t key reason) ts)) = Some s \<and> hs_consecutive_failures s = length ts \<and>
      hs_cooldown_until s = Some (last ts + timedelta_us (ph_cooldown_seconds h (length ts)))"
  using assms(2)
proof (induction ts rule: rev_induct)
  case (snoc t ts)
  let ?h = "foldl health_step h (map (\<lambda>t. FailureEv t key reason) ts)"
  show ?case
  proof (cases "ts = []")
    case True
    with assms(1) show ?thesis
      by (simp add: ph_snapshot_failure Let_def health_state_new_def)
  next
    case False
    with snoc.IH obtain s where "ph_snapshot key ?h = Some s" "hs_consecutive_failures s = length ts"
      by blast
    then show ?thesis by (simp add: ph_snapshot_failure Let_def)
  qed
qed simp

subsection \<open>Properties\<close>



text \<open>
  Health tracking is bounded and per key.  Starting from a new tracker, no sequence of
  operations keeps more entries than the maximum, and an operation never changes the entry of
  another key except by evicting it.
\<close>

theorem proxy_health_bounded_and_isolated:
  assumes "proxy_health_init initial maximum entries = Inr h"
  shows "int (ph_entry_count (foldl health_step h es)) \<le> entries \<and>
    (event_key e = key \<or>
     ph_snapshot key (health_step (foldl health_step h es) e)
       \<in> {ph_snapshot key (foldl health_step h es), None})"
proof -
  have h: "ph_states h = []" "ph_config h" "int (ph_maximum_entries h) = entries"
    using proxy_health_init_config [OF assms] assms
    by (auto simp: proxy_health_init_def Let_def split: if_splits)
  then have "length (ph_states (foldl health_step h es)) \<le> ph_maximum_entries h"
    "od_wf (ph_states (foldl health_step h es))"
    by (intro health.run_bounded; simp add: ph_config_def)+
  with h(3) health_step_frame [of "foldl health_step h es" e key] show ?thesis
    by (auto simp: ph_entry_count_def)
qed

theorem proxy_health_bounded_and_isolated_witness:
  "\<exists>h. proxy_health_init 5 300 1 = Inr h \<and>
     int (ph_entry_count (foldl health_step h [SuccessEv 0 (''p'', ''a'', ''x''), SuccessEv 0 (''p'', ''b'', ''x'')])) \<le> 1"
proof -
  obtain h where h: "proxy_health_init 5 300 1 = Inr h" by (simp add: proxy_health_init_def Let_def)
  then show ?thesis using proxy_health_bounded_and_isolated [OF h] by blast
qed

end
