(* ===== verification/Weighted_Selection.thy ===== *)
theory Weighted_Selection
  imports Proxy_Health
begin

section \<open>Smooth weighted round-robin\<close>

text \<open>
  The routes of \<^verbatim>\<open>proxy/base.py\<close> and \<^verbatim>\<open>proxy/static.py\<close> and the selection algorithm
  \<^verbatim>\<open>StaticProxyPool._select_weighted\<close>.  Scores are kept per eligible route set (the \<^emph>\<open>signature\<close>),
  so a route set is served fairly whatever other route sets are asked for in between.
\<close>

subsection \<open>Routes\<close>

datatype proxy_kind = KindResidential | KindMobile | KindDatacenter

datatype proxy_protocol = ProtoHttp | ProtoHttps | ProtoSocks5

record proxy_endpoint =
  ep_provider :: string
  ep_endpoint_id :: string
  ep_protocol :: proxy_protocol
  ep_host :: string
  ep_port :: nat
  ep_kind :: proxy_kind
  ep_countries :: "string list"

text \<open>\<^verbatim>\<open>ProxyEndpoint.reject_userinfo\<close>.\<close>

definition reject_userinfo :: "string \<Rightarrow> exn + string" where
  "reject_userinfo value =
     (if CHR ''@'' \<in> set value \<or> py_contains ''://'' value
      then Inl (ValueError ''proxy host must not contain a URL or user information'')
      else Inr value)"

record proxy_credentials =
  cred_username :: string
  cred_password :: string

record static_route =
  sr_endpoint :: proxy_endpoint
  sr_credentials :: proxy_credentials
  sr_weight :: int

text \<open>\<^verbatim>\<open>StaticRoute.__post_init__\<close>.\<close>

definition static_route_post_init :: "static_route \<Rightarrow> exn + static_route" where
  "static_route_post_init r =
     (if sr_weight r < 1 then Inl (ValueError ''proxy route weight must be a positive integer'') else Inr r)"

type_synonym route_key = "string \<times> string"
type_synonym scores = "(route_key, int) odict"

definition key_of :: "static_route \<Rightarrow> route_key" where
  "key_of r = (ep_provider (sr_endpoint r), ep_endpoint_id (sr_endpoint r))"

subsection \<open>The algorithm\<close>

text \<open>
  The loop of \<^verbatim>\<open>_select_weighted\<close>: add each weight, keep the first route with the highest score.
  Every signature key has a score (\<^verbatim>\<open>dict.fromkeys\<close>), so the default of \<open>score\<close> is never read.
\<close>

definition score :: "scores \<Rightarrow> route_key \<Rightarrow> int" where
  "score scores k = (case map_of scores k of None \<Rightarrow> 0 | Some v \<Rightarrow> v)"

fun wrr_scan ::
  "static_route list \<Rightarrow> scores \<Rightarrow> int \<Rightarrow> static_route \<Rightarrow> int option \<Rightarrow> scores \<times> int \<times> static_route" where
  "wrr_scan [] scores total_weight selected selected_score = (scores, total_weight, selected)"
| "wrr_scan (route # rest) scores total_weight selected selected_score =
     (let value = score scores (key_of route) + sr_weight route;
          scores' = od_set (key_of route) value scores;
          total' = total_weight + sr_weight route
      in if (case selected_score of None \<Rightarrow> True | Some best \<Rightarrow> value > best)
         then wrr_scan rest scores' total' route (Some value)
         else wrr_scan rest scores' total' selected selected_score)"

text \<open>\<^verbatim>\<open>_select_weighted\<close> on the table of scores; the caller checked that there is a candidate.\<close>

definition select_weighted ::
  "static_route list \<Rightarrow> (route_key list, scores) odict \<Rightarrow>
   static_route option \<times> (route_key list, scores) odict" where
  "select_weighted candidates routing_scores =
     (case candidates of
        [] \<Rightarrow> (None, routing_scores)
      | first # _ \<Rightarrow>
          (let signature = map key_of candidates;
               scores = (case map_of routing_scores signature of
                           None \<Rightarrow> map (\<lambda>k. (k, 0)) signature | Some s \<Rightarrow> s);
               (scores', total_weight, selected) = wrr_scan candidates scores 0 first None;
               scores'' = od_set (key_of selected) (score scores' (key_of selected) - total_weight) scores'
           in (Some selected, od_set signature scores'' routing_scores)))"

subsection \<open>One selection\<close>

definition total_weight :: "static_route list \<Rightarrow> int" where
  "total_weight rs = sum_list (map sr_weight rs)"

definition candidates_ok :: "static_route list \<Rightarrow> bool" where
  "candidates_ok rs \<longleftrightarrow> rs \<noteq> [] \<and> distinct (map key_of rs) \<and> (\<forall>r \<in> set rs. 0 < sr_weight r)"

definition signature_scores :: "static_route list \<Rightarrow> (route_key list, scores) odict \<Rightarrow> route_key \<Rightarrow> int" where
  "signature_scores rs table k =
     (case map_of table (map key_of rs) of None \<Rightarrow> 0 | Some s \<Rightarrow> score s k)"

lemma score_set: "score (od_set k v s) j = (if j = k then v else score s j)"
  by (simp add: score_def od_simps)

text \<open>The scan adds every weight once and returns a route whose new score is maximal.\<close>

lemma wrr_scan_scores:
  assumes "wrr_scan rest s t sel best = (s', t', sel')" "distinct (map key_of rest)"
  shows "t' = t + total_weight rest \<and> (\<forall>r \<in> set rest. score s' (key_of r) = score s (key_of r) + sr_weight r)
    \<and> (\<forall>k. k \<notin> key_of ` set rest \<longrightarrow> score s' k = score s k)"
  using assms
proof (induction rest arbitrary: s t sel best)
  case (Cons route rest)
  let ?v = "score s (key_of route) + sr_weight route"
  let ?s = "od_set (key_of route) ?v s"
  obtain sel1 best1 where "wrr_scan rest ?s (t + sr_weight route) sel1 best1 = (s', t', sel')"
    using Cons.prems(1) by (simp add: Let_def split: if_splits option.splits)
  from Cons.IH [OF this] Cons.prems(2)
  have IH: "t' = (t + sr_weight route) + total_weight rest"
      "\<And>r. r \<in> set rest \<Longrightarrow> score s' (key_of r) = score ?s (key_of r) + sr_weight r"
      "\<And>k. k \<notin> key_of ` set rest \<Longrightarrow> score s' k = score ?s k"
    by (simp_all del: split_paired_All)
  have new: "key_of route \<notin> key_of ` set rest" using Cons.prems(2) by simp
  have "score s' (key_of r) = score s (key_of r) + sr_weight r" if "r \<in> set (route # rest)" for r
  proof (cases "r \<in> set rest")
    case True
    with new have "key_of r \<noteq> key_of route" by (metis imageI)
    with IH(2) [OF True] show ?thesis by (simp add: score_set)
  next
    case False
    with that new IH(3) show ?thesis by (simp add: score_set)
  qed
  with IH(1,3) show ?case by (simp add: score_set total_weight_def)
qed (simp add: total_weight_def)

lemma wrr_scan_max:
  assumes "wrr_scan rest s t sel (Some b) = (s', t', sel')" "distinct (map key_of (sel # rest))"
    "score s (key_of sel) = b"
  shows "sel' \<in> set (sel # rest) \<and> (\<forall>r \<in> set (sel # rest). score s' (key_of r) \<le> score s' (key_of sel'))"
  using assms
proof (induction rest arbitrary: s t sel b)
  case (Cons route rest)
  let ?v = "score s (key_of route) + sr_weight route"
  let ?s = "od_set (key_of route) ?v s"
  define sel1 where "sel1 = (if ?v > b then route else sel)"
  define b1 where "b1 = (if ?v > b then ?v else b)"
  have run: "wrr_scan rest ?s (t + sr_weight route) sel1 (Some b1) = (s', t', sel')"
    using Cons.prems(1) by (simp add: Let_def sel1_def b1_def split: if_splits)
  have distinct: "distinct (map key_of rest)" "key_of sel \<notin> key_of ` set rest"
      "key_of route \<notin> key_of ` set rest" "key_of sel \<noteq> key_of route"
    using Cons.prems(2) by auto
  then have "distinct (map key_of (sel1 # rest))" "score ?s (key_of sel1) = b1"
    using Cons.prems(3) by (auto simp: sel1_def b1_def score_set)
  from Cons.IH [OF run this]
  have IH: "sel' \<in> set (sel1 # rest)" "\<And>r. r \<in> set (sel1 # rest) \<Longrightarrow> score s' (key_of r) \<le> score s' (key_of sel')"
    by auto
  from wrr_scan_scores [OF run distinct(1)] distinct Cons.prems(3)
  have vals: "score s' (key_of sel) = b" "score s' (key_of route) = ?v"
    by (simp_all add: score_set del: split_paired_All)
  have "max b ?v \<le> score s' (key_of sel')"
    using IH(2) [of sel1] vals by (simp add: sel1_def max_def split: if_splits)
  then have "\<forall>r \<in> set (sel # route # rest). score s' (key_of r) \<le> score s' (key_of sel')"
    using IH(2) vals by simp
  moreover have "sel' \<in> set (sel # route # rest)" using IH(1) by (auto simp: sel1_def split: if_splits)
  ultimately show ?case by blast
qed simp

text \<open>The whole selection on the scores of the candidates' own signature and on every other one.\<close>

lemma select_weighted_step:
  assumes ok: "candidates_ok cs" and sel: "select_weighted cs tb = (chosen, tb')"
  obtains r where "chosen = Some r" "r \<in> set cs"
    "\<And>x. x \<in> set cs \<Longrightarrow> signature_scores cs tb' (key_of x) =
        signature_scores cs tb (key_of x) + sr_weight x - (if x = r then total_weight cs else 0)"
    "\<And>x. x \<in> set cs \<Longrightarrow> signature_scores cs tb (key_of x) + sr_weight x
        \<le> signature_scores cs tb (key_of r) + sr_weight r"
    "\<And>sig. sig \<noteq> map key_of cs \<Longrightarrow> map_of tb' sig = map_of tb sig"
proof -
  from ok obtain first rest where cs: "cs = first # rest" by (auto simp: candidates_ok_def neq_Nil_conv)
  define s where "s = (case map_of tb (map key_of cs) of None \<Rightarrow> map (\<lambda>k. (k, 0)) (map key_of cs) | Some s \<Rightarrow> s)"
  obtain s' t' r where scan: "wrr_scan cs s 0 first None = (s', t', r)" by (metis prod_cases3)
  have distinct: "distinct (map key_of cs)" using ok by (simp add: candidates_ok_def)
  note scores = wrr_scan_scores [OF scan distinct]
  have scan1: "wrr_scan rest (od_set (key_of first) (score s (key_of first) + sr_weight first) s)
      (sr_weight first) first (Some (score s (key_of first) + sr_weight first)) = (s', t', r)"
    using scan cs by (simp add: Let_def)
  from wrr_scan_max [OF scan1] distinct cs
  have r: "r \<in> set cs" "\<And>x. x \<in> set cs \<Longrightarrow> score s' (key_of x) \<le> score s' (key_of r)"
    by (auto simp: score_set)
  have old: "signature_scores cs tb k = score s k" for k
    unfolding signature_scores_def s_def score_def
    by (cases "map_of tb (map key_of cs)") (auto dest!: map_of_SomeD split: option.splits)
  have res: "chosen = Some r" "tb' = od_set (map key_of cs)
      (od_set (key_of r) (score s' (key_of r) - t') s') tb"
  proof -
    have "select_weighted cs tb = (case wrr_scan cs s 0 first None of (scores', tw, selected) \<Rightarrow>
        (Some selected, od_set (map key_of cs)
          (od_set (key_of selected) (score scores' (key_of selected) - tw) scores') tb))"
      unfolding select_weighted_def s_def cs list.case Let_def ..
    with sel scan show "chosen = Some r" "tb' = od_set (map key_of cs)
      (od_set (key_of r) (score s' (key_of r) - t') s') tb" by simp_all
  qed
  have inj: "key_of x = key_of r \<longleftrightarrow> x = r" if "x \<in> set cs" for x
    using distinct that r(1) by (auto simp: distinct_map inj_on_def)
  show thesis
  proof (rule that [of r])
    fix x assume x: "x \<in> set cs"
    have "signature_scores cs tb' (key_of x) = score (od_set (key_of r) (score s' (key_of r) - t') s') (key_of x)"
      by (simp add: signature_scores_def res(2) od_simps)
    then show "signature_scores cs tb' (key_of x) =
        signature_scores cs tb (key_of x) + sr_weight x - (if x = r then total_weight cs else 0)"
      using scores x r(1) inj [OF x] by (simp add: score_set old)
    show "signature_scores cs tb (key_of x) + sr_weight x \<le> signature_scores cs tb (key_of r) + sr_weight r"
      using r(2) [OF x] scores x r(1) by (simp add: old)
  qed (use res r in \<open>simp_all add: od_simps\<close>)
qed

text \<open>Whatever the scores, the selected route is one of the candidates.\<close>

lemma wrr_scan_member:
  "wrr_scan rest s t sel best = (s', t', sel') \<Longrightarrow> sel' \<in> set (sel # rest)"
  by (induction rest s t sel best rule: wrr_scan.induct) (auto simp: Let_def split: if_splits option.splits)

lemma select_weighted_member:
  "select_weighted cs tb = (Some r, tb') \<Longrightarrow> r \<in> set cs"
  by (auto simp: select_weighted_def Let_def dest!: wrr_scan_member split: list.splits prod.splits)

subsection \<open>Fairness over any sequence of selections\<close>

text \<open>A run of selections, each on its own candidate list, with the route chosen each time.\<close>

fun select_run ::
  "(route_key list, scores) odict \<Rightarrow> static_route list list \<Rightarrow>
   (static_route list \<times> static_route) list \<times> (route_key list, scores) odict" where
  "select_run tb [] = ([], tb)"
| "select_run tb (cs # calls) =
     (case select_weighted cs tb of
        (None, tb') \<Rightarrow> select_run tb' calls
      | (Some r, tb') \<Rightarrow> (case select_run tb' calls of (picks, tb'') \<Rightarrow> ((cs, r) # picks, tb'')))"

text \<open>
  After \<open>t\<close> selections from \<open>cs\<close> that chose each route \<open>n\<close> times, the scores record the lag of each
  route behind its share, and no score falls to minus the total weight.
\<close>

definition fair_scores ::
  "static_route list \<Rightarrow> (route_key list, scores) odict \<Rightarrow> int \<Rightarrow> (static_route \<Rightarrow> int) \<Rightarrow> bool" where
  "fair_scores cs tb t n \<longleftrightarrow>
     (\<forall>r \<in> set cs. signature_scores cs tb (key_of r) = t * sr_weight r - total_weight cs * n r
        \<and> - total_weight cs < signature_scores cs tb (key_of r))
     \<and> (\<Sum>r \<in> set cs. n r) = t"

lemma total_weight_sum: "distinct cs \<Longrightarrow> total_weight cs = (\<Sum>r \<in> set cs. sr_weight r)"
  by (simp add: total_weight_def sum_list_distinct_conv_sum_set)

lemma candidates_ok_distinct: "candidates_ok cs \<Longrightarrow> distinct cs"
  by (simp add: candidates_ok_def distinct_map)

lemma total_weight_pos:
  assumes "candidates_ok cs" shows "0 < total_weight cs"
proof -
  have "0 < (\<Sum>r \<in> set cs. sr_weight r)"
    using assms by (intro sum_pos) (auto simp: candidates_ok_def)
  then show ?thesis using candidates_ok_distinct [OF assms] by (simp add: total_weight_sum)
qed

lemma fair_scores_step:
  assumes ok: "candidates_ok cs" and fair: "fair_scores cs tb t n"
    and sel: "select_weighted cs tb = (chosen, tb')"
  obtains r where "chosen = Some r" "r \<in> set cs" "fair_scores cs tb' (t + 1) (n(r := n r + 1))"
proof -
  let ?W = "total_weight cs" and ?f = "\<lambda>x. signature_scores cs tb (key_of x)"
  obtain r where r: "chosen = Some r" "r \<in> set cs"
    "\<And>x. x \<in> set cs \<Longrightarrow> signature_scores cs tb' (key_of x) = ?f x + sr_weight x - (if x = r then ?W else 0)"
    "\<And>x. x \<in> set cs \<Longrightarrow> ?f x + sr_weight x \<le> ?f r + sr_weight r"
    using select_weighted_step [OF ok sel] by metis
  have W: "?W = (\<Sum>x \<in> set cs. sr_weight x)" "0 < ?W"
    using total_weight_sum [OF candidates_ok_distinct [OF ok]] total_weight_pos [OF ok] by simp_all
  have f: "?f x = t * sr_weight x - ?W * n x" "- ?W < ?f x" if "x \<in> set cs" for x
    using fair that by (auto simp: fair_scores_def)
  have "(\<Sum>x \<in> set cs. ?f x) = (\<Sum>x \<in> set cs. t * sr_weight x - ?W * n x)"
    by (rule sum.cong) (simp_all add: f)
  also have "\<dots> = t * ?W - ?W * t"
    using fair W(1) by (simp add: sum_subtractf sum_distrib_left [symmetric] fair_scores_def)
  finally have "(\<Sum>x \<in> set cs. ?f x + sr_weight x) = ?W" by (simp add: sum.distrib W(1))
  moreover have "(\<Sum>x \<in> set cs. ?f x + sr_weight x) \<le> 0" if "?f r + sr_weight r \<le> 0"
    using r(4) that by (intro sum_nonpos) (meson order_trans)
  ultimately have top: "0 < ?f r + sr_weight r" using W(2) by linarith
  have "(\<Sum>x \<in> set cs. (n(r := n r + 1)) x) = (\<Sum>x \<in> set cs. n x) + 1"
    using r(2) by (simp add: sum.remove [OF _ r(2)])
  moreover have "0 < sr_weight x" if "x \<in> set cs" for x using ok that by (simp add: candidates_ok_def)
  ultimately have "fair_scores cs tb' (t + 1) (n(r := n r + 1))"
    using r(3) f top fair by (force simp: fair_scores_def algebra_simps)
  with r(1,2) show thesis by (rule that)
qed

lemma fair_scores_other:
  assumes "candidates_ok cs'" "select_weighted cs' tb = (chosen, tb')" "map key_of cs' \<noteq> map key_of cs"
  shows "fair_scores cs tb' t n = fair_scores cs tb t n"
proof -
  have "map_of tb' (map key_of cs) = map_of tb (map key_of cs)"
    using select_weighted_step [OF assms(1,2)] assms(3) by metis
  then show ?thesis by (simp add: fair_scores_def signature_scores_def)
qed

lemma fair_scores_run:
  assumes "\<And>cs'. cs' \<in> set calls \<Longrightarrow> candidates_ok cs' \<and> (map key_of cs' = map key_of cs \<longrightarrow> cs' = cs)"
    and "candidates_ok cs" "fair_scores cs tb t n"
  shows "fair_scores cs (snd (select_run tb calls)) (t + int (count_list calls cs))
      (\<lambda>r. n r + int (count_list (fst (select_run tb calls)) (cs, r)))"
  using assms
proof (induction calls arbitrary: tb t n)
  case (Cons cs' calls)
  obtain chosen tb' where sel: "select_weighted cs' tb = (chosen, tb')" by fastforce
  have ok': "candidates_ok cs'" using Cons.prems(1) by simp
  note IH = Cons.IH [OF Cons.prems(1) Cons.prems(2)]
  show ?case
  proof (cases "cs' = cs")
    case True
    with fair_scores_step [OF _ Cons.prems(3)] sel Cons.prems(2)
    obtain r where r: "chosen = Some r" "fair_scores cs tb' (t + 1) (n(r := n r + 1))" by metis
    have "fair_scores cs (snd (select_run tb' calls)) (t + 1 + int (count_list calls cs))
      (\<lambda>x. (n(r := n r + 1)) x + int (count_list (fst (select_run tb' calls)) (cs, x)))"
      by (rule IH) (use Cons.prems(1) r in \<open>auto simp: fun_upd_def\<close>)
    moreover have "(\<lambda>x. (n(r := n r + 1)) x + int (count_list (fst (select_run tb' calls)) (cs, x)))
      = (\<lambda>x. n x + int (count_list (fst (select_run tb (cs' # calls))) (cs, x)))"
      using True sel r(1) by (auto split: prod.splits)
    ultimately show ?thesis using True sel r(1) by (simp add: algebra_simps split: prod.splits)
  next
    case False
    then have other: "map key_of cs' \<noteq> map key_of cs" using Cons.prems(1) by auto
    obtain r where r: "chosen = Some r" using select_weighted_step [OF ok' sel] by metis
    have "fair_scores cs tb' t n" using fair_scores_other [OF ok' sel other] Cons.prems(3) by simp
    then have "fair_scores cs (snd (select_run tb' calls)) (t + int (count_list calls cs))
      (\<lambda>x. n x + int (count_list (fst (select_run tb' calls)) (cs, x)))"
      by (intro IH) (use Cons.prems(1) in auto)
    with False sel r show ?thesis by (auto split: prod.splits)
  qed
qed simp

lemma fair_scores_init: "candidates_ok cs \<Longrightarrow> fair_scores cs [] 0 (\<lambda>_. 0)"
  using total_weight_pos [of cs] by (simp add: fair_scores_def signature_scores_def)

text \<open>At a whole number of rounds the lag of every route is zero.\<close>

lemma fair_scores_round:
  assumes ok: "candidates_ok cs" and fair: "fair_scores cs tb (m * total_weight cs) n" and "r \<in> set cs"
  shows "n r = m * sr_weight r"
proof -
  let ?W = "total_weight cs"
  have W: "?W = (\<Sum>x \<in> set cs. sr_weight x)" "0 < ?W"
    using total_weight_sum [OF candidates_ok_distinct [OF ok]] total_weight_pos [OF ok] by simp_all
  have le: "n x \<le> m * sr_weight x" if "x \<in> set cs" for x
  proof -
    from fair that have "- ?W < m * ?W * sr_weight x - ?W * n x" by (auto simp: fair_scores_def)
    then have "?W * n x < ?W * (m * sr_weight x + 1)" by (simp add: algebra_simps)
    with W(2) show ?thesis by (simp add: mult_less_cancel_left)
  qed
  have "(\<Sum>x \<in> set cs. m * sr_weight x - n x) = 0"
    using fair W(1) by (simp add: sum_subtractf sum_distrib_left [symmetric] fair_scores_def)
  with le have "\<forall>x \<in> set cs. m * sr_weight x - n x = 0" by (subst (asm) sum_nonneg_eq_0_iff) simp_all
  with assms(3) show ?thesis by simp
qed

subsection \<open>Properties\<close>

text \<open>
  C13. Smooth weighted round-robin is fair.  Take any sequence of selections over the routes of one
  pool, with eligible sets that change from call to call.  For each eligible set, a route is never
  chosen more than one selection ahead of its weighted share, and whenever that set has been served
  a multiple of its total weight, every route was chosen exactly in proportion to its weight.
\<close>

theorem weighted_selection_fair:
  assumes "distinct (map key_of routes)" and "\<forall>r \<in> set routes. 1 \<le> sr_weight r"
    and "\<forall>c \<in> set calls. c \<noteq> [] \<and> distinct c \<and> set c \<subseteq> set routes"
    and "cs \<in> set calls" and "r \<in> set cs"
  defines "chosen \<equiv> int (count_list (fst (select_run [] calls)) (cs, r))"
    and "served \<equiv> int (count_list calls cs)"
  shows "total_weight cs * chosen < served * sr_weight r + total_weight cs \<and>
    (total_weight cs dvd served \<longrightarrow> total_weight cs * chosen = served * sr_weight r)"
proof -
  have inj: "inj_on key_of (set routes)" using assms(1) by (simp add: distinct_map)
  have ok: "candidates_ok c" if "c \<in> set calls" for c
    using assms(2,3) that inj by (fastforce simp: candidates_ok_def distinct_map intro: inj_on_subset)
  have same: "c = cs" if "c \<in> set calls" "map key_of c = map key_of cs" for c
    using that assms(3,4) inj by (metis inj_on_map_eq_map inj_on_subset Un_subset_iff)
  have fair: "fair_scores cs (snd (select_run [] calls)) (0 + served)
      (\<lambda>x. 0 + int (count_list (fst (select_run [] calls)) (cs, x)))"
    unfolding served_def
    by (rule fair_scores_run) (use ok same assms(4) in \<open>auto intro: fair_scores_init\<close>)
  have "total_weight cs * chosen < served * sr_weight r + total_weight cs"
    using fair assms(5) unfolding fair_scores_def chosen_def by auto
  moreover have "total_weight cs * chosen = served * sr_weight r" if "total_weight cs dvd served"
  proof -
    from that obtain m where m: "served = m * total_weight cs" by (metis dvdE mult.commute)
    with fair have "fair_scores cs (snd (select_run [] calls)) (m * total_weight cs)
      (\<lambda>x. int (count_list (fst (select_run [] calls)) (cs, x)))" by simp
    from fair_scores_round [OF ok [OF assms(4)] this assms(5)] show ?thesis
      by (simp add: chosen_def m)
  qed
  ultimately show ?thesis by blast
qed

definition sample_route :: "string \<Rightarrow> int \<Rightarrow> static_route" where
  "sample_route name weight =
     \<lparr>sr_endpoint = \<lparr>ep_provider = name, ep_endpoint_id = ''e'', ep_protocol = ProtoHttp, ep_host = ''h'',
        ep_port = 8080, ep_kind = KindResidential, ep_countries = []\<rparr>,
      sr_credentials = \<lparr>cred_username = ''u'', cred_password = ''p''\<rparr>, sr_weight = weight\<rparr>"

theorem weighted_selection_fair_witness:
  "count_list (fst (select_run [] (replicate 3 [sample_route ''a'' 2, sample_route ''b'' 1])))
     ([sample_route ''a'' 2, sample_route ''b'' 1], sample_route ''a'' 2) = 2"
proof -
  let ?cs = "[sample_route ''a'' 2, sample_route ''b'' 1]"
  have "3 * int (count_list (fst (select_run [] (replicate 3 ?cs))) (?cs, sample_route ''a'' 2)) = 3 * 2"
    using weighted_selection_fair [of ?cs "replicate 3 ?cs" ?cs "sample_route ''a'' 2"]
    by (simp add: sample_route_def key_of_def total_weight_def numeral_3_eq_3)
  then show ?thesis by simp
qed

end
