(* ===== verification/Static_Pool.thy ===== *)
theory Static_Pool
  imports Request_Budget Weighted_Selection Proxy_Contract
begin

section \<open>The static proxy pool\<close>

text \<open>
  \<^verbatim>\<open>proxy/static.py\<close> over the requests and outcomes of \<^verbatim>\<open>proxy/base.py\<close>.  Leases and usage
  counters are Python objects that are shared: the pool and its client hold the same lease, and a
  lease obtained by rotation holds the usage object of the lease it replaced.  The pool therefore
  keeps two object stores, indexed by allocation number; an identifier into them is a reference.
  Health decisions take the clock reading \<open>now\<close>; no operation suspends, so one reading stands for
  the readings of one call.
\<close>

subsection \<open>Requests, outcomes, usage\<close>

record proxy_request =
  pr_source_id :: string
  pr_target_host :: string
  pr_kind :: proxy_kind
  pr_country :: "string option"
  pr_region :: "string option"
  pr_city :: "string option"
  pr_sticky :: bool
  pr_session_ttl_seconds :: "nat option"
  pr_maximum_requests :: "nat option"
  pr_maximum_bytes :: "nat option"
  pr_preferred_providers :: "string list"
  pr_excluded_providers :: "string list"

record proxy_outcome =
  po_target_host :: string
  po_status :: "nat option"
  po_physical_requests :: nat
  po_transmitted_bytes :: nat
  po_received_bytes :: nat
  po_classification :: string

record proxy_usage =
  pu_maximum_requests :: "nat option"
  pu_maximum_bytes :: "nat option"
  pu_requests :: int
  pu_used_bytes :: int
  pu_reserved_bytes :: int
  pu_next_authorization_id :: nat
  pu_authorizations :: "(nat, nat) odict"

definition proxy_usage_new :: "nat option \<Rightarrow> nat option \<Rightarrow> proxy_usage" where
  "proxy_usage_new maximum_requests maximum_bytes =
     \<lparr>pu_maximum_requests = maximum_requests, pu_maximum_bytes = maximum_bytes,
      pu_requests = 0, pu_used_bytes = 0, pu_reserved_bytes = 0,
      pu_next_authorization_id = 0, pu_authorizations = []\<rparr>"

text \<open>The critical section of \<^verbatim>\<open>StaticProxyPool.authorize\<close> under the usage lock.\<close>

definition pu_authorize :: "nat \<Rightarrow> proxy_usage \<Rightarrow> nat option \<times> proxy_usage" where
  "pu_authorize estimated_bytes u =
     (if (case pu_maximum_requests u of None \<Rightarrow> False | Some m \<Rightarrow> pu_requests u \<ge> int m) \<or>
         (case pu_maximum_bytes u of None \<Rightarrow> False
          | Some m \<Rightarrow> pu_used_bytes u + pu_reserved_bytes u + int estimated_bytes > int m)
      then (None, u)
      else (let authorization_id = pu_next_authorization_id u in
        (Some authorization_id,
         u\<lparr>pu_next_authorization_id := authorization_id + 1,
           pu_requests := pu_requests u + 1,
           pu_reserved_bytes := pu_reserved_bytes u + int estimated_bytes,
           pu_authorizations := od_set authorization_id estimated_bytes (pu_authorizations u)\<rparr>)))"

text \<open>\<^verbatim>\<open>_StaticProxyAuthorization.reconcile\<close>, \<^verbatim>\<open>release\<close> and \<^verbatim>\<open>_resolve\<close>.\<close>

definition pu_resolve :: "nat \<Rightarrow> proxy_usage \<Rightarrow> (exn + nat) \<times> proxy_usage" where
  "pu_resolve authorization_id u =
     (case map_of (pu_authorizations u) authorization_id of
        None \<Rightarrow> (Inl (RuntimeErr ''proxy attempt authorization already resolved''), u)
      | Some estimated_bytes \<Rightarrow>
          (Inr estimated_bytes,
           u\<lparr>pu_authorizations := od_pop authorization_id (pu_authorizations u)\<rparr>))"

definition pu_reconcile :: "nat \<Rightarrow> proxy_outcome \<Rightarrow> proxy_usage \<Rightarrow> (exn + unit) \<times> proxy_usage" where
  "pu_reconcile authorization_id outcome u =
     (case pu_resolve authorization_id u of
        (Inl e, u') \<Rightarrow> (Inl e, u')
      | (Inr estimated_bytes, u') \<Rightarrow>
          (let u'' = u'\<lparr>pu_reserved_bytes := pu_reserved_bytes u' - int estimated_bytes,
                        pu_requests := pu_requests u' + (int (po_physical_requests outcome) - 1),
                        pu_used_bytes := pu_used_bytes u'
                          + int (po_transmitted_bytes outcome + po_received_bytes outcome)\<rparr>
           in if (case pu_maximum_requests u'' of None \<Rightarrow> False | Some m \<Rightarrow> pu_requests u'' > int m) \<or>
                 (case pu_maximum_bytes u'' of None \<Rightarrow> False | Some m \<Rightarrow> pu_used_bytes u'' > int m)
              then (Inl (ProxyBudgetExhausted (pu_maximum_requests u'') (pu_maximum_bytes u'')
                          (pu_requests u'') (pu_used_bytes u'')), u'')
              else (Inr (), u'')))"

definition pu_release :: "nat \<Rightarrow> proxy_usage \<Rightarrow> (exn + unit) \<times> proxy_usage" where
  "pu_release authorization_id u =
     (case pu_resolve authorization_id u of
        (Inl e, u') \<Rightarrow> (Inl e, u')
      | (Inr estimated_bytes, u') \<Rightarrow>
          (Inr (), u'\<lparr>pu_requests := pu_requests u' - 1,
                      pu_reserved_bytes := pu_reserved_bytes u' - int estimated_bytes\<rparr>))"

lemmas pu_ops = pu_authorize_def pu_resolve_def pu_reconcile_def pu_release_def Let_def

definition pu_inv :: "proxy_usage \<Rightarrow> bool" where
  "pu_inv u \<longleftrightarrow>
     od_wf (pu_authorizations u) \<and> od_below (pu_next_authorization_id u) (pu_authorizations u) \<and>
     pu_reserved_bytes u = od_total (pu_authorizations u) \<and>
     int (length (pu_authorizations u)) \<le> pu_requests u \<and> 0 \<le> pu_used_bytes u"

lemma pu_inv_new: "pu_inv (proxy_usage_new mr mb)"
  by (simp add: pu_inv_def proxy_usage_new_def od_total_def)

lemma pu_inv_authorize: "pu_inv u \<Longrightarrow> pu_inv (snd (pu_authorize est u))"
  by (auto simp: pu_inv_def pu_authorize_def Let_def od_length_set od_total_set_new
      split: option.splits)

lemma pu_pop_length:
  "pu_inv u \<Longrightarrow> map_of (pu_authorizations u) i = Some est \<Longrightarrow>
    Suc (length (od_pop i (pu_authorizations u))) = length (pu_authorizations u)"
  by (intro od_length_pop) (auto simp: pu_inv_def od_keys_iff)

lemma pu_inv_reconcile: "pu_inv u \<Longrightarrow> pu_inv (snd (pu_reconcile i out u))"
  using pu_pop_length [of u i]
  by (cases "map_of (pu_authorizations u) i") (auto simp: pu_inv_def pu_ops od_total_pop split: option.splits)

lemma pu_inv_release: "pu_inv u \<Longrightarrow> pu_inv (snd (pu_release i u))"
  using pu_pop_length [of u i]
  by (cases "map_of (pu_authorizations u) i") (auto simp: pu_inv_def pu_ops od_total_pop split: option.splits)

interpretation proxy_usage:
  attempt_budget pu_authorize pu_reconcile pu_release "\<lambda>u. map_of (pu_authorizations u)" pu_inv "\<lambda>_. True"
proof (unfold_locales, goal_cases)
  case (1 u est i u')
  then show ?case
    using pu_inv_authorize [of u est]
    by (auto simp: pu_authorize_def Let_def od_simps pu_inv_def split: if_splits)
next
  case (3 u out i)
  then show ?case
    using pu_inv_reconcile [of u i out]
    by (cases "map_of (pu_authorizations u) i") (simp_all add: pu_ops od_simps)
next
  case (5 u i)
  then show ?case
    using pu_inv_release [of u i]
    by (cases "map_of (pu_authorizations u) i") (simp_all add: pu_ops od_simps)
qed (auto simp: pu_ops split: if_splits)

subsection \<open>Leases and the pool\<close>

record static_lease =
  sl_lease_id :: string
  sl_provider :: string
  sl_route :: proxy_endpoint
  sl_credentials :: proxy_credentials
  sl_request :: proxy_request
  sl_usage :: nat
  sl_expires_at :: "int option"
  sl_maximum_bytes :: "nat option"
  sl_released :: bool

record static_pool =
  sp_routes :: "static_route list"
  sp_health :: proxy_health
  sp_counter :: nat
  sp_routing_scores :: "(route_key list, scores) odict"
  sp_leases :: "(string, nat) odict"
  sp_lease_store :: "nat \<rightharpoonup> static_lease"
  sp_usage_store :: "nat \<rightharpoonup> proxy_usage"

definition static_pool_init :: "static_route list \<Rightarrow> proxy_health \<Rightarrow> exn + static_pool" where
  "static_pool_init routes health =
     (let route_keys = map key_of routes in
      if length route_keys \<noteq> length (remdups route_keys)
      then Inl (ValueError ''proxy routes must have unique provider/endpoint identities'')
      else Inr \<lparr>sp_routes = routes, sp_health = health, sp_counter = 1, sp_routing_scores = [],
                sp_leases = [], sp_lease_store = Map.empty, sp_usage_store = Map.empty\<rparr>)"

definition sp_active_leases :: "static_pool \<Rightarrow> nat" where
  "sp_active_leases p = length (sp_leases p)"

text \<open>
  \<^verbatim>\<open>_eligible\<close>: the health check is evaluated last and marks the entry as recently used, so the
  filter threads the health state.
\<close>

definition sp_eligible :: "int \<Rightarrow> proxy_request \<Rightarrow> static_route \<Rightarrow> proxy_health \<Rightarrow> bool \<times> proxy_health" where
  "sp_eligible now request route h =
     (let endpoint = sr_endpoint route in
      if ep_provider endpoint \<notin> set (pr_excluded_providers request)
         \<and> ep_kind endpoint = pr_kind request
         \<and> (case pr_country request of None \<Rightarrow> True
             | Some c \<Rightarrow> ep_countries endpoint = [] \<or> c \<in> set (ep_countries endpoint))
      then ph_available now (ep_provider endpoint, ep_endpoint_id endpoint, pr_target_host request) h
      else (False, h))"

fun sp_candidates ::
  "int \<Rightarrow> proxy_request \<Rightarrow> static_route list \<Rightarrow> proxy_health \<Rightarrow> static_route list \<times> proxy_health" where
  "sp_candidates now request [] h = ([], h)"
| "sp_candidates now request (route # routes) h =
     (case sp_eligible now request route h of (ok, h') \<Rightarrow>
        (case sp_candidates now request routes h' of (rest, h'') \<Rightarrow>
           ((if ok then route # rest else rest), h'')))"

fun preferred_tier :: "string list \<Rightarrow> static_route list \<Rightarrow> static_route list" where
  "preferred_tier [] candidates = candidates"
| "preferred_tier (provider # providers) candidates =
     (let preferred = filter (\<lambda>r. ep_provider (sr_endpoint r) = provider) candidates
      in if preferred \<noteq> [] then preferred else preferred_tier providers candidates)"

definition unsupported_constraints :: "proxy_request \<Rightarrow> string list" where
  "unsupported_constraints request =
     (if pr_region request \<noteq> None then [''region''] else [])
     @ (if pr_city request \<noteq> None then [''city''] else [])
     @ (if pr_session_ttl_seconds request \<noteq> None then [''session_ttl_seconds''] else [])"

definition lease_id_of :: "nat \<Rightarrow> string" where
  "lease_id_of n = ''static-'' @ nat_str n"

definition sp_acquire :: "int \<Rightarrow> proxy_request \<Rightarrow> static_pool \<Rightarrow> (exn + nat) \<times> static_pool" where
  "sp_acquire now request p =
     (if unsupported_constraints request \<noteq> []
      then (Inl (ValueError (''static proxy routes cannot prove requested constraints: ''
                  @ py_join '', '' (unsupported_constraints request))), p)
      else (case sp_candidates now request (sp_routes p) (sp_health p) of (candidates, health) \<Rightarrow>
        (let p1 = p\<lparr>sp_health := health\<rparr> in
         if candidates = []
         then (Inl (RuntimeErr ''no healthy proxy route satisfies the request''), p1)
         else (case select_weighted (preferred_tier (pr_preferred_providers request) candidates)
                      (sp_routing_scores p1) of
             (None, scores) \<Rightarrow> (Inl (AssertionErr ''unreachable''), p1)
           | (Some selected, scores) \<Rightarrow>
              (let n = sp_counter p1;
                   lease = \<lparr>sl_lease_id = lease_id_of n,
                     sl_provider = ep_provider (sr_endpoint selected), sl_route = sr_endpoint selected,
                     sl_credentials = sr_credentials selected, sl_request = request, sl_usage = n,
                     sl_expires_at = None, sl_maximum_bytes = pr_maximum_bytes request,
                     sl_released = False\<rparr>
               in (Inr n, p1\<lparr>sp_routing_scores := scores, sp_counter := n + 1,
                     sp_leases := od_set (lease_id_of n) n (sp_leases p1),
                     sp_lease_store := (sp_lease_store p1)(n \<mapsto> lease),
                     sp_usage_store := (sp_usage_store p1)(n \<mapsto>
                       proxy_usage_new (pr_maximum_requests request) (pr_maximum_bytes request))\<rparr>))))))"

text \<open>
  A client passes a lease object \<open>l\<close> (a reference into the lease store); the pool looks it up by
  its \<^verbatim>\<open>lease_id\<close>.
\<close>

definition sp_current :: "nat \<Rightarrow> static_pool \<Rightarrow> (nat \<times> static_lease) option" where
  "sp_current l p =
     (case sp_lease_store p l of None \<Rightarrow> None
      | Some given \<Rightarrow> (case map_of (sp_leases p) (sl_lease_id given) of None \<Rightarrow> None
          | Some c \<Rightarrow> (case sp_lease_store p c of None \<Rightarrow> None
              | Some current \<Rightarrow> if sl_released current then None else Some (c, current))))"

definition sp_owned :: "nat \<Rightarrow> static_pool \<Rightarrow> exn + nat \<times> static_lease" where
  "sp_owned l p =
     (case sp_current l p of None \<Rightarrow> Inl (RuntimeErr ''proxy lease is not active'')
      | Some cur \<Rightarrow> Inr cur)"

definition sp_release :: "nat \<Rightarrow> static_pool \<Rightarrow> (exn + unit) \<times> static_pool" where
  "sp_release l p =
     (case sp_current l p of None \<Rightarrow> (Inr (), p)
      | Some (c, current) \<Rightarrow>
          (Inr (), p\<lparr>sp_lease_store := (sp_lease_store p)(c \<mapsto> current\<lparr>sl_released := True\<rparr>),
                     sp_leases := od_pop (sl_lease_id current) (sp_leases p)\<rparr>))"

definition sp_rotate ::
  "int \<Rightarrow> nat \<Rightarrow> rotation_reason \<Rightarrow> static_pool \<Rightarrow> (exn + nat) \<times> static_pool" where
  "sp_rotate now l reason p =
     (case sp_owned l p of Inl e \<Rightarrow> (Inl e, p)
      | Inr (c, current) \<Rightarrow>
          (case sp_release c p of
             (Inl e, p1) \<Rightarrow> (Inl e, p1)
           | (Inr _, p1) \<Rightarrow>
               (case sp_acquire now (sl_request current) p1 of
                  (Inl e, p2) \<Rightarrow> (Inl e, p2)
                | (Inr n, p2) \<Rightarrow>
                    (Inr n, p2\<lparr>sp_lease_store := (sp_lease_store p2)
                       (n := map_option (\<lambda>r. r\<lparr>sl_usage := sl_usage current\<rparr>) (sp_lease_store p2 n))\<rparr>))))"

text \<open>An authorization handle is the pair of the usage reference and the authorization number.\<close>

definition sp_authorize :: "nat \<Rightarrow> int \<Rightarrow> static_pool \<Rightarrow> (exn + (nat \<times> nat) option) \<times> static_pool" where
  "sp_authorize l estimated_bytes p =
     (if estimated_bytes < 0 then (Inl (ValueError ''estimated_bytes must be non-negative''), p)
      else (case sp_owned l p of Inl e \<Rightarrow> (Inl e, p)
        | Inr (c, current) \<Rightarrow>
           (case sp_usage_store p (sl_usage current) of
              None \<Rightarrow> (Inl (AssertionErr ''dangling usage''), p)
            | Some usage \<Rightarrow>
               (case pu_authorize (nat estimated_bytes) usage of
                  (None, _) \<Rightarrow> (Inr None, p)
                | (Some i, usage') \<Rightarrow>
                    (Inr (Some (sl_usage current, i)),
                     p\<lparr>sp_usage_store := (sp_usage_store p)(sl_usage current \<mapsto> usage')\<rparr>)))))"

definition on_usage ::
  "(proxy_usage \<Rightarrow> (exn + unit) \<times> proxy_usage) \<Rightarrow> nat \<Rightarrow> static_pool \<Rightarrow> (exn + unit) \<times> static_pool" where
  "on_usage f ref p =
     (case sp_usage_store p ref of
        None \<Rightarrow> (Inl (AssertionErr ''dangling usage''), p)
      | Some usage \<Rightarrow> (case f usage of (res, usage') \<Rightarrow>
           (res, p\<lparr>sp_usage_store := (sp_usage_store p)(ref \<mapsto> usage')\<rparr>)))"

definition sp_auth_reconcile ::
  "nat \<times> nat \<Rightarrow> proxy_outcome \<Rightarrow> static_pool \<Rightarrow> (exn + unit) \<times> static_pool" where
  "sp_auth_reconcile a outcome p = on_usage (pu_reconcile (snd a) outcome) (fst a) p"

definition sp_auth_release :: "nat \<times> nat \<Rightarrow> static_pool \<Rightarrow> (exn + unit) \<times> static_pool" where
  "sp_auth_release a p = on_usage (pu_release (snd a)) (fst a) p"

text \<open>\<^verbatim>\<open>ProxyFailureReason(classification)\<close>: the classifications that count against a route.\<close>

definition failure_reason_of :: "string \<Rightarrow> proxy_failure_reason option" where
  "failure_reason_of c =
     (if c = ''blocked'' then Some FailBlocked
      else if c = ''rate_limited'' then Some FailRateLimited
      else if c = ''captcha'' then Some FailCaptcha
      else if c = ''transport_failure'' then Some FailTransportFailure
      else None)"

definition sp_report :: "int \<Rightarrow> nat \<Rightarrow> proxy_outcome \<Rightarrow> static_pool \<Rightarrow> (exn + unit) \<times> static_pool" where
  "sp_report now l outcome p =
     (case sp_owned l p of Inl e \<Rightarrow> (Inl e, p)
      | Inr (c, current) \<Rightarrow>
          (let key = (sl_provider current, ep_endpoint_id (sl_route current), po_target_host outcome) in
           if po_classification outcome = ''success''
           then (Inr (), p\<lparr>sp_health := ph_success now key (sp_health p)\<rparr>)
           else (case failure_reason_of (po_classification outcome) of
               None \<Rightarrow> (Inr (), p)
             | Some reason \<Rightarrow> (Inr (), p\<lparr>sp_health := ph_failure now key reason (sp_health p)\<rparr>))))"

text \<open>\<^verbatim>\<open>StaticProxyLease.can_start\<close> and its accessors, on a lease object.\<close>

definition lease_can_start :: "int \<Rightarrow> nat \<Rightarrow> static_lease \<Rightarrow> static_pool \<Rightarrow> bool" where
  "lease_can_start now estimated_bytes lease p =
     (case sp_usage_store p (sl_usage lease) of None \<Rightarrow> False
      | Some usage \<Rightarrow>
          \<not> sl_released lease
          \<and> (case sl_expires_at lease of None \<Rightarrow> True | Some t \<Rightarrow> t > now)
          \<and> (case pu_maximum_requests usage of None \<Rightarrow> True | Some m \<Rightarrow> pu_requests usage < int m)
          \<and> (case sl_maximum_bytes lease of None \<Rightarrow> True
              | Some m \<Rightarrow> pu_used_bytes usage + pu_reserved_bytes usage + int estimated_bytes \<le> int m))"

subsection \<open>Well-formed pools\<close>

lemma lease_id_inject [simp]: "lease_id_of m = lease_id_of n \<longleftrightarrow> m = n"
  by (metis lease_id_of_def nat_str_decode same_append_eq)

definition sp_active :: "static_pool \<Rightarrow> nat set" where
  "sp_active p = {l. \<exists>lease. sp_lease_store p l = Some lease \<and> \<not> sl_released lease}"

text \<open>
  The table of active leases and the object stores agree: a lease object carries its own
  identifier, it is in the table exactly while it is not released, and its usage object exists.
\<close>

definition sp_inv :: "static_pool \<Rightarrow> bool" where
  "sp_inv p \<longleftrightarrow>
     distinct (map key_of (sp_routes p)) \<and> od_wf (sp_leases p) \<and>
     (\<forall>l lease. sp_lease_store p l = Some lease \<longrightarrow>
        l < sp_counter p \<and> sl_lease_id lease = lease_id_of l \<and> sp_usage_store p (sl_usage lease) \<noteq> None) \<and>
     (\<forall>s l. map_of (sp_leases p) s = Some l \<longleftrightarrow> s = lease_id_of l \<and> l \<in> sp_active p) \<and>
     (\<forall>ref u. sp_usage_store p ref = Some u \<longrightarrow> pu_inv u \<and> ref < sp_counter p)"

lemma static_pool_init_inv: "static_pool_init routes h = Inr p \<Longrightarrow> sp_inv p \<and> sp_active p = {}"
  by (auto simp: static_pool_init_def sp_inv_def sp_active_def Let_def length_remdups_card_conv
      card_distinct split: if_splits)

lemma sp_current_active:
  assumes "sp_inv p"
  shows "sp_current l p = (case sp_lease_store p l of None \<Rightarrow> None
      | Some lease \<Rightarrow> if sl_released lease then None else Some (l, lease))"
proof (cases "sp_lease_store p l")
  case (Some lease)
  with assms have id: "sl_lease_id lease = lease_id_of l" by (simp add: sp_inv_def)
  have "map_of (sp_leases p) (lease_id_of l) = (if sl_released lease then None else Some l)"
  proof (cases "sl_released lease")
    case True
    with Some assms have "map_of (sp_leases p) (lease_id_of l) \<noteq> Some c" for c
      by (auto simp: sp_inv_def sp_active_def)
    with True show ?thesis by (cases "map_of (sp_leases p) (lease_id_of l)") auto
  next
    case False
    with Some assms show ?thesis by (auto simp: sp_inv_def sp_active_def)
  qed
  with Some id show ?thesis by (simp add: sp_current_def)
qed (simp add: sp_current_def)

lemma sp_owned_iff:
  "sp_inv p \<Longrightarrow> sp_owned l p = Inr (c, lease) \<longleftrightarrow>
     c = l \<and> sp_lease_store p l = Some lease \<and> \<not> sl_released lease"
  by (auto simp: sp_owned_def sp_current_active split: option.splits if_splits)

lemma sp_release_spec:
  assumes "sp_inv p"
  shows "\<exists>p'. sp_release l p = (Inr (), p') \<and> sp_active p' = sp_active p - {l} \<and> sp_inv p'
      \<and> sp_counter p' = sp_counter p \<and> sp_usage_store p' = sp_usage_store p
      \<and> sp_routes p' = sp_routes p \<and> sp_health p' = sp_health p"
proof (cases "\<exists>lease. sp_lease_store p l = Some lease \<and> \<not> sl_released lease")
  case True
  then obtain lease where l: "sp_lease_store p l = Some lease" "\<not> sl_released lease" by blast
  let ?p = "p\<lparr>sp_lease_store := (sp_lease_store p)(l \<mapsto> lease\<lparr>sl_released := True\<rparr>),
              sp_leases := od_pop (lease_id_of l) (sp_leases p)\<rparr>"
  have id: "sl_lease_id lease = lease_id_of l" using assms l by (simp add: sp_inv_def)
  have rel: "sp_release l p = (Inr (), ?p)"
    using assms l id by (simp add: sp_release_def sp_current_active)
  have act: "sp_active ?p = sp_active p - {l}"
    using l by (auto simp: sp_active_def)
  have "sp_inv ?p"
    unfolding sp_inv_def act using assms l id
    by (auto simp: sp_inv_def od_simps intro!: od_wf_pop)
  with rel act show ?thesis by auto
next
  case False
  with assms have "sp_release l p = (Inr (), p)" "l \<notin> sp_active p"
    by (auto simp: sp_release_def sp_current_active sp_active_def split: option.splits)
  with assms show ?thesis by simp
qed

lemma sp_acquire_Inl:
  "sp_acquire now r p = (Inl e, p') \<Longrightarrow> \<exists>h. p' = p\<lparr>sp_health := h\<rparr>"
  by (cases p) (auto simp: sp_acquire_def Let_def split: if_splits prod.splits option.splits)

lemma sp_inv_health [simp]: "sp_inv (p\<lparr>sp_health := h\<rparr>) = sp_inv p"
  by (simp add: sp_inv_def sp_active_def)

lemma sp_active_health [simp]: "sp_active (p\<lparr>sp_health := h\<rparr>) = sp_active p"
  by (simp add: sp_active_def)

lemma sp_acquire_Inr:
  assumes "sp_inv p" "sp_acquire now r p = (Inr n, p')"
  shows "n = sp_counter p" "n \<notin> sp_active p" "sp_active p' = insert n (sp_active p)" "sp_inv p'"
    "\<exists>lease. sp_lease_store p' = (sp_lease_store p)(n \<mapsto> lease) \<and> sl_request lease = r
       \<and> \<not> sl_released lease \<and> sl_usage lease = n \<and> sl_lease_id lease = lease_id_of n"
    "sp_usage_store p' = (sp_usage_store p)(n \<mapsto> proxy_usage_new (pr_maximum_requests r) (pr_maximum_bytes r))"
    "sp_counter p' = Suc n"
proof -
  obtain lease h scores where n: "n = sp_counter p" and
    p': "p' = p\<lparr>sp_health := h, sp_routing_scores := scores, sp_counter := n + 1,
          sp_leases := od_set (lease_id_of n) n (sp_leases p),
          sp_lease_store := (sp_lease_store p)(n \<mapsto> lease),
          sp_usage_store := (sp_usage_store p)(n \<mapsto>
             proxy_usage_new (pr_maximum_requests r) (pr_maximum_bytes r))\<rparr>" and
    lease: "sl_request lease = r" "\<not> sl_released lease" "sl_usage lease = n" "sl_lease_id lease = lease_id_of n"
    using assms(2) by (auto simp: sp_acquire_def Let_def split: if_splits prod.splits option.splits)
  have fresh: "sp_lease_store p n = None" "sp_usage_store p n = None"
    using assms(1) n unfolding sp_inv_def by (metis less_irrefl not_None_eq)+
  show "n = sp_counter p" by (fact n)
  show "n \<notin> sp_active p" using fresh by (simp add: sp_active_def)
  show act: "sp_active p' = insert n (sp_active p)"
    using fresh lease by (auto simp: p' sp_active_def)
  show "sp_inv p'"
    unfolding sp_inv_def act using assms(1) lease fresh n pu_inv_new
    by (auto simp: p' sp_inv_def od_simps less_Suc_eq intro!: od_wf_set)
  show "\<exists>lease. sp_lease_store p' = (sp_lease_store p)(n \<mapsto> lease) \<and> sl_request lease = r
       \<and> \<not> sl_released lease \<and> sl_usage lease = n \<and> sl_lease_id lease = lease_id_of n"
    using lease by (auto simp: p')
  show "sp_usage_store p' = (sp_usage_store p)(n \<mapsto> proxy_usage_new (pr_maximum_requests r) (pr_maximum_bytes r))"
    "sp_counter p' = Suc n"
    by (simp_all add: p')
qed

lemma sp_rotate_Inr:
  assumes "sp_inv p" "l \<in> sp_active p" "sp_rotate now l reason p = (Inr n, p')"
  shows "n \<notin> sp_active p" "sp_active p' = insert n (sp_active p - {l})" "sp_inv p'"
    "\<exists>old new. sp_lease_store p l = Some old \<and> sp_lease_store p' n = Some new
       \<and> sl_usage new = sl_usage old \<and> sl_request new = sl_request old
       \<and> sp_usage_store p' (sl_usage new) = sp_usage_store p (sl_usage old)"
proof -
  obtain old where old: "sp_lease_store p l = Some old" "\<not> sl_released old"
    using assms(2) by (auto simp: sp_active_def)
  obtain p1 where p1: "sp_release l p = (Inr (), p1)" "sp_active p1 = sp_active p - {l}" "sp_inv p1"
      "sp_counter p1 = sp_counter p" "sp_usage_store p1 = sp_usage_store p"
    using sp_release_spec [OF assms(1)] by metis
  have own: "sp_owned l p = Inr (l, old)" using sp_owned_iff [OF assms(1)] old by simp
  obtain p2 where acq: "sp_acquire now (sl_request old) p1 = (Inr n, p2)"
    and p': "p' = p2\<lparr>sp_lease_store := (sp_lease_store p2)
          (n := map_option (\<lambda>r. r\<lparr>sl_usage := sl_usage old\<rparr>) (sp_lease_store p2 n))\<rparr>"
    using assms(3) p1(1) own by (auto simp: sp_rotate_def split: prod.splits sum.splits)
  note a = sp_acquire_Inr [OF p1(3) acq]
  from a(5) obtain lease where lease: "sp_lease_store p2 = (sp_lease_store p1)(n \<mapsto> lease)"
    "sl_request lease = sl_request old" "\<not> sl_released lease" "sl_lease_id lease = lease_id_of n" by blast
  have below: "\<And>x. x \<in> sp_active p \<Longrightarrow> x < sp_counter p"
    and usage: "sp_usage_store p (sl_usage old) \<noteq> None" "\<And>ref. sp_usage_store p ref \<noteq> None \<Longrightarrow> ref < sp_counter p"
    using assms(1) old unfolding sp_inv_def sp_active_def by blast+
  have n: "n = sp_counter p" using a(1) p1(4) by simp
  with below show "n \<notin> sp_active p" by blast
  have act: "sp_active p' = sp_active p2" using lease by (auto simp: p' sp_active_def)
  with a(3) p1(2) show "sp_active p' = insert n (sp_active p - {l})" by simp
  have neq: "sl_usage old \<noteq> n" using usage n by (metis less_irrefl)
  then have same: "sp_usage_store p' (sl_usage old) = sp_usage_store p (sl_usage old)"
    using a(6) p1(5) by (simp add: p')
  show "sp_inv p'"
    using a(4) lease usage(1) same unfolding sp_inv_def act by (simp add: p') metis
  show "\<exists>old new. sp_lease_store p l = Some old \<and> sp_lease_store p' n = Some new
       \<and> sl_usage new = sl_usage old \<and> sl_request new = sl_request old
       \<and> sp_usage_store p' (sl_usage new) = sp_usage_store p (sl_usage old)"
    using old lease same by (simp add: p')
qed

lemma sp_rotate_Inl:
  assumes "sp_inv p" "l \<in> sp_active p" "sp_rotate now l reason p = (Inl e, p')"
  shows "sp_active p' = sp_active p - {l} \<and> sp_inv p'"
proof -
  obtain old where old: "sp_lease_store p l = Some old" "\<not> sl_released old"
    using assms(2) by (auto simp: sp_active_def)
  obtain p1 where p1: "sp_release l p = (Inr (), p1)" "sp_active p1 = sp_active p - {l}" "sp_inv p1"
    using sp_release_spec [OF assms(1)] by metis
  have "sp_owned l p = Inr (l, old)" using sp_owned_iff [OF assms(1)] old by simp
  with assms(3) p1(1) have "sp_acquire now (sl_request old) p1 = (Inl e, p')"
    by (auto simp: sp_rotate_def split: prod.splits sum.splits)
  then obtain h where "p' = p1\<lparr>sp_health := h\<rparr>" by (blast dest: sp_acquire_Inl)
  with p1 show ?thesis by simp
qed

interpretation static_pool:
  proxy_pool "sp_acquire now" "sp_rotate now" sp_release sp_active sp_inv
proof (unfold_locales, goal_cases)
  case (1 p r l p')
  then show ?case using sp_acquire_Inr by blast
next
  case (2 p r e p')
  then show ?case using sp_acquire_Inl by fastforce
next
  case (3 p l reason l' p')
  then show ?case using sp_rotate_Inr by blast
next
  case (4 p l reason e p')
  then show ?case using sp_rotate_Inl by blast
next
  case (5 p l)
  then show ?case using sp_release_spec by metis
qed

subsection \<open>Which route a lease gets\<close>

lemma sp_candidates_sound:
  "sp_candidates now r routes h = (cs, h') \<Longrightarrow>
     set cs \<subseteq> set routes \<and> (\<forall>x \<in> set cs. ep_provider (sr_endpoint x) \<notin> set (pr_excluded_providers r)
        \<and> ep_kind (sr_endpoint x) = pr_kind r
        \<and> (case pr_country r of None \<Rightarrow> True
           | Some c \<Rightarrow> ep_countries (sr_endpoint x) = [] \<or> c \<in> set (ep_countries (sr_endpoint x))))"
proof (induction now r routes h arbitrary: cs h' rule: sp_candidates.induct)
  case (2 now r route routes h)
  obtain ok h1 where ok: "sp_eligible now r route h = (ok, h1)" by fastforce
  obtain rest h2 where rest: "sp_candidates now r routes h1 = (rest, h2)" by fastforce
  have "ok \<Longrightarrow> ep_provider (sr_endpoint route) \<notin> set (pr_excluded_providers r)
        \<and> ep_kind (sr_endpoint route) = pr_kind r
        \<and> (case pr_country r of None \<Rightarrow> True
           | Some c \<Rightarrow> ep_countries (sr_endpoint route) = [] \<or> c \<in> set (ep_countries (sr_endpoint route)))"
    using ok by (auto simp: sp_eligible_def Let_def split: if_splits)
  with 2(1) [OF ok [symmetric] rest] 2(2) ok rest show ?case by (auto split: if_splits)
qed simp

lemma preferred_tier_subset: "set (preferred_tier ps cs) \<subseteq> set cs"
  by (induction ps cs rule: preferred_tier.induct) (auto simp: Let_def)

lemma preferred_tier_nonempty: "cs \<noteq> [] \<Longrightarrow> preferred_tier ps cs \<noteq> []"
  by (induction ps cs rule: preferred_tier.induct) (auto simp: Let_def)

text \<open>If a preferred provider has a candidate, only the most preferred such provider is used.\<close>

lemma preferred_tier_first:
  assumes "x \<in> set cs" "ep_provider (sr_endpoint x) = provider" "provider \<in> set ps"
  shows "\<exists>q \<in> set ps. \<forall>y \<in> set (preferred_tier ps cs). ep_provider (sr_endpoint y) = q"
  using assms
proof (induction ps cs rule: preferred_tier.induct)
  case (2 q ps cs)
  then show ?case by (cases "filter (\<lambda>r. ep_provider (sr_endpoint r) = q) cs = []")
      (auto simp: Let_def filter_empty_conv)
qed simp

subsection \<open>Runs of the pool\<close>

datatype pool_event =
    PoolAcquire int proxy_request
  | PoolRotate int nat rotation_reason
  | PoolRelease nat
  | PoolAuthorize nat int
  | PoolReconcile "nat \<times> nat" proxy_outcome
  | PoolReleaseAuth "nat \<times> nat"
  | PoolReport int nat proxy_outcome

fun pool_step :: "static_pool \<Rightarrow> pool_event \<Rightarrow> static_pool" where
  "pool_step p (PoolAcquire now r) = snd (sp_acquire now r p)"
| "pool_step p (PoolRotate now l reason) = snd (sp_rotate now l reason p)"
| "pool_step p (PoolRelease l) = snd (sp_release l p)"
| "pool_step p (PoolAuthorize l est) = snd (sp_authorize l est p)"
| "pool_step p (PoolReconcile a out) = snd (sp_auth_reconcile a out p)"
| "pool_step p (PoolReleaseAuth a) = snd (sp_auth_release a p)"
| "pool_step p (PoolReport now l out) = snd (sp_report now l out p)"

lemma sp_active_usage [simp]: "sp_active (p\<lparr>sp_usage_store := m\<rparr>) = sp_active p"
  by (simp add: sp_active_def)

lemma sp_inv_usage_update:
  assumes "sp_inv p" "sp_usage_store p ref = Some u" "pu_inv u'"
  shows "sp_inv (p\<lparr>sp_usage_store := (sp_usage_store p)(ref \<mapsto> u')\<rparr>)"
  using assms by (simp add: sp_inv_def)

lemma sp_inv_usageD: "sp_inv p \<Longrightarrow> sp_usage_store p ref = Some u \<Longrightarrow> pu_inv u"
  by (simp add: sp_inv_def)

lemma on_usage_inv:
  assumes "sp_inv p" "\<And>u. pu_inv u \<Longrightarrow> pu_inv (snd (f u))"
  shows "sp_inv (snd (on_usage f ref p))"
proof (cases "sp_usage_store p ref")
  case (Some u)
  with assms have "pu_inv (snd (f u))" by (blast dest: sp_inv_usageD)
  with sp_inv_usage_update [OF assms(1) Some] Some show ?thesis
    by (cases "f u") (simp add: on_usage_def)
qed (simp add: on_usage_def assms(1))

lemma sp_authorize_inv:
  assumes "sp_inv p" shows "sp_inv (snd (sp_authorize l est p))"
proof (cases "\<exists>c cur u i u'. 0 \<le> est \<and> sp_owned l p = Inr (c, cur) \<and> sp_usage_store p (sl_usage cur) = Some u
    \<and> pu_authorize (nat est) u = (Some i, u')")
  case True
  then obtain c cur u i u' where *: "0 \<le> est" "sp_owned l p = Inr (c, cur)"
    "sp_usage_store p (sl_usage cur) = Some u" "pu_authorize (nat est) u = (Some i, u')" by blast
  from pu_inv_authorize [OF sp_inv_usageD [OF assms *(3)], of "nat est"] *(4) have "pu_inv u'" by simp
  with sp_inv_usage_update [OF assms *(3)] * show ?thesis by (simp add: sp_authorize_def)
next
  case False
  then have "snd (sp_authorize l est p) = p"
    by (auto simp: sp_authorize_def split: sum.splits option.splits prod.splits)
  with assms show ?thesis by simp
qed

lemma sp_rotate_inv:
  assumes "sp_inv p" shows "sp_inv (snd (sp_rotate now l reason p))"
proof (cases "l \<in> sp_active p")
  case True
  obtain x p' where "sp_rotate now l reason p = (x, p')" by fastforce
  with sp_rotate_Inr [OF assms True] sp_rotate_Inl [OF assms True] show ?thesis by (cases x) auto
next
  case False
  then have "sp_owned l p \<noteq> Inr cur" for cur
    using sp_owned_iff [OF assms] by (cases cur) (auto simp: sp_active_def)
  then have "snd (sp_rotate now l reason p) = p" by (auto simp: sp_rotate_def split: sum.splits)
  with assms show ?thesis by simp
qed

lemma pool_step_inv: "sp_inv p \<Longrightarrow> sp_inv (pool_step p e)"
proof (cases e)
  case (PoolAcquire now r)
  assume "sp_inv p"
  obtain x p' where x: "sp_acquire now r p = (x, p')" by fastforce
  show ?thesis
  proof (cases x)
    case (Inl e)
    with x obtain h where "p' = p\<lparr>sp_health := h\<rparr>" by (blast dest: sp_acquire_Inl)
    with \<open>sp_inv p\<close> x PoolAcquire show ?thesis by simp
  next
    case (Inr n)
    with x \<open>sp_inv p\<close> PoolAcquire show ?thesis using sp_acquire_Inr(4) [of p now r n p'] by simp
  qed
next
  case (PoolRelease l)
  assume "sp_inv p"
  obtain p' where "sp_release l p = (Inr (), p')" "sp_inv p'"
    using sp_release_spec [OF \<open>sp_inv p\<close>] by metis
  with PoolRelease show ?thesis by simp
next
  case (PoolReport now l out)
  assume "sp_inv p"
  moreover have "\<exists>h. snd (sp_report now l out p) = p\<lparr>sp_health := h\<rparr>"
    by (cases p) (auto simp: sp_report_def Let_def split: sum.split option.split)
  ultimately show ?thesis using PoolReport by (metis pool_step.simps(7) sp_inv_health)
qed (simp_all add: sp_rotate_inv sp_authorize_inv sp_auth_reconcile_def sp_auth_release_def
      on_usage_inv pu_inv_reconcile pu_inv_release)

lemma pool_run_inv:
  "static_pool_init routes h = Inr p \<Longrightarrow> sp_inv (foldl pool_step p es)"
  by (induction es rule: rev_induct) (auto simp: static_pool_init_inv pool_step_inv)

lemma sp_active_leases_card:
  assumes "sp_inv p" shows "sp_active_leases p = card (sp_active p)"
proof -
  have "x \<in> lease_id_of ` sp_active p \<longleftrightarrow> x \<in> dom (map_of (sp_leases p))" for x
    using assms unfolding sp_inv_def image_iff dom_def mem_Collect_eq by (metis not_None_eq)
  then have "lease_id_of ` sp_active p = fst ` set (sp_leases p)"
    by (auto simp: dom_map_of_conv_image_fst)
  moreover have "inj_on lease_id_of (sp_active p)" by (simp add: inj_on_def)
  ultimately have "card (sp_active p) = card (set (map fst (sp_leases p)))" by (metis card_image list.set_map)
  moreover have "distinct (map fst (sp_leases p))" using assms by (simp add: sp_inv_def)
  ultimately show ?thesis using distinct_card [of "map fst (sp_leases p)"] by (simp add: sp_active_leases_def)
qed

subsection \<open>Properties\<close>

text \<open>
  C11. Leases are conserved.  In every state a new pool can reach, the number of active leases the
  pool reports is the number of leases granted and not returned; releasing a lease, in any state and
  however often, leaves exactly that lease returned.
\<close>

theorem pool_leases_conserved:
  assumes "static_pool_init routes h = Inr p0" and "p = foldl pool_step p0 es"
  shows "sp_active_leases p = card (sp_active p) \<and>
    sp_active (snd (sp_release l p)) = sp_active p - {l} \<and>
    sp_active (snd (sp_release l (snd (sp_release l p)))) = sp_active p - {l}"
proof -
  have inv: "sp_inv p" using pool_run_inv [OF assms(1)] assms(2) by simp
  obtain p1 where p1: "sp_release l p = (Inr (), p1)" "sp_active p1 = sp_active p - {l}" "sp_inv p1"
    using sp_release_spec [OF inv] by metis
  obtain p2 where "sp_release l p1 = (Inr (), p2)" "sp_active p2 = sp_active p1"
    using static_pool.release_idempotent [OF inv p1(1)] by blast
  with p1 sp_active_leases_card [OF inv] show ?thesis by simp
qed

text \<open>
  C12. Rotation does not refresh the budget.  When a pool that was reached from a new one exchanges
  an active lease for another, the old lease is returned, exactly one new lease is granted, and the
  new lease is authorized or refused for every estimate exactly as the old lease was.
\<close>

theorem pool_rotation_keeps_budget:
  assumes "static_pool_init routes h = Inr p0" and "p = foldl pool_step p0 es"
    and "l \<in> sp_active p" and "sp_rotate now l reason p = (Inr n, p')"
  shows "n \<notin> sp_active p \<and> sp_active p' = insert n (sp_active p - {l}) \<and>
    fst (sp_authorize n est p') = fst (sp_authorize l est p)"
proof -
  have inv: "sp_inv p" using pool_run_inv [OF assms(1)] assms(2) by simp
  note rot = sp_rotate_Inr [OF inv assms(3,4)]
  from rot(4) obtain old new where ls: "sp_lease_store p l = Some old" "sp_lease_store p' n = Some new"
    "sl_usage new = sl_usage old" "sp_usage_store p' (sl_usage new) = sp_usage_store p (sl_usage old)" by blast
  have "n \<in> sp_active p'" using rot(2) by simp
  with assms(3) ls have "\<not> sl_released old" "\<not> sl_released new" by (auto simp: sp_active_def)
  with ls have "sp_owned l p = Inr (l, old)" "sp_owned n p' = Inr (n, new)"
    using sp_owned_iff [OF inv] sp_owned_iff [OF rot(3)] by simp_all
  then have "fst (sp_authorize n est p') = fst (sp_authorize l est p)"
    using ls by (simp add: sp_authorize_def split: option.split prod.split)
  with rot show ?thesis by blast
qed

text \<open>
  A granted lease satisfies its request.  The route of an acquired lease is a route of the pool,
  of the requested kind, not from an excluded provider, and it serves the requested country unless
  it declares no country; requests with constraints a static route cannot prove are refused.
\<close>

theorem pool_acquire_respects_request:
  assumes "sp_acquire now r p = (Inr n, p')"
  shows "\<exists>lease route. sp_lease_store p' n = Some lease \<and> route \<in> set (sp_routes p) \<and>
      sl_route lease = sr_endpoint route \<and> sl_credentials lease = sr_credentials route \<and>
      ep_kind (sl_route lease) = pr_kind r \<and> sl_provider lease \<notin> set (pr_excluded_providers r) \<and>
      (\<forall>c. pr_country r = Some c \<longrightarrow> ep_countries (sl_route lease) = [] \<or> c \<in> set (ep_countries (sl_route lease))) \<and>
      pr_region r = None \<and> pr_city r = None \<and> pr_session_ttl_seconds r = None"
proof -
  obtain cs h where cand: "sp_candidates now r (sp_routes p) (sp_health p) = (cs, h)" by fastforce
  let ?tier = "preferred_tier (pr_preferred_providers r) cs"
  have none: "unsupported_constraints r = []" and ne: "cs \<noteq> []"
    using assms cand by (auto simp: sp_acquire_def Let_def split: if_splits)
  obtain chosen scores where sel: "select_weighted ?tier (sp_routing_scores p) = (chosen, scores)" by fastforce
  then obtain route where route: "chosen = Some route"
    using assms cand none ne by (cases chosen) (auto simp: sp_acquire_def Let_def)
  have "route \<in> set ?tier" using select_weighted_member sel route by metis
  then have "route \<in> set cs" using preferred_tier_subset by blast
  with sp_candidates_sound [OF cand] have
    "route \<in> set (sp_routes p)" "ep_provider (sr_endpoint route) \<notin> set (pr_excluded_providers r)"
    "ep_kind (sr_endpoint route) = pr_kind r"
    "\<forall>c. pr_country r = Some c \<longrightarrow> ep_countries (sr_endpoint route) = [] \<or> c \<in> set (ep_countries (sr_endpoint route))"
    by auto
  with assms cand none ne sel route show ?thesis
    by (fastforce simp: sp_acquire_def Let_def unsupported_constraints_def split: if_splits)
qed

subsection \<open>A concrete pool\<close>

definition sample_request :: proxy_request where
  "sample_request =
     \<lparr>pr_source_id = ''s'', pr_target_host = ''shop'', pr_kind = KindResidential, pr_country = Some ''DE'',
      pr_region = None, pr_city = None, pr_sticky = False, pr_session_ttl_seconds = None,
      pr_maximum_requests = Some 5, pr_maximum_bytes = Some 100,
      pr_preferred_providers = [''b''], pr_excluded_providers = []\<rparr>"

definition sample_health :: proxy_health where
  "sample_health = \<lparr>ph_states = [], ph_initial_cooldown = 2, ph_maximum_cooldown = 8,
     ph_maximum_entries = 4, ph_maximum_exponent = 2\<rparr>"

definition sample_routes :: "static_route list" where
  "sample_routes = [sample_route ''a'' 2, sample_route ''b'' 1]"

definition sample_pool :: static_pool where
  "sample_pool = \<lparr>sp_routes = sample_routes, sp_health = sample_health, sp_counter = 1, sp_routing_scores = [],
     sp_leases = [], sp_lease_store = Map.empty, sp_usage_store = Map.empty\<rparr>"

lemma sample_pool_init: "static_pool_init sample_routes sample_health = Inr sample_pool"
  by (simp add: static_pool_init_def sample_pool_def sample_routes_def sample_route_def key_of_def Let_def)

lemmas sample_pool_eval = sample_pool_def sample_health_def sample_routes_def sample_route_def
  sample_request_def sp_acquire_def sp_rotate_def sp_release_def sp_owned_def sp_current_def
  sp_eligible_def unsupported_constraints_def select_weighted_def ph_available_def od_set_def od_pop_def
  lease_id_of_def nat_str.simps key_of_def Let_def

lemma sample_acquire: "fst (sp_acquire 0 sample_request sample_pool) = Inr 1"
  by (simp add: sample_pool_eval)

theorem pool_leases_conserved_witness:
  "sp_active_leases (foldl pool_step sample_pool [PoolAcquire 0 sample_request, PoolRelease 1])
     = card (sp_active (foldl pool_step sample_pool [PoolAcquire 0 sample_request, PoolRelease 1]))"
  using pool_leases_conserved [OF sample_pool_init refl] by blast

lemma sample_rotate:
  "fst (sp_rotate 0 1 RotBlocked (foldl pool_step sample_pool [PoolAcquire 0 sample_request])) = Inr 2"
  "1 \<in> sp_active (foldl pool_step sample_pool [PoolAcquire 0 sample_request])"
  by (simp_all add: sample_pool_eval sp_active_def)

theorem pool_rotation_keeps_budget_witness:
  "\<exists>p'. sp_rotate 0 1 RotBlocked (foldl pool_step sample_pool [PoolAcquire 0 sample_request]) = (Inr 2, p') \<and>
     2 \<in> sp_active p' \<and> 1 \<notin> sp_active p'"
proof -
  let ?p = "foldl pool_step sample_pool [PoolAcquire 0 sample_request]"
  obtain p' where rot: "sp_rotate 0 1 RotBlocked ?p = (Inr 2, p')"
    using sample_rotate(1) by (cases "sp_rotate 0 1 RotBlocked ?p") auto
  from pool_rotation_keeps_budget [OF sample_pool_init refl sample_rotate(2) rot]
  have "2 \<in> sp_active p' \<and> 1 \<notin> sp_active p'" by auto
  with rot show ?thesis by blast
qed

theorem pool_acquire_respects_request_witness:
  "\<exists>p' lease. sp_acquire 0 sample_request sample_pool = (Inr 1, p') \<and> sp_lease_store p' 1 = Some lease \<and>
     ep_kind (sl_route lease) = KindResidential"
proof -
  obtain p' where acq: "sp_acquire 0 sample_request sample_pool = (Inr 1, p')"
    using sample_acquire by (cases "sp_acquire 0 sample_request sample_pool") auto
  from pool_acquire_respects_request [OF this] acq show ?thesis
    by (auto simp: sample_request_def)
qed

end
