(* ===== verification/Routed.thy ===== *)
theory Routed
  imports Proxy_Contract Request_Size Static_Pool
begin

section \<open>The routed transport\<close>

text \<open>
  \<^verbatim>\<open>RoutedTransport\<close> of \<^verbatim>\<open>proxy/transport.py\<close>: the lease it owns and the tasks that share it.  The
  condition lock is never held across a suspension other than \<^verbatim>\<open>wait()\<close>, so each section under it is
  one atomic step and is a function here; \<open>'l\<close> are lease objects.  The transport built for a lease
  is created with it and replaced with it, so the state keeps the lease only.
\<close>

record 'l routed =
  rt_lease :: "'l option"
  rt_pending :: "rotation_reason option"
  rt_active :: int
  rt_transitioning :: bool
  rt_generation :: nat
  rt_closed :: bool

definition routed_init :: "'l routed" where
  "routed_init = \<lparr>rt_lease = None, rt_pending = None, rt_active = 0, rt_transitioning = False,
     rt_generation = 0, rt_closed = False\<rparr>"

text \<open>The \<^verbatim>\<open>ProxyRequest\<close> built by \<^verbatim>\<open>__init__\<close>.\<close>

definition routed_proxy_request :: "proxy_policy_config \<Rightarrow> string \<Rightarrow> string \<Rightarrow> exn + proxy_request" where
  "routed_proxy_request policy source_id base_url =
     (case urlsplit base_url of Inl e \<Rightarrow> Inl e
      | Inr parsed \<Rightarrow> (case us_hostname parsed of
            None \<Rightarrow> Inl (ValueError ''proxy routing requires an absolute base URL'')
          | Some host \<Rightarrow> Inr \<lparr>pr_source_id = source_id, pr_target_host = host, pr_kind = KindResidential,
              pr_country = pp_country policy, pr_region = None, pr_city = None, pr_sticky = True,
              pr_session_ttl_seconds = None, pr_maximum_requests = pp_maximum_requests policy,
              pr_maximum_bytes = pp_maximum_bytes policy, pr_preferred_providers = pp_provider_preferences policy,
              pr_excluded_providers = []\<rparr>))"

subsection \<open>The sections under the condition lock\<close>

definition closed_error :: exn where
  "closed_error = RuntimeErr ''routed transport is closed''"

definition rt_ensure_open :: "'l routed \<Rightarrow> exn + unit" where
  "rt_ensure_open s = (if rt_closed s then Inl closed_error else Inr ())"

text \<open>\<^verbatim>\<open>_direct_route_generation\<close>.\<close>

definition rt_direct_generation :: "proxy_mode \<Rightarrow> 'l routed \<Rightarrow> exn + nat option" where
  "rt_direct_generation mode s =
     (if rt_closed s then Inl closed_error
      else if mode = ProxyFallback \<and> rt_lease s = None \<and> rt_pending s = None \<and> \<not> rt_transitioning s
      then Inr (Some (rt_generation s)) else Inr None)"

text \<open>One round of the loop in \<^verbatim>\<open>_checkout_proxy_route\<close>.\<close>

datatype 'l checkout =
    CheckoutWait
  | CheckedOut nat 'l
  | Replace "'l option" "rotation_reason option"

definition rt_checkout :: "'l routed \<Rightarrow> (exn + 'l checkout) \<times> 'l routed" where
  "rt_checkout s =
     (if rt_closed s then (Inl closed_error, s)
      else if rt_transitioning s then (Inr CheckoutWait, s)
      else (case (rt_lease s, rt_pending s) of
          (Some l, None) \<Rightarrow> (Inr (CheckedOut (rt_generation s) l), s\<lparr>rt_active := rt_active s + 1\<rparr>)
        | (lease, pending) \<Rightarrow>
            if rt_active s \<noteq> 0 then (Inr CheckoutWait, s)
            else (Inr (Replace lease pending),
                  s\<lparr>rt_transitioning := True, rt_lease := None, rt_pending := None\<rparr>)))"

definition rt_replace_failed :: "'l routed \<Rightarrow> 'l routed" where
  "rt_replace_failed s = s\<lparr>rt_transitioning := False\<rparr>"

definition rt_install :: "'l \<Rightarrow> 'l routed \<Rightarrow> 'l routed" where
  "rt_install l s = s\<lparr>rt_lease := Some l, rt_generation := rt_generation s + 1, rt_transitioning := False\<rparr>"

definition rt_checkin :: "'l routed \<Rightarrow> (exn + unit) \<times> 'l routed" where
  "rt_checkin s =
     (let s' = s\<lparr>rt_active := rt_active s - 1\<rparr> in
      if rt_active s' < 0 then (Inl (AssertionErr ''proxy route checkout count became negative''), s')
      else (Inr (), s'))"

definition rt_schedule_rotation :: "rotation_reason \<Rightarrow> nat option \<Rightarrow> 'l routed \<Rightarrow> 'l routed" where
  "rt_schedule_rotation reason generation s =
     (if rt_closed s \<or> rt_transitioning s then s
      else if generation \<noteq> None \<and> generation \<noteq> Some (rt_generation s) then s
      else if rt_pending s = None then s\<lparr>rt_pending := Some reason\<rparr> else s)"

definition rt_remember_blocked :: "nat \<Rightarrow> nat option \<Rightarrow> 'l routed \<Rightarrow> 'l routed" where
  "rt_remember_blocked status generation s =
     (if status = 403 then rt_schedule_rotation RotBlocked generation s
      else if status = 429 then rt_schedule_rotation RotRateLimited generation s else s)"

text \<open>
  The section of \<^verbatim>\<open>_rotate_identity\<close>: \<open>waited\<close> tells a caller that had to wait for a transition,
  and that returns at once if a lease is there afterwards.
\<close>

datatype rotate_step = RotateWait | RotateDone | RotateGo

definition rt_rotate_begin :: "bool \<Rightarrow> rotation_reason \<Rightarrow> 'l routed \<Rightarrow> (exn + rotate_step) \<times> 'l routed" where
  "rt_rotate_begin waited reason s =
     (if rt_closed s then (Inl closed_error, s)
      else if rt_transitioning s then (Inr RotateWait, s)
      else if waited \<and> rt_lease s \<noteq> None then (Inr RotateDone, s)
      else (Inr RotateGo, if rt_pending s = None then s\<lparr>rt_pending := Some reason\<rparr> else s))"

text \<open>The sections of \<^verbatim>\<open>aclose\<close>: mark, take the lease when nothing uses it, finish.\<close>

definition rt_close_begin :: "'l routed \<Rightarrow> 'l routed" where
  "rt_close_begin s = s\<lparr>rt_closed := True\<rparr>"

definition rt_close_take :: "'l routed \<Rightarrow> ('l option \<times> 'l routed) option" where
  "rt_close_take s =
     (if rt_transitioning s \<or> rt_active s \<noteq> 0 then None
      else Some (rt_lease s, s\<lparr>rt_transitioning := True, rt_lease := None\<rparr>))"

definition rt_close_end :: "'l routed \<Rightarrow> 'l routed" where
  "rt_close_end s = s\<lparr>rt_transitioning := False\<rparr>"

lemmas rt_sections = rt_checkout_def rt_replace_failed_def rt_install_def rt_checkin_def rt_schedule_rotation_def
  rt_remember_blocked_def rt_rotate_begin_def rt_close_begin_def rt_close_take_def rt_close_end_def

subsection \<open>Tasks\<close>

text \<open>
  A task of \<^verbatim>\<open>request\<close> or \<^verbatim>\<open>rotate_identity\<close> loops in \<^verbatim>\<open>_checkout_proxy_route\<close> (\<open>WantRoute\<close>), may
  become the one that replaces the route (\<open>Replacing\<close> with the old lease, \<open>Building\<close> with the new
  lease, \<open>Dropping\<close> a lease after a failure, \<open>ReplaceFailed\<close>), and then uses the route.  A task of
  \<^verbatim>\<open>aclose\<close> waits and then releases what it took.
\<close>

datatype 'l phase =
    WantRoute
  | Replacing "'l option" "rotation_reason option"
  | Building 'l
  | Dropping 'l
  | ReplaceFailed
  | UsingRoute nat 'l
  | CloseWait
  | CloseRelease "'l option"

type_synonym ('l, 'p) routed_sys = "'l routed \<times> 'p \<times> (nat \<rightharpoonup> 'l phase)"

inductive routed_step ::
  "(int \<Rightarrow> 'r \<Rightarrow> 'p \<Rightarrow> (exn + 'l) \<times> 'p) \<Rightarrow> (int \<Rightarrow> 'l \<Rightarrow> rotation_reason \<Rightarrow> 'p \<Rightarrow> (exn + 'l) \<times> 'p) \<Rightarrow>
   ('l \<Rightarrow> 'p \<Rightarrow> (exn + unit) \<times> 'p) \<Rightarrow> 'r \<Rightarrow> ('l, 'p) routed_sys \<Rightarrow> ('l, 'p) routed_sys \<Rightarrow> bool"
  for acquire rotate release request where
  request_starts: "T t = None \<Longrightarrow> routed_step acquire rotate release request (s, p, T) (s, p, T(t \<mapsto> WantRoute))"
| rotate_starts: "T t = None \<Longrightarrow> rt_rotate_begin waited reason s = (Inr RotateGo, s') \<Longrightarrow>
    routed_step acquire rotate release request (s, p, T) (s', p, T(t \<mapsto> WantRoute))"
| checkout_closed: "T t = Some WantRoute \<Longrightarrow> rt_checkout s = (Inl e, s') \<Longrightarrow>
    routed_step acquire rotate release request (s, p, T) (s', p, T(t := None))"
| checkout_ok: "T t = Some WantRoute \<Longrightarrow> rt_checkout s = (Inr (CheckedOut g l), s') \<Longrightarrow>
    routed_step acquire rotate release request (s, p, T) (s', p, T(t \<mapsto> UsingRoute g l))"
| checkout_replace: "T t = Some WantRoute \<Longrightarrow> rt_checkout s = (Inr (Replace old reason), s') \<Longrightarrow>
    routed_step acquire rotate release request (s, p, T) (s', p, T(t \<mapsto> Replacing old reason))"
| acquire_ok: "T t = Some (Replacing None reason) \<Longrightarrow> acquire now request p = (Inr l, p') \<Longrightarrow>
    routed_step acquire rotate release request (s, p, T) (s, p', T(t \<mapsto> Building l))"
| acquire_fails: "T t = Some (Replacing None reason) \<Longrightarrow> acquire now request p = (Inl e, p') \<Longrightarrow>
    routed_step acquire rotate release request (s, p, T) (s, p', T(t \<mapsto> ReplaceFailed))"
| rotate_ok: "T t = Some (Replacing (Some l) reason) \<Longrightarrow>
    rotate now l (case reason of None \<Rightarrow> RotExplicit | Some r \<Rightarrow> r) p = (Inr l', p') \<Longrightarrow>
    routed_step acquire rotate release request (s, p, T) (s, p', T(t \<mapsto> Building l'))"
| rotate_fails: "T t = Some (Replacing (Some l) reason) \<Longrightarrow>
    rotate now l (case reason of None \<Rightarrow> RotExplicit | Some r \<Rightarrow> r) p = (Inl e, p') \<Longrightarrow>
    routed_step acquire rotate release request (s, p, T) (s, p', T(t \<mapsto> Dropping l))"
| build_ok: "T t = Some (Building l) \<Longrightarrow>
    routed_step acquire rotate release request (s, p, T) (rt_install l s, p, T(t \<mapsto> WantRoute))"
| drop: "T t = Some (Dropping l) \<Longrightarrow> release l p = (r, p') \<Longrightarrow>
    routed_step acquire rotate release request (s, p, T) (s, p', T(t \<mapsto> ReplaceFailed))"
| replace_failed: "T t = Some ReplaceFailed \<Longrightarrow>
    routed_step acquire rotate release request (s, p, T) (rt_replace_failed s, p, T(t := None))"
| schedule: "T t = Some (UsingRoute g l) \<Longrightarrow>
    routed_step acquire rotate release request (s, p, T) (rt_schedule_rotation reason (Some g) s, p, T)"
| checkin: "T t = Some (UsingRoute g l) \<Longrightarrow>
    routed_step acquire rotate release request (s, p, T) (snd (rt_checkin s), p, T(t := None))"
| close_starts: "T t = None \<Longrightarrow> \<not> rt_closed s \<Longrightarrow>
    routed_step acquire rotate release request (s, p, T) (rt_close_begin s, p, T(t \<mapsto> CloseWait))"
| close_takes: "T t = Some CloseWait \<Longrightarrow> rt_close_take s = Some (lease, s') \<Longrightarrow>
    routed_step acquire rotate release request (s, p, T) (s', p, T(t \<mapsto> CloseRelease lease))"
| close_releases: "T t = Some (CloseRelease (Some l)) \<Longrightarrow> release l p = (r, p') \<Longrightarrow>
    routed_step acquire rotate release request (s, p, T) (s, p', T(t \<mapsto> CloseRelease None))"
| close_ends: "T t = Some (CloseRelease None) \<Longrightarrow>
    routed_step acquire rotate release request (s, p, T) (rt_close_end s, p, T(t := None))"

text \<open>
  Steps that nothing the transport awaits can prevent: a waiting task is cancelled, closing the old
  transport raises, building the new one raises.
\<close>

inductive routed_fault :: "('l, 'p) routed_sys \<Rightarrow> ('l, 'p) routed_sys \<Rightarrow> bool" where
  checkout_cancelled: "T t = Some WantRoute \<Longrightarrow> routed_fault (s, p, T) (s, p, T(t := None))"
| close_old_fails: "T t = Some (Replacing (Some l) reason) \<Longrightarrow> routed_fault (s, p, T) (s, p, T(t \<mapsto> Dropping l))"
| build_fails: "T t = Some (Building l) \<Longrightarrow> routed_fault (s, p, T) (s, p, T(t \<mapsto> Dropping l))"

definition routed_move where
  "routed_move acq rot rel request sys sys' \<longleftrightarrow>
     routed_step acq rot rel request sys sys' \<or> routed_fault sys sys'"

subsection \<open>The invariant\<close>

fun in_transition :: "'l phase \<Rightarrow> bool" where
  "in_transition (Replacing _ _) = True"
| "in_transition (Building _) = True"
| "in_transition (Dropping _) = True"
| "in_transition ReplaceFailed = True"
| "in_transition (CloseRelease _) = True"
| "in_transition _ = False"

fun carried :: "'l phase \<Rightarrow> 'l set" where
  "carried (Replacing old _) = set_option old"
| "carried (Building l) = {l}"
| "carried (Dropping l) = {l}"
| "carried (CloseRelease old) = set_option old"
| "carried _ = {}"

fun is_using :: "'l phase \<Rightarrow> bool" where
  "is_using (UsingRoute _ _) = True"
| "is_using _ = False"

fun is_replacing :: "'l phase \<Rightarrow> bool" where
  "is_replacing (CloseRelease _) = False"
| "is_replacing ph = in_transition ph"

definition tasks :: "('l phase \<Rightarrow> bool) \<Rightarrow> (nat \<rightharpoonup> 'l phase) \<Rightarrow> nat set" where
  "tasks P T = {t. \<exists>ph. T t = Some ph \<and> P ph}"

text \<open>
  \<open>B\<close> are the leases of other owners.  A state is either at rest, where the transport's own lease is
  the stored one, or one task carries out a transition and carries the own lease.
\<close>

definition owns :: "('p \<Rightarrow> 'l set) \<Rightarrow> 'l set \<Rightarrow> 'l set \<Rightarrow> 'p \<Rightarrow> bool" where
  "owns active B own p \<longleftrightarrow> own \<inter> B = {} \<and> active p = B \<union> own"

definition owns_at_most :: "('p \<Rightarrow> 'l set) \<Rightarrow> 'l set \<Rightarrow> 'l set \<Rightarrow> 'p \<Rightarrow> bool" where
  "owns_at_most active B own p \<longleftrightarrow> own \<inter> B = {} \<and> B \<subseteq> active p \<and> active p \<subseteq> B \<union> own"

definition carries :: "('p \<Rightarrow> 'l set) \<Rightarrow> 'l set \<Rightarrow> 'l phase \<Rightarrow> 'p \<Rightarrow> bool" where
  "carries active B ph p =
     (case ph of Dropping l \<Rightarrow> owns_at_most active B {l} p | _ \<Rightarrow> owns active B (carried ph) p)"

definition at_rest :: "('p \<Rightarrow> 'l set) \<Rightarrow> 'l set \<Rightarrow> ('l, 'p) routed_sys \<Rightarrow> bool" where
  "at_rest active B sys = (case sys of (s, p, T) \<Rightarrow>
     \<not> rt_transitioning s \<and> tasks in_transition T = {} \<and> owns active B (set_option (rt_lease s)) p)"

definition moving :: "('p \<Rightarrow> 'l set) \<Rightarrow> 'l set \<Rightarrow> ('l, 'p) routed_sys \<Rightarrow> bool" where
  "moving active B sys = (case sys of (s, p, T) \<Rightarrow>
     rt_transitioning s \<and> rt_lease s = None \<and> tasks is_using T = {} \<and>
     (\<exists>t ph. T t = Some ph \<and> tasks in_transition T = {t} \<and> carries active B ph p))"

definition routed_inv :: "('p \<Rightarrow> 'l set) \<Rightarrow> ('p \<Rightarrow> bool) \<Rightarrow> 'l set \<Rightarrow> ('l, 'p) routed_sys \<Rightarrow> bool" where
  "routed_inv active invar B sys = (case sys of (s, p, T) \<Rightarrow>
     invar p \<and> finite (dom T) \<and> rt_active s = int (card (tasks is_using T)) \<and>
     (\<forall>t g l. T t = Some (UsingRoute g l) \<longrightarrow> rt_lease s = Some l \<and> rt_generation s = g) \<and>
     (at_rest active B sys \<or> moving active B sys) \<and>
     (rt_closed s \<longrightarrow> tasks (\<lambda>ph. ph = CloseWait) T \<noteq> {} \<or> rt_lease s = None \<and> tasks is_replacing T = {}))"

lemma tasks_set [simp]: "tasks P (T(t \<mapsto> ph)) = (if P ph then insert t (tasks P T) else tasks P T - {t})"
  by (auto simp: tasks_def)

lemma tasks_del [simp]: "tasks P (T(t := None)) = tasks P T - {t}"
  by (auto simp: tasks_def)

lemma tasks_mem: "T t = Some ph \<Longrightarrow> t \<in> tasks P T \<longleftrightarrow> P ph"
  by (simp add: tasks_def)

lemma tasks_fresh [simp]: "T t = None \<Longrightarrow> t \<notin> tasks P T"
  by (simp add: tasks_def)

lemma tasks_finite [simp]: "finite (dom T) \<Longrightarrow> finite (tasks P T)"
  by (rule finite_subset [of _ "dom T"]) (auto simp: tasks_def)

lemma moving_at:
  assumes "moving active B (s, p, T)" "T t = Some ph" "in_transition ph"
  shows "tasks in_transition T = {t}" "carries active B ph p" "rt_lease s = None" "rt_transitioning s" "tasks is_using T = {}"
  using assms tasks_mem [of T t ph in_transition] by (auto simp: moving_def)

lemma not_at_rest: "T t = Some ph \<Longrightarrow> in_transition ph \<Longrightarrow> \<not> at_rest active B (s, p, T)"
  using tasks_mem [of T t ph in_transition] by (auto simp: at_rest_def)

lemma is_using_iff: "is_using ph \<longleftrightarrow> (\<exists>g l. ph = UsingRoute g l)"
  by (cases ph) auto

lemma users_empty: "tasks is_using T = {} \<Longrightarrow> T t \<noteq> Some (UsingRoute g l)"
  using tasks_mem [of T t "UsingRoute g l" is_using] by auto

lemma inv_moving:
  assumes "routed_inv active invar B (s, p, T)" "T t = Some ph" "in_transition ph"
  shows "moving active B (s, p, T)"
  using assms(1) not_at_rest [of T t ph active B s p] assms(2,3) unfolding routed_inv_def by blast

text \<open>A transition step: the carrying task changes its phase and the pool changes accordingly.\<close>

lemma transition_step:
  assumes "routed_inv active invar B (s, p, T)" "T t = Some ph" "in_transition ph" "in_transition ph'"
    and "is_replacing ph' \<longrightarrow> is_replacing ph"
    and "invar p \<Longrightarrow> carries active B ph p \<Longrightarrow> carries active B ph' p' \<and> invar p'"
  shows "routed_inv active invar B (s, p', T(t \<mapsto> ph'))"
proof -
  note m = moving_at [OF inv_moving [OF assms(1-3)] assms(2,3)]
  have nu: "\<not> is_using ph'" "ph' \<noteq> CloseWait" "ph \<noteq> CloseWait"
    using assms(3,4) by (cases ph'; cases ph; auto)+
  have carry: "carries active B ph' p'" "invar p'" using assms(1,6) m(2) by (auto simp: routed_inv_def)
  have "tasks is_using T - {t} = tasks is_using T" using m(5) by simp
  moreover have "tasks (\<lambda>ph. ph = CloseWait) T - {t} = tasks (\<lambda>ph. ph = CloseWait) T"
    using assms(2) nu(3) tasks_mem [of T t ph "\<lambda>ph. ph = CloseWait"] by simp
  moreover have "tasks is_replacing (T(t \<mapsto> ph')) \<subseteq> tasks is_replacing T"
    using assms(2,5) tasks_mem [of T t ph is_replacing] by auto
  moreover have "moving active B (s, p', T(t \<mapsto> ph'))"
    using m nu assms(4) carry by (auto simp: moving_def)
  ultimately show ?thesis
    using assms(1) carry m nu users_empty [OF m(5)] by (auto simp: routed_inv_def)
qed

text \<open>The end of a transition: the task stops carrying, and the lease is stored or gone.\<close>

lemma transition_end:
  assumes "routed_inv active invar B (s, p, T)" "T t = Some ph" "in_transition ph"
    and "rt_transitioning s' = False" "rt_active s' = rt_active s" "rt_closed s' = rt_closed s"
    and "carries active B ph p \<Longrightarrow> owns active B (set_option (rt_lease s')) p"
    and "T' = T(t := None) \<or> T' = T(t \<mapsto> WantRoute)"
    and "is_replacing ph \<or> rt_lease s' = None"
  shows "routed_inv active invar B (s', p, T')"
proof -
  note m = moving_at [OF inv_moving [OF assms(1-3)] assms(2,3)]
  have ph: "ph \<noteq> CloseWait" using assms(3) by (cases ph) auto
  have using_T': "tasks is_using T' = {}" using assms(8) m(5) by auto
  have trans_T': "tasks in_transition T' = {}" using assms(8) m(1) by auto
  then have rep_T': "tasks is_replacing T' = {}"
    by (auto simp: tasks_def) (metis in_transition.simps(5) is_replacing.elims(2))
  have wait_T': "tasks (\<lambda>ph. ph = CloseWait) T' = tasks (\<lambda>ph. ph = CloseWait) T"
    using assms(2,8) ph by (auto simp: tasks_def split: if_splits)
  have closed: "rt_closed s \<longrightarrow> tasks (\<lambda>ph. ph = CloseWait) T \<noteq> {} \<or> \<not> is_replacing ph"
    using assms(1,2) tasks_mem [of T t ph is_replacing] unfolding routed_inv_def by auto
  have rest: "at_rest active B (s', p, T')"
    using assms(4,7) m(2) trans_T' by (simp add: at_rest_def)
  have fin: "finite (dom T')" "invar p" "rt_active s = 0"
    using assms(1,8) m(5) unfolding routed_inv_def by auto
  have no_users: "T' t' \<noteq> Some (UsingRoute g l)" for t' g l by (rule users_empty [OF using_T'])
  have "rt_closed s' \<longrightarrow> tasks (\<lambda>ph. ph = CloseWait) T' \<noteq> {} \<or> rt_lease s' = None \<and> tasks is_replacing T' = {}"
    using closed assms(6,9) rep_T' wait_T' by auto
  then show ?thesis
    unfolding routed_inv_def using rest fin no_users using_T' assms(5) by simp
qed

text \<open>A step that leaves the pool, the lease and the transition alone and changes one task.\<close>

lemma idle_step:
  assumes "routed_inv active invar B (s, p, T)"
    and "tasks in_transition T' = tasks in_transition T" "\<And>t. t \<in> tasks in_transition T \<Longrightarrow> T' t = T t"
    and "rt_transitioning s' = rt_transitioning s" "rt_lease s' = rt_lease s"
    and "rt_active s' = int (card (tasks is_using T'))" "rt_transitioning s \<Longrightarrow> tasks is_using T' \<subseteq> tasks is_using T"
    and "\<And>t g l. T' t = Some (UsingRoute g l) \<Longrightarrow> rt_lease s' = Some l \<and> rt_generation s' = g"
    and "finite (dom T')" "tasks is_replacing T' = tasks is_replacing T"
    and "rt_closed s' \<Longrightarrow> tasks (\<lambda>ph. ph = CloseWait) T' \<noteq> {} \<or> rt_closed s \<and> tasks (\<lambda>ph. ph = CloseWait) T = {}"
  shows "routed_inv active invar B (s', p, T')"
proof -
  have "moving active B (s', p, T')" if "moving active B (s, p, T)"
  proof -
    from that obtain t ph where t: "T t = Some ph" "tasks in_transition T = {t}" "carries active B ph p"
      by (auto simp: moving_def)
    with assms(3) [of t] have "T' t = Some ph" by simp
    with t that assms(2,4,5,7) show ?thesis by (auto simp: moving_def)
  qed
  moreover have "at_rest active B (s', p, T')" if "at_rest active B (s, p, T)"
    using that assms(2,4,5) by (simp add: at_rest_def)
  ultimately have mode: "at_rest active B (s', p, T') \<or> moving active B (s', p, T')"
    using assms(1) unfolding routed_inv_def by blast
  have "rt_closed s' \<longrightarrow> tasks (\<lambda>ph. ph = CloseWait) T' \<noteq> {} \<or> rt_lease s' = None \<and> tasks is_replacing T' = {}"
    using assms(1,5,10,11) unfolding routed_inv_def by auto
  with mode assms show ?thesis unfolding routed_inv_def by simp
qed

abbreviation closers :: "(nat \<rightharpoonup> 'l phase) \<Rightarrow> nat set" where
  "closers T \<equiv> tasks (\<lambda>ph. ph = CloseWait) T"

lemma tasks_minus: "T t = Some ph \<Longrightarrow> \<not> P ph \<Longrightarrow> tasks P T - {t} = tasks P T"
  by (simp add: tasks_mem)

lemma tasks_minus_fresh: "T t = None \<Longrightarrow> tasks P T - {t} = tasks P T"
  by simp

lemma inv_parts:
  assumes "routed_inv active invar B (s, p, T)"
  shows "invar p" "finite (dom T)" "rt_active s = int (card (tasks is_using T))"
    and "T t = Some (UsingRoute g l) \<Longrightarrow> rt_lease s = Some l \<and> rt_generation s = g"
    and "rt_transitioning s \<Longrightarrow> tasks is_using T = {}"
  using assms unfolding routed_inv_def at_rest_def moving_def by auto

text \<open>Tasks that come and go without a route, and the three sections that count the users.\<close>

lemma want_route:
  assumes "routed_inv active invar B (s, p, T)" "T t = None"
    and "s' = s \<or> s' = s\<lparr>rt_pending := r\<rparr>"
  shows "routed_inv active invar B (s', p, T(t \<mapsto> WantRoute))"
proof -
  note i = inv_parts [OF assms(1)]
  have same: "tasks P (T(t \<mapsto> WantRoute)) = tasks P T" if "\<not> P WantRoute" for P
    using that assms(2) by simp
  show ?thesis
    by (rule idle_step [OF assms(1)])
      (use assms(2,3) i in \<open>auto simp: same split: if_splits\<close>)
qed

lemma leave_route:
  assumes "routed_inv active invar B (s, p, T)" "T t = Some WantRoute"
  shows "routed_inv active invar B (s, p, T(t := None))"
proof -
  note i = inv_parts [OF assms(1)]
  have other: "t \<notin> tasks in_transition T" using tasks_mem [of T t WantRoute in_transition] assms(2) by simp
  have same: "tasks P (T(t := None)) = tasks P T" if "\<not> P WantRoute" for P
    using tasks_minus [of T t WantRoute P] assms(2) that by simp
  show ?thesis
    by (rule idle_step [OF assms(1)]) (use assms(2) other i in \<open>auto simp: same simp del: tasks_del split: if_splits\<close>)
qed

lemma use_route:
  assumes "routed_inv active invar B (s, p, T)" "T t = Some WantRoute"
    and "rt_checkout s = (Inr (CheckedOut g l), s')"
  shows "routed_inv active invar B (s', p, T(t \<mapsto> UsingRoute g l))"
proof -
  note i = inv_parts [OF assms(1)]
  have other: "t \<notin> tasks in_transition T" using tasks_mem [of T t WantRoute in_transition] assms(2) by simp
  have s': "\<not> rt_closed s" "\<not> rt_transitioning s" "rt_lease s = Some l" "g = rt_generation s"
    "s' = s\<lparr>rt_active := rt_active s + 1\<rparr>"
    using assms(3) by (auto simp: rt_checkout_def split: if_splits option.splits)
  have same: "tasks P (T(t \<mapsto> UsingRoute g l)) = tasks P T" if "\<not> P WantRoute" "\<not> P (UsingRoute g l)" for P g l
    using tasks_minus [of T t WantRoute P] assms(2) that by simp
  have "t \<notin> tasks is_using T" using tasks_mem [of T t WantRoute is_using] assms(2) by simp
  then have count: "int (card (tasks is_using (T(t \<mapsto> UsingRoute g l)))) = rt_active s + 1"
    using i(2,3) by simp
  show ?thesis
    by (rule idle_step [OF assms(1)])
      (use s' other count i in \<open>auto simp: same simp del: tasks_set split: if_splits\<close>)
qed

lemma return_route:
  assumes "routed_inv active invar B (s, p, T)" "T t = Some (UsingRoute g l)"
  shows "routed_inv active invar B (snd (rt_checkin s), p, T(t := None))"
proof -
  note i = inv_parts [OF assms(1)]
  have other: "t \<notin> tasks in_transition T" using tasks_mem [of T t "UsingRoute g l" in_transition] assms(2) by simp
  have s': "snd (rt_checkin s) = s\<lparr>rt_active := rt_active s - 1\<rparr>" by (simp add: rt_checkin_def Let_def)
  have same: "tasks P (T(t := None)) = tasks P T" if "\<not> P (UsingRoute g l)" for P
    using tasks_minus [of T t "UsingRoute g l" P] assms(2) that by simp
  have "t \<in> tasks is_using T" using tasks_mem [of T t "UsingRoute g l" is_using] assms(2) by simp
  then have "card (tasks is_using T - {t}) = card (tasks is_using T) - 1" "0 < card (tasks is_using T)"
    using i(2) by (auto simp: card_gt_0_iff)
  then have count: "int (card (tasks is_using (T(t := None)))) = rt_active s - 1"
    using i(3) by simp
  have sub: "tasks is_using (T(t := None)) \<subseteq> tasks is_using T" by auto
  show ?thesis unfolding s'
    by (rule idle_step [OF assms(1)])
      (use count other i in \<open>auto simp: same sub simp del: tasks_del split: if_splits\<close>)
qed

lemma schedule_inv:
  assumes "routed_inv active invar B (s, p, T)"
  shows "routed_inv active invar B (rt_schedule_rotation reason g s, p, T)"
proof -
  note i = inv_parts [OF assms(1)]
  show ?thesis
    by (rule idle_step [OF assms(1)]) (use i in \<open>auto simp: rt_schedule_rotation_def split: if_splits\<close>)
qed

lemma close_inv:
  assumes "routed_inv active invar B (s, p, T)" "T t = None"
  shows "routed_inv active invar B (rt_close_begin s, p, T(t \<mapsto> CloseWait))"
proof -
  note i = inv_parts [OF assms(1)]
  have same: "tasks P (T(t \<mapsto> CloseWait)) = tasks P T" if "\<not> P CloseWait" for P
    using that assms(2) by simp
  show ?thesis
    by (rule idle_step [OF assms(1)])
      (use assms(2) i in \<open>auto simp: same rt_close_begin_def split: if_splits\<close>)
qed

context timed_pool
begin

text \<open>What the pool operations do to the lease a transition carries.\<close>

lemma carries_acquire:
  assumes "invar p" "acquire now r p = (Inr l, p')" "carries active B (Replacing None reason) p"
  shows "carries active B (Building l) p' \<and> invar p'"
  using proxy_pool.acquire_Inr [OF at_time assms(1,2)] assms(3) by (auto simp: carries_def owns_def)

lemma carries_acquire_fails:
  assumes "invar p" "acquire now r p = (Inl e, p')" "carries active B (Replacing None reason) p"
  shows "carries active B ReplaceFailed p' \<and> invar p'"
  using proxy_pool.acquire_Inl [OF at_time assms(1,2)] assms(3) by (auto simp: carries_def owns_def)

lemma carries_rotate:
  assumes "invar p" "rotate now l why p = (Inr l', p')" "carries active B (Replacing (Some l) reason) p"
  shows "carries active B (Building l') p' \<and> invar p'"
proof -
  have "l \<in> active p" "l \<notin> B" "active p = insert l B" using assms(3) by (auto simp: carries_def owns_def)
  with proxy_pool.rotate_Inr [OF at_time assms(1) this(1) assms(2)] show ?thesis
    by (auto simp: carries_def owns_def)
qed

lemma carries_rotate_fails:
  assumes "invar p" "rotate now l why p = (Inl e, p')" "carries active B (Replacing (Some l) reason) p"
  shows "carries active B (Dropping l) p' \<and> invar p'"
proof -
  have "l \<in> active p" "l \<notin> B" "active p = insert l B" using assms(3) by (auto simp: carries_def owns_def)
  with proxy_pool.rotate_Inl [OF at_time assms(1) this(1) assms(2)] show ?thesis
    by (auto simp: carries_def owns_at_most_def)
qed

lemma carries_drop:
  assumes "invar p" "release l p = (r, p')" "carries active B (Dropping l) p"
  shows "carries active B ReplaceFailed p' \<and> invar p'"
  using proxy_pool.release_pool [OF at_time assms(1), of l] assms(2,3)
  by (auto simp: carries_def owns_at_most_def owns_def)

lemma carries_close:
  assumes "invar p" "release l p = (r, p')" "carries active B (CloseRelease (Some l)) p"
  shows "carries active B (CloseRelease None) p' \<and> invar p'"
  using proxy_pool.release_pool [OF at_time assms(1), of l] assms(2,3)
  by (auto simp: carries_def owns_def)

lemma take_lease:
  assumes "routed_inv active invar B (s, p, T)" "T t = Some ph" "\<not> in_transition ph" "\<not> is_using ph"
    and "\<not> rt_transitioning s" "rt_active s = 0" "in_transition ph'" "carried ph' = set_option (rt_lease s)"
    and "\<And>l. ph' \<noteq> Dropping l" "rt_closed s \<longrightarrow> \<not> is_replacing ph'"
    and "rt_transitioning s'" "rt_lease s' = None" "rt_active s' = 0" "rt_closed s' = rt_closed s"
  shows "routed_inv active invar B (s', p, T(t \<mapsto> ph'))"
proof -
  have rest: "at_rest active B (s, p, T)"
    using assms(1,5) unfolding routed_inv_def by (auto simp: moving_def)
  then have no: "tasks in_transition T = {}" and own: "owns active B (set_option (rt_lease s)) p"
    by (auto simp: at_rest_def)
  have "tasks is_replacing T = {}"
    using no by (auto simp: tasks_def) (metis in_transition.simps(5) is_replacing.elims(2))
  moreover have "tasks is_using T = {}" "finite (dom T)" "invar p"
    using assms(1,6) unfolding routed_inv_def by auto
  moreover have "\<not> is_using ph'" using assms(7) by (cases ph') auto
  moreover have "carries active B ph' p"
    using own assms(8,9) by (cases ph') (auto simp: carries_def)
  ultimately show ?thesis
    using no assms(7,10-) users_empty [of T] by (auto simp: routed_inv_def moving_def is_using_iff)
qed

lemma routed_step_inv:
  assumes "routed_step acquire rotate release request sys sys'" "routed_inv active invar B sys"
  shows "routed_inv active invar B sys'"
  using assms
proof (induction rule: routed_step.induct)
  case (acquire_ok T t reason now p l p' s)
  show ?case
    by (rule transition_step [OF acquire_ok(3,1) _ _ _ carries_acquire [OF _ acquire_ok(2)]]) simp_all
next
  case (acquire_fails T t reason now p e p' s)
  show ?case
    by (rule transition_step [OF acquire_fails(3,1) _ _ _ carries_acquire_fails [OF _ acquire_fails(2)]]) simp_all
next
  case (rotate_ok T t l reason now p l' p' s)
  show ?case
    by (rule transition_step [OF rotate_ok(3,1) _ _ _ carries_rotate [OF _ rotate_ok(2)]]) simp_all
next
  case (rotate_fails T t l reason now p e p' s)
  show ?case
    by (rule transition_step [OF rotate_fails(3,1) _ _ _ carries_rotate_fails [OF _ rotate_fails(2)]]) simp_all
next
  case (drop T t l p r p' s)
  show ?case
    by (rule transition_step [OF drop(3,1) _ _ _ carries_drop [OF _ drop(2)]]) simp_all
next
  case (close_releases T t l p r p' s)
  show ?case
    by (rule transition_step [OF close_releases(3,1) _ _ _ carries_close [OF _ close_releases(2)]]) simp_all
next
  case (build_ok T t l s p)
  then show ?case
    by (intro transition_end [OF build_ok(2,1)]) (auto simp: rt_install_def carries_def)
next
  case (replace_failed T t s p)
  note m = moving_at [OF inv_moving [OF replace_failed(2,1)] replace_failed(1)]
  show ?case
    by (intro transition_end [OF replace_failed(2,1)]) (use m in \<open>auto simp: rt_replace_failed_def carries_def\<close>)
next
  case (close_ends T t s p)
  note m = moving_at [OF inv_moving [OF close_ends(2,1)] close_ends(1)]
  show ?case
    by (intro transition_end [OF close_ends(2,1)]) (use m in \<open>auto simp: rt_close_end_def carries_def\<close>)
next
  case (checkout_replace T t s old reason s' p)
  then have "\<not> rt_closed s" "\<not> rt_transitioning s" "rt_active s = 0" "old = rt_lease s"
    "s' = s\<lparr>rt_transitioning := True, rt_lease := None, rt_pending := None\<rparr>"
    by (auto simp: rt_checkout_def split: if_splits option.splits)
  then show ?case by (intro take_lease [OF checkout_replace(3,1)]) auto
next
  case (close_takes T t s lease s' p)
  then have "\<not> rt_transitioning s" "rt_active s = 0" "lease = rt_lease s"
    "s' = s\<lparr>rt_transitioning := True, rt_lease := None\<rparr>"
    by (auto simp: rt_close_take_def split: if_splits)
  then show ?case by (intro take_lease [OF close_takes(3,1)]) auto
next
  case (request_starts T t s p)
  then show ?case by (intro want_route [OF request_starts(2)]) auto
next
  case (rotate_starts T t waited reason s s' p)
  then have "\<not> rt_closed s" "s' = s \<or> s' = s\<lparr>rt_pending := Some reason\<rparr>"
    by (auto simp: rt_rotate_begin_def split: if_splits)
  then show ?case by (intro want_route [OF rotate_starts(3,1)]) auto
next
  case (checkout_closed T t s e s' p)
  then have "s' = s" by (auto simp: rt_checkout_def split: if_splits option.splits)
  then show ?case using leave_route [OF checkout_closed(3,1)] by simp
next
  case (checkout_ok T t s g l s' p)
  then show ?case by (intro use_route)
next
  case (schedule T t g l s p reason)
  then show ?case by (intro schedule_inv)
next
  case (checkin T t g l s p)
  then show ?case by (intro return_route)
next
  case (close_starts T t s p)
  then show ?case by (intro close_inv)
qed

lemma routed_fault_inv:
  assumes "routed_fault sys sys'" "routed_inv active invar B sys"
  shows "routed_inv active invar B sys'"
  using assms
proof (induction rule: routed_fault.induct)
  case (close_old_fails T t l reason s p)
  show ?case
    by (rule transition_step [OF close_old_fails(2,1)]) (auto simp: carries_def owns_def owns_at_most_def)
next
  case (build_fails T t l s p)
  show ?case
    by (rule transition_step [OF build_fails(2,1)]) (auto simp: carries_def owns_def owns_at_most_def)
next
  case (checkout_cancelled T t s p)
  then show ?case by (intro leave_route)
qed

lemma routed_move_inv:
  "routed_move acquire rotate release request sys sys' \<Longrightarrow> routed_inv active invar B sys \<Longrightarrow> routed_inv active invar B sys'"
  unfolding routed_move_def using routed_step_inv routed_fault_inv by blast

lemma routed_run_inv:
  assumes "(routed_move acquire rotate release request)\<^sup>*\<^sup>* sys sys'" "routed_inv active invar B sys"
  shows "routed_inv active invar B sys'"
  using assms by (induction rule: rtranclp_induct) (auto intro: routed_move_inv)

lemma routed_init_inv: "invar p \<Longrightarrow> routed_inv active invar (active p) (routed_init, p, Map.empty)"
  by (simp add: routed_inv_def at_rest_def owns_def routed_init_def tasks_def)

text \<open>What the invariant says about the leases.\<close>

lemma inv_leases:
  assumes "routed_inv active invar B (s, p, T)"
  shows "B \<subseteq> active p" "\<exists>own. active p \<subseteq> insert own B"
    and "T t = Some (UsingRoute g l) \<Longrightarrow> l \<in> active p - B"
    and "T = Map.empty \<Longrightarrow> active p = B \<union> set_option (rt_lease s)"
    and "rt_closed s \<Longrightarrow> T = Map.empty \<Longrightarrow> active p = B"
proof -
  have mode: "at_rest active B (s, p, T) \<or> moving active B (s, p, T)"
    using assms by (simp add: routed_inv_def)
  have carry: "B \<subseteq> active p \<and> (\<exists>own. active p \<subseteq> insert own B)" if "carries active B ph p" for ph
  proof -
    have "\<exists>own. B \<subseteq> insert own B \<and> set_option x \<subseteq> insert own B" for x :: "'l option" by (cases x) auto
    with that show ?thesis by (cases ph) (auto simp: carries_def owns_def owns_at_most_def)
  qed
  have rest: "owns active B (set_option (rt_lease s)) p" if "at_rest active B (s, p, T)"
    using that by (simp add: at_rest_def)
  show "B \<subseteq> active p" "\<exists>own. active p \<subseteq> insert own B"
    using mode rest carry by (cases "rt_lease s"; auto simp: moving_def owns_def)+
  show "l \<in> active p - B" if "T t = Some (UsingRoute g l)"
  proof -
    have "tasks is_using T \<noteq> {}" using tasks_mem [of T t "UsingRoute g l" is_using] that by auto
    then have "at_rest active B (s, p, T)" using mode by (auto simp: moving_def)
    with rest inv_parts(4) [OF assms that] show ?thesis by (auto simp: owns_def)
  qed
  show idle: "active p = B \<union> set_option (rt_lease s)" if "T = Map.empty"
    using that mode rest by (auto simp: moving_def owns_def)
  show "active p = B" if "rt_closed s" "T = Map.empty"
  proof -
    have "rt_lease s = None" using assms that by (simp add: routed_inv_def tasks_def)
    with idle that show ?thesis by simp
  qed
qed

text \<open>Some task can always go on: the one in transition, else a user of the route, else any other.\<close>

definition goes_on :: "'r \<Rightarrow> ('l, 'p) routed_sys \<Rightarrow> bool" where
  "goes_on request sys \<longleftrightarrow> (\<exists>t s' p' T'. routed_step acquire rotate release request sys (s', p', T') \<and>
     t \<in> dom (snd (snd sys)) \<and> T' t \<noteq> snd (snd sys) t)"

lemma goes_onI:
  "routed_step acquire rotate release request (s, p, T) (s', p', T(t := new)) \<Longrightarrow> T t \<noteq> None \<Longrightarrow> new \<noteq> T t \<Longrightarrow>
   goes_on request (s, p, T)"
  unfolding goes_on_def by fastforce

lemma goes_on_replacing:
  assumes t: "T t = Some (Replacing old reason)"
  shows "goes_on request (s, p, T)"
proof (cases old)
  case None
  obtain r p' where r: "acquire 0 request p = (r, p')" by fastforce
  then show ?thesis
  proof (cases r)
    case (Inl e)
    with r t None have "routed_step acquire rotate release request (s, p, T) (s, p', T(t \<mapsto> ReplaceFailed))"
      by (intro acquire_fails [where now = 0 and e = e and reason = reason]) simp_all
    then show ?thesis by (rule goes_onI) (use t in simp_all)
  next
    case (Inr l)
    with r t None have "routed_step acquire rotate release request (s, p, T) (s, p', T(t \<mapsto> Building l))"
      by (intro acquire_ok [where now = 0 and reason = reason]) simp_all
    then show ?thesis by (rule goes_onI) (use t in simp_all)
  qed
next
  case (Some l)
  let ?why = "case reason of None \<Rightarrow> RotExplicit | Some r \<Rightarrow> r"
  obtain r p' where r: "rotate 0 l ?why p = (r, p')" by fastforce
  then show ?thesis
  proof (cases r)
    case (Inl e)
    with r t Some have "routed_step acquire rotate release request (s, p, T) (s, p', T(t \<mapsto> Dropping l))"
      by (intro rotate_fails [where now = 0 and e = e and reason = reason]) simp_all
    then show ?thesis by (rule goes_onI) (use t in simp_all)
  next
    case (Inr l')
    with r t Some have "routed_step acquire rotate release request (s, p, T) (s, p', T(t \<mapsto> Building l'))"
      by (intro rotate_ok [where now = 0 and reason = reason and l = l]) simp_all
    then show ?thesis by (rule goes_onI) (use t in simp_all)
  qed
qed

lemma goes_on_transition:
  assumes t: "T t = Some ph" and "in_transition ph"
  shows "goes_on request (s, p, T)"
proof (cases ph)
  case (Replacing old reason)
  with t show ?thesis using goes_on_replacing by blast
next
  case (Building l)
  with t have "routed_step acquire rotate release request (s, p, T) (rt_install l s, p, T(t \<mapsto> WantRoute))"
    by (intro build_ok) simp
  then show ?thesis by (rule goes_onI) (use t Building in simp_all)
next
  case (Dropping l)
  obtain r p' where "release l p = (r, p')" by fastforce
  with t Dropping have "routed_step acquire rotate release request (s, p, T) (s, p', T(t \<mapsto> ReplaceFailed))"
    by (intro drop [where l = l and r = r]) simp_all
  then show ?thesis by (rule goes_onI) (use t Dropping in simp_all)
next
  case ReplaceFailed
  with t have "routed_step acquire rotate release request (s, p, T) (rt_replace_failed s, p, T(t := None))"
    by (intro replace_failed) simp
  then show ?thesis by (rule goes_onI) (use t in simp_all)
next
  case (CloseRelease old)
  show ?thesis
  proof (cases old)
    case None
    with t CloseRelease have "routed_step acquire rotate release request (s, p, T) (rt_close_end s, p, T(t := None))"
      by (intro close_ends) simp
    then show ?thesis by (rule goes_onI) (use t in simp_all)
  next
    case (Some l)
    obtain r p' where "release l p = (r, p')" by fastforce
    with t CloseRelease Some have "routed_step acquire rotate release request (s, p, T) (s, p', T(t \<mapsto> CloseRelease None))"
      by (intro close_releases [where l = l and r = r]) simp_all
    then show ?thesis by (rule goes_onI) (use t CloseRelease Some in simp_all)
  qed
qed (use assms in simp_all)

lemma goes_on_checkout:
  assumes t: "T t = Some WantRoute" and idle: "rt_active s = 0" "\<not> rt_transitioning s"
  shows "goes_on request (s, p, T)"
proof -
  obtain r s' where r: "rt_checkout s = (r, s')" by fastforce
  with idle have not_wait: "r \<noteq> Inr CheckoutWait" by (auto simp: rt_checkout_def split: if_splits option.splits)
  consider e where "r = Inl e" | g l where "r = Inr (CheckedOut g l)" | old reason where "r = Inr (Replace old reason)"
    using not_wait by (cases r; cases "projr r") auto
  then show ?thesis
  proof cases
    case 1
    with r t have "routed_step acquire rotate release request (s, p, T) (s', p, T(t := None))"
      by (intro checkout_closed) simp_all
    then show ?thesis by (rule goes_onI) (use t in simp_all)
  next
    case (2 g l)
    with r t have "routed_step acquire rotate release request (s, p, T) (s', p, T(t \<mapsto> UsingRoute g l))"
      by (intro checkout_ok) simp_all
    then show ?thesis by (rule goes_onI) (use t in simp_all)
  next
    case (3 old reason)
    with r t have "routed_step acquire rotate release request (s, p, T) (s', p, T(t \<mapsto> Replacing old reason))"
      by (intro checkout_replace) simp_all
    then show ?thesis by (rule goes_onI) (use t in simp_all)
  qed
qed

lemma routed_progress:
  assumes inv: "routed_inv active invar B (s, p, T)" and t0: "T t0 = Some ph0"
  shows "goes_on request (s, p, T)"
proof (cases "\<exists>t ph. T t = Some ph \<and> (in_transition ph \<or> is_using ph)")
  case True
  then obtain t ph where t: "T t = Some ph" "in_transition ph \<or> is_using ph" by blast
  then consider "in_transition ph" | g l where "ph = UsingRoute g l" by (auto simp: is_using_iff)
  then show ?thesis
  proof cases
    case 1
    with goes_on_transition t show ?thesis by blast
  next
    case (2 g l)
    with t have "routed_step acquire rotate release request (s, p, T) (snd (rt_checkin s), p, T(t := None))"
      by (intro checkin) simp
    then show ?thesis by (rule goes_onI) (use t in simp_all)
  qed
next
  case False
  then have none: "tasks in_transition T = {}" "tasks is_using T = {}" by (auto simp: tasks_def)
  then have idle: "rt_active s = 0" "\<not> rt_transitioning s"
    using inv inv_parts(3) [OF inv] by (auto simp: routed_inv_def at_rest_def moving_def)
  have "\<not> in_transition ph0" "\<not> is_using ph0" using False t0 by auto
  then consider "ph0 = WantRoute" | "ph0 = CloseWait" by (cases ph0) auto
  then show ?thesis
  proof cases
    case 1
    with t0 idle show ?thesis by (intro goes_on_checkout) simp_all
  next
    case 2
    obtain lease s' where "rt_close_take s = Some (lease, s')" using idle by (simp add: rt_close_take_def)
    with t0 2 have "routed_step acquire rotate release request (s, p, T) (s', p, T(t0 \<mapsto> CloseRelease lease))"
      by (intro close_takes) simp_all
    then show ?thesis by (rule goes_onI) (use t0 2 in simp_all)
  qed
qed

end

subsection \<open>The routed transport on a static pool\<close>

interpretation static_timed: timed_pool sp_acquire sp_rotate sp_release sp_active sp_inv
  by unfold_locales

abbreviation routed_run ::
  "proxy_request \<Rightarrow> (nat, static_pool) routed_sys \<Rightarrow> (nat, static_pool) routed_sys \<Rightarrow> bool" where
  "routed_run request \<equiv> (routed_move sp_acquire sp_rotate sp_release request)\<^sup>*\<^sup>*"

lemma routed_reach:
  assumes "static_pool_init routes h = Inr p0" "p = foldl pool_step p0 es"
    and "routed_run request (routed_init, p, Map.empty) (s, p', T)"
  shows "routed_inv sp_active sp_inv (sp_active p) (s, p', T)"
proof -
  have "sp_inv p" using pool_run_inv [OF assms(1)] assms(2) by simp
  from static_timed.routed_run_inv [OF assms(3) static_timed.routed_init_inv [OF this]] show ?thesis .
qed

text \<open>
  C4. One lease, never exchanged under a user.  However requests, rotations and closes of a routed
  transport interleave over a static pool that other owners already hold leases of, failures and
  cancellations included: those other leases stay active, the transport holds at most one lease more;
  every task that uses the route holds the current lease in its current generation, that lease is active in the
  pool and no exchange is in progress; the number of users is the checkout counter, so that checking in
  never raises.
\<close>

theorem routed_exclusive_lease:
  assumes "static_pool_init routes h = Inr p0" "p = foldl pool_step p0 es"
    and "routed_run request (routed_init, p, Map.empty) (s, p', T)"
  shows "sp_active p \<subseteq> sp_active p' \<and> (\<exists>own. sp_active p' \<subseteq> insert own (sp_active p)) \<and>
    rt_active s = int (card (tasks is_using T)) \<and>
    (\<forall>t g l. T t = Some (UsingRoute g l) \<longrightarrow>
       rt_lease s = Some l \<and> rt_generation s = g \<and> l \<in> sp_active p' - sp_active p \<and>
       tasks in_transition T = {} \<and> fst (rt_checkin s) = Inr ())"
proof -
  note inv = routed_reach [OF assms]
  have "tasks in_transition T = {} \<and> fst (rt_checkin s) = Inr ()" if "T t = Some (UsingRoute g l)" for t g l
  proof
    have mem: "t \<in> tasks is_using T" using tasks_mem [of T t "UsingRoute g l" is_using] that by simp
    then show "tasks in_transition T = {}" using inv by (auto simp: routed_inv_def at_rest_def moving_def)
    from mem inv_parts(2,3) [OF inv] have "0 < rt_active s" by (auto simp: card_gt_0_iff)
    then show "fst (rt_checkin s) = Inr ()" by (simp add: rt_checkin_def)
  qed
  with static_timed.inv_leases(1-3) [OF inv] inv_parts(3,4) [OF inv] show ?thesis by blast
qed



subsection \<open>A concrete run\<close>

lemma routed_run_step:
  "routed_run request sys sys' \<Longrightarrow> routed_step sp_acquire sp_rotate sp_release request sys' sys'' \<Longrightarrow> routed_run request sys sys''"
  by (meson routed_move_def rtranclp.rtrancl_into_rtrancl)

text \<open>One request acquires the first lease and checks it out.\<close>

lemma sample_route_run:
  "\<exists>s p' T. routed_run sample_request (routed_init, sample_pool, Map.empty) (s, p', T) \<and>
     T 0 = Some (UsingRoute 1 1) \<and> dom T = {0}"
proof -
  obtain p' where acq: "sp_acquire 0 sample_request sample_pool = (Inr 1, p')"
    using sample_acquire by (cases "sp_acquire 0 sample_request sample_pool") auto
  let ?step = "routed_step sp_acquire sp_rotate sp_release sample_request"
  let ?run = "routed_run sample_request"
  let ?s1 = "routed_init\<lparr>rt_transitioning := True\<rparr> :: nat routed"
  let ?s2 = "rt_install 1 ?s1"
  have 1: "?step (routed_init, sample_pool, Map.empty) (routed_init, sample_pool, [0 \<mapsto> WantRoute])"
    by (rule request_starts) simp
  have 2: "?step (routed_init, sample_pool, [0 \<mapsto> WantRoute]) (?s1, sample_pool, [0 \<mapsto> WantRoute, 0 \<mapsto> Replacing None None])"
    by (rule checkout_replace) (simp_all add: rt_checkout_def routed_init_def)
  have 3: "?step (?s1, sample_pool, [0 \<mapsto> Replacing None None]) (?s1, p', [0 \<mapsto> Replacing None None, 0 \<mapsto> Building 1])"
    by (rule acquire_ok [where now = 0 and reason = None]) (simp_all add: acq)
  have 4: "?step (?s1, p', [0 \<mapsto> Building 1]) (?s2, p', [0 \<mapsto> Building 1, 0 \<mapsto> WantRoute])"
    by (rule build_ok) simp
  have 5: "?step (?s2, p', [0 \<mapsto> WantRoute]) (?s2\<lparr>rt_active := 1\<rparr>, p', [0 \<mapsto> WantRoute, 0 \<mapsto> UsingRoute 1 1])"
    by (rule checkout_ok) (simp_all add: rt_checkout_def rt_install_def routed_init_def)
  have "?run (routed_init, sample_pool, Map.empty) (?s2\<lparr>rt_active := 1\<rparr>, p', [0 \<mapsto> UsingRoute 1 1])"
    using routed_run_step [OF routed_run_step [OF routed_run_step [OF routed_run_step [OF routed_run_step
        [OF rtranclp.rtrancl_refl 1] 2 [unfolded fun_upd_upd]] 3 [unfolded fun_upd_upd]] 4 [unfolded fun_upd_upd]]
        5 [unfolded fun_upd_upd]] .
  then show ?thesis by (intro exI [of _ "?s2\<lparr>rt_active := 1\<rparr>"] exI [of _ p'] exI [of _ "[0 \<mapsto> UsingRoute 1 1]"]) simp
qed

theorem routed_exclusive_lease_witness:
  "\<exists>s p' T. routed_run sample_request (routed_init, sample_pool, Map.empty) (s, p', T) \<and>
     T 0 = Some (UsingRoute 1 1) \<and> rt_lease s = Some 1 \<and> 1 \<in> sp_active p'"
proof -
  obtain s p' T where run: "routed_run sample_request (routed_init, sample_pool, Map.empty) (s, p', T)"
    and t: "T 0 = Some (UsingRoute 1 1)" using sample_route_run by blast
  from routed_exclusive_lease [OF sample_pool_init _ run, of "[]"] t
  have "rt_lease s = Some 1 \<and> 1 \<in> sp_active p'" by force
  with run t show ?thesis by blast
qed



end
