(* ===== verification/Routed_Attempt.thy ===== *)
theory Routed_Attempt
  imports Effects Routed
begin

section \<open>One proxied attempt\<close>

text \<open>
  \<^verbatim>\<open>RoutedTransport._proxy_request_attempt\<close> of \<^verbatim>\<open>proxy/transport.py\<close> over arbitrary collaborators:
  the checkout of the route, the pool's authorization, the transport of the lease, the pool's report
  and the sections that schedule a rotation and check the route in.  \<open>ra_call\<close> is the history of these
  calls.  \<^verbatim>\<open>asyncio.shield\<close> lets a call finish although its caller is cancelled; such a call has its
  effect and ends with \<^verbatim>\<open>CancelledError\<close>, which the arbitrary collaborators include.
\<close>

record checked_out_route =
  cr_generation :: nat
  cr_lease :: nat
  cr_provider :: string
  cr_endpoint_id :: string
  cr_lease_id :: string
  cr_browser_authorized :: bool

record 'e ra_ops =
  ro_checkout :: "transport_request \<Rightarrow> ('e, checked_out_route) act"
  ro_authorize :: "nat \<Rightarrow> nat \<Rightarrow> ('e, nat option) act"
  ro_request :: "checked_out_route \<Rightarrow> transport_request \<Rightarrow> ('e, transport_response) act"
  ro_report :: "nat \<Rightarrow> proxy_outcome \<Rightarrow> ('e, unit) act"
  ro_schedule_rotation :: "rotation_reason \<Rightarrow> nat \<Rightarrow> ('e, unit) act"
  ro_reconcile :: "nat \<Rightarrow> proxy_outcome \<Rightarrow> ('e, unit) act"
  ro_release :: "nat \<Rightarrow> ('e, unit) act"
  ro_checkin :: "('e, unit) act"

datatype ra_call =
    RaCheckout "exn + checked_out_route"
  | RaAuthorize nat nat "exn + nat option"
  | RaDispatch checked_out_route transport_request "exn + transport_response"
  | RaReport nat proxy_outcome "exn + unit"
  | RaSchedule rotation_reason nat "exn + unit"
  | RaReconcile nat proxy_outcome "exn + unit"
  | RaRelease nat "exn + unit"
  | RaCheckin "exn + unit"
  | RaEmit string

record ra_config =
  rc_mode :: proxy_mode
  rc_proxy_request :: proxy_request
  rc_telemetry :: bool

type_synonym ('e, 'a) ra_act = "((ra_call, 'e) world, 'a) act"

definition attempt_accounting ::
  "transport_request \<Rightarrow> transport_accounting option \<Rightarrow> nat \<Rightarrow> exn + transport_accounting" where
  "attempt_accounting request accounting received =
     (case estimated_transmitted_bytes request of Inl e \<Rightarrow> Inl e
      | Inr minimum_transmitted \<Rightarrow>
          (case accounting of
             Some a \<Rightarrow> Inr \<lparr>physical_requests = max 1 (physical_requests a),
               transmitted_bytes = max minimum_transmitted (transmitted_bytes a),
               received_bytes = max received (received_bytes a)\<rparr>
           | None \<Rightarrow> Inr \<lparr>physical_requests = 1, transmitted_bytes = minimum_transmitted, received_bytes = received\<rparr>))"

definition proxy_outcome_of ::
  "ra_config \<Rightarrow> nat option \<Rightarrow> transport_accounting \<Rightarrow> string \<Rightarrow> proxy_outcome" where
  "proxy_outcome_of cfg status a classification =
     \<lparr>po_target_host = pr_target_host (rc_proxy_request cfg), po_status = status,
      po_physical_requests = physical_requests a, po_transmitted_bytes = transmitted_bytes a,
      po_received_bytes = received_bytes a, po_classification = classification\<rparr>"

definition ra_emit :: "ra_config \<Rightarrow> string \<Rightarrow> ('e, unit) ra_act" where
  "ra_emit cfg event = whenA (rc_telemetry cfg) (record_call (RaEmit event))"

text \<open>\<^verbatim>\<open>_report\<close>.\<close>

definition ra_report :: "ra_config \<Rightarrow> 'e ra_ops \<Rightarrow> checked_out_route \<Rightarrow> proxy_outcome \<Rightarrow> ('e, unit) ra_act" where
  "ra_report cfg ops route outcome =
     thenA (catchA (call (RaReport (cr_lease route) outcome) (ro_report ops (cr_lease route) outcome))
              (\<lambda>e. thenA (ra_emit cfg ''proxy.report.failed'') (raise e)))
       (ra_emit cfg ''proxy.outcome'')"

definition ra_schedule :: "ra_config \<Rightarrow> 'e ra_ops \<Rightarrow> checked_out_route \<Rightarrow> rotation_reason \<Rightarrow> ('e, unit) ra_act" where
  "ra_schedule cfg ops route reason =
     call (RaSchedule reason (cr_generation route)) (ro_schedule_rotation ops reason (cr_generation route))"

text \<open>\<^verbatim>\<open>_remember_blocked_route\<close>, called in the failover mode.\<close>

definition ra_remember_blocked :: "ra_config \<Rightarrow> 'e ra_ops \<Rightarrow> checked_out_route \<Rightarrow> nat \<Rightarrow> ('e, unit) ra_act" where
  "ra_remember_blocked cfg ops route status =
     (if status = 403 then ra_schedule cfg ops route RotBlocked
      else if status = 429 then ra_schedule cfg ops route RotRateLimited else ret ())"

definition classify_status :: "nat \<Rightarrow> string" where
  "classify_status status =
     (if status = 403 then ''blocked'' else if status = 429 then ''rate_limited''
      else if status < 400 then ''success'' else ''http_error'')"

definition routed_response :: "checked_out_route \<Rightarrow> transport_response \<Rightarrow> transport_response" where
  "routed_response route response =
     response\<lparr>resp_route := \<lparr>route_kind = (if route_kind (resp_route response) = RouteBrowser then RouteBrowser else RouteProxy),
       route_provider = Some (cr_provider route), route_endpoint_id = Some (cr_endpoint_id route),
       route_lease_id = Some (cr_lease_id route)\<rparr>\<rparr>"

text \<open>
  The dispatch with its \<^verbatim>\<open>except\<close> clauses and the reporting of a response: the result of the block,
  and the value of the variable \<^verbatim>\<open>outcome\<close> at its end.
\<close>

definition ra_failed ::
  "ra_config \<Rightarrow> transport_request \<Rightarrow> exn \<Rightarrow> transport_accounting option \<Rightarrow> nat \<Rightarrow> string \<Rightarrow>
   (proxy_outcome \<Rightarrow> ('e, unit) ra_act) \<Rightarrow> ('e, (exn + transport_response) \<times> proxy_outcome option) ra_act" where
  "ra_failed cfg request e accounting received classification follow =
     (case attempt_accounting request accounting received of
        Inl e' \<Rightarrow> ret (Inl e', None)
      | Inr a \<Rightarrow>
          let outcome = proxy_outcome_of cfg None a classification in
          bindA (tryA (follow outcome)) (\<lambda>r.
            ret ((case r of Inl e' \<Rightarrow> Inl e' | Inr _ \<Rightarrow> Inl e), Some outcome)))"

definition ra_completed ::
  "ra_config \<Rightarrow> 'e ra_ops \<Rightarrow> checked_out_route \<Rightarrow> transport_request \<Rightarrow> transport_response \<Rightarrow>
   ('e, (exn + transport_response) \<times> proxy_outcome option) ra_act" where
  "ra_completed cfg ops route request response =
     (case attempt_accounting request (resp_accounting response) (length (resp_content response)) of
        Inl e \<Rightarrow> ret (Inl e, None)
      | Inr a \<Rightarrow>
          let outcome = proxy_outcome_of cfg (Some (resp_status response)) a (classify_status (resp_status response)) in
          bindA (tryA (thenA (ra_report cfg ops route outcome)
              (whenA (rc_mode cfg = ProxyFailover) (ra_remember_blocked cfg ops route (resp_status response))))) (\<lambda>r.
            ret ((case r of Inl e \<Rightarrow> Inl e | Inr _ \<Rightarrow> Inr (routed_response route response)), Some outcome)))"

definition ra_dispatch ::
  "ra_config \<Rightarrow> 'e ra_ops \<Rightarrow> checked_out_route \<Rightarrow> transport_request \<Rightarrow>
   ('e, (exn + transport_response) \<times> proxy_outcome option) ra_act" where
  "ra_dispatch cfg ops route request =
     bindA (tryA (call (RaDispatch route request) (ro_request ops route request))) (\<lambda>r.
       case r of
         Inr response \<Rightarrow> ra_completed cfg ops route request response
       | Inl e \<Rightarrow>
           (case e of
              CancelledError a \<Rightarrow> ra_failed cfg request e a 0 ''cancelled'' (\<lambda>_. ret ())
            | ResponseBodyTooLarge _ received a \<Rightarrow>
                ra_failed cfg request e a received ''response_body_too_large'' (ra_report cfg ops route)
            | TransportFailure a \<Rightarrow>
                ra_failed cfg request e a 0 ''transport_failure'' (\<lambda>outcome.
                  thenA (ra_report cfg ops route outcome)
                    (whenA (rc_mode cfg = ProxyFailover) (ra_schedule cfg ops route RotTransportFailure)))
            | _ \<Rightarrow> ret (Inl e, None)))"

text \<open>The \<^verbatim>\<open>try\<close> block: the result and the variables authorization, dispatched and outcome.\<close>

record ra_locals =
  rl_authorization :: "nat option"
  rl_dispatched :: bool
  rl_outcome :: "proxy_outcome option"

definition owns_browser_authorization :: "transport_request \<Rightarrow> checked_out_route \<Rightarrow> bool" where
  "owns_browser_authorization request route \<longleftrightarrow>
     req_browser request = BrowserRequired \<and> cr_browser_authorized route"

definition ra_sent ::
  "ra_config \<Rightarrow> 'e ra_ops \<Rightarrow> checked_out_route \<Rightarrow> transport_request \<Rightarrow> nat option \<Rightarrow>
   ('e, (exn + transport_response) \<times> ra_locals) ra_act" where
  "ra_sent cfg ops route request authorization =
     bindA (ra_dispatch cfg ops route request) (\<lambda>(result, outcome).
       ret (result, \<lparr>rl_authorization = authorization, rl_dispatched = True, rl_outcome = outcome\<rparr>))"

definition ra_try ::
  "ra_config \<Rightarrow> 'e ra_ops \<Rightarrow> checked_out_route \<Rightarrow> transport_request \<Rightarrow> ('e, (exn + transport_response) \<times> ra_locals) ra_act" where
  "ra_try cfg ops route request =
     (let unsent = \<lparr>rl_authorization = None, rl_dispatched = False, rl_outcome = None\<rparr> in
      if owns_browser_authorization request route then ra_sent cfg ops route request None
      else (case estimated_transmitted_bytes request of
          Inl e \<Rightarrow> ret (Inl e, unsent)
        | Inr n \<Rightarrow>
            let estimated = req_estimated_bytes request + n in
            bindA (tryA (call (RaAuthorize (cr_lease route) estimated) (ro_authorize ops (cr_lease route) estimated))) (\<lambda>r.
              case r of
                Inl e \<Rightarrow> ret (Inl e, unsent)
              | Inr None \<Rightarrow> ret (Inl (ProxyBudgetExhausted (pr_maximum_requests (rc_proxy_request cfg))
                  (pr_maximum_bytes (rc_proxy_request cfg)) 0 0), unsent)
              | Inr (Some i) \<Rightarrow> ra_sent cfg ops route request (Some i))))"

text \<open>The \<^verbatim>\<open>finally\<close> block.\<close>

definition ra_settle :: "ra_config \<Rightarrow> 'e ra_ops \<Rightarrow> transport_request \<Rightarrow> ra_locals \<Rightarrow> ('e, unit) ra_act" where
  "ra_settle cfg ops request l =
     (case rl_authorization l of None \<Rightarrow> ret ()
      | Some i \<Rightarrow>
          if rl_dispatched l
          then bindA (case rl_outcome l of Some outcome \<Rightarrow> ret outcome
                 | None \<Rightarrow> bindA (liftA (attempt_accounting request None 0)) (\<lambda>a.
                     ret (proxy_outcome_of cfg None a ''backend_failure'')))
               (\<lambda>outcome. call (RaReconcile i outcome) (ro_reconcile ops i outcome))
          else call (RaRelease i) (ro_release ops i))"

definition proxy_request_attempt ::
  "ra_config \<Rightarrow> 'e ra_ops \<Rightarrow> transport_request \<Rightarrow> ('e, transport_response) ra_act" where
  "proxy_request_attempt cfg ops request =
     bindA (call RaCheckout (ro_checkout ops request)) (\<lambda>route.
     bindA (ra_try cfg ops route request) (\<lambda>(result, l).
     thenA (finallyA (ra_settle cfg ops request l) (call RaCheckin (ro_checkin ops)))
       (liftA result)))"

subsection \<open>Requests of the transport\<close>

text \<open>
  \<^verbatim>\<open>RoutedTransport.request\<close>: the mode and the state of the route choose between the direct transport
  and a proxied attempt.  \<open>routed_of\<close> reads the transport's own state; both checks are sections under
  its lock.
\<close>

definition routed_request ::
  "proxy_mode \<Rightarrow> ('s \<Rightarrow> 'l routed) \<Rightarrow> (transport_request \<Rightarrow> ('s, transport_response) act) \<Rightarrow>
   (transport_request \<Rightarrow> ('s, transport_response) act) \<Rightarrow> transport_request \<Rightarrow> ('s, transport_response) act" where
  "routed_request mode routed_of direct proxied request =
     (if mode = ProxyNever then bindA (\<lambda>s. (rt_ensure_open (routed_of s), s)) (\<lambda>_. direct request)
      else bindA (\<lambda>s. (rt_direct_generation mode (routed_of s), s)) (\<lambda>direct_generation.
        case direct_generation of Some _ \<Rightarrow> direct request | None \<Rightarrow> proxied request))"

text \<open>The authorizations of browser subrequests: \<^verbatim>\<open>PoolBrowserSubrequestAuthorizer\<close> over the static pool.\<close>

record browser_subrequest_outcome =
  bs_status :: "nat option"
  bs_transmitted_bytes :: nat
  bs_received_bytes :: nat
  bs_classification :: string

definition browser_authorize :: "nat \<Rightarrow> int \<Rightarrow> static_pool \<Rightarrow> (exn + (nat \<times> nat) option) \<times> static_pool" where
  "browser_authorize lease estimated_bytes = sp_authorize lease estimated_bytes"

definition browser_reconcile ::
  "string \<Rightarrow> nat \<times> nat \<Rightarrow> browser_subrequest_outcome \<Rightarrow> static_pool \<Rightarrow> (exn + unit) \<times> static_pool" where
  "browser_reconcile target_host authorization outcome =
     sp_auth_reconcile authorization
       \<lparr>po_target_host = target_host, po_status = bs_status outcome, po_physical_requests = 1,
        po_transmitted_bytes = bs_transmitted_bytes outcome, po_received_bytes = bs_received_bytes outcome,
        po_classification = bs_classification outcome\<rparr>"

definition browser_release :: "nat \<times> nat \<Rightarrow> static_pool \<Rightarrow> (exn + unit) \<times> static_pool" where
  "browser_release authorization = sp_auth_release authorization"

subsection \<open>The protocol of an attempt\<close>

text \<open>
  The calls of one attempt as an automaton: check out, authorize at least the size of the request,
  send once, report at most once and schedule a rotation only of the generation that was used, settle
  the authorization, and check in last.  A settled or reported outcome charges at least one request
  and the size of the request.
\<close>

definition charges :: "transport_request \<Rightarrow> proxy_outcome \<Rightarrow> bool" where
  "charges request outcome \<longleftrightarrow> 1 \<le> po_physical_requests outcome \<and>
     (case estimated_transmitted_bytes request of Inl _ \<Rightarrow> False | Inr n \<Rightarrow> n \<le> po_transmitted_bytes outcome)"

record ra_state =
  rs_route :: "checked_out_route option"
  rs_auth :: "nat option"
  rs_sent :: bool
  rs_reported :: bool

definition ra_start :: ra_state where
  "ra_start = \<lparr>rs_route = None, rs_auth = None, rs_sent = False, rs_reported = False\<rparr>"

fun ra_step :: "transport_request \<Rightarrow> ra_state \<Rightarrow> ra_call \<Rightarrow> ra_state option" where
  "ra_step request st (RaCheckout r) =
     (if st = ra_start then Some (case r of Inr route \<Rightarrow> st\<lparr>rs_route := Some route\<rparr> | Inl _ \<Rightarrow> st) else None)"
| "ra_step request st (RaAuthorize lease estimated r) =
     (case rs_route st of None \<Rightarrow> None
      | Some route \<Rightarrow>
          if lease = cr_lease route \<and> rs_auth st = None \<and> \<not> rs_sent st \<and> \<not> owns_browser_authorization request route \<and>
             (\<exists>n \<in> {..estimated}. estimated_transmitted_bytes request = Inr n)
          then Some (case r of Inr (Some i) \<Rightarrow> st\<lparr>rs_auth := Some i\<rparr> | _ \<Rightarrow> st) else None)"
| "ra_step request st (RaDispatch route rq r) =
     (if rs_route st = Some route \<and> rq = request \<and> \<not> rs_sent st \<and>
         (rs_auth st \<noteq> None \<or> owns_browser_authorization request route)
      then Some (st\<lparr>rs_sent := True\<rparr>) else None)"
| "ra_step request st (RaReport lease outcome r) =
     (if map_option cr_lease (rs_route st) = Some lease \<and> rs_sent st \<and> \<not> rs_reported st \<and> charges request outcome
      then Some (st\<lparr>rs_reported := True\<rparr>) else None)"
| "ra_step request st (RaSchedule reason generation r) =
     (if map_option cr_generation (rs_route st) = Some generation \<and> rs_reported st then Some st else None)"
| "ra_step request st (RaReconcile i outcome r) =
     (if rs_auth st = Some i \<and> rs_sent st \<and> charges request outcome then Some (st\<lparr>rs_auth := None\<rparr>) else None)"
| "ra_step request st (RaRelease i r) =
     (if rs_auth st = Some i \<and> \<not> rs_sent st then Some (st\<lparr>rs_auth := None\<rparr>) else None)"
| "ra_step request st (RaCheckin r) =
     (if rs_route st \<noteq> None \<and> rs_auth st = None then Some (st\<lparr>rs_route := None\<rparr>) else None)"
| "ra_step request st (RaEmit e) = Some st"

fun ra_proto :: "transport_request \<Rightarrow> ra_call list \<Rightarrow> ra_state option" where
  "ra_proto request [] = Some ra_start"
| "ra_proto request (c # history) =
     (case ra_proto request history of None \<Rightarrow> None | Some st \<Rightarrow> ra_step request st c)"

abbreviation in_state :: "transport_request \<Rightarrow> ra_state \<Rightarrow> (ra_call, 'e) world \<Rightarrow> bool" where
  "in_state request st w \<equiv> ra_proto request (w_log w) = Some st"

text \<open>The same state, with the report possibly made.\<close>

definition at_or_reported :: "transport_request \<Rightarrow> ra_state \<Rightarrow> (ra_call, 'e) world \<Rightarrow> bool" where
  "at_or_reported request st w \<longleftrightarrow> (\<exists>rep. in_state request (st\<lparr>rs_reported := rep\<rparr>) w)"

lemma at_or_reportedI: "in_state request st w \<Longrightarrow> at_or_reported request st w"
  unfolding at_or_reported_def by (rule exI [of _ "rs_reported st"]) simp

lemma attempt_accounting_charges:
  "attempt_accounting request acc n = Inr a \<Longrightarrow> charges request (proxy_outcome_of cfg status a cl)"
  by (auto simp: attempt_accounting_def charges_def proxy_outcome_of_def split: sum.splits option.splits)

lemma ra_emit_at: "spec (in_state request st) (ra_emit cfg ev) (\<lambda>_. in_state request st) E"
  by (auto simp: ra_emit_def intro!: spec_whenA spec_record_call)

lemma ra_report_at:
  assumes "rs_route st = Some route" "rs_sent st" "\<not> rs_reported st" "charges request outcome"
  shows "spec (in_state request st) (ra_report cfg ops route outcome)
    (\<lambda>_. in_state request (st\<lparr>rs_reported := True\<rparr>)) (\<lambda>_. in_state request (st\<lparr>rs_reported := True\<rparr>))"
proof -
  let ?st = "st\<lparr>rs_reported := True\<rparr>"
  have sent: "spec (in_state request st) (call (RaReport (cr_lease route) outcome) (ro_report ops (cr_lease route) outcome))
      (\<lambda>_. in_state request ?st) (\<lambda>_. in_state request ?st)"
    by (rule spec_call) (use assms in simp_all)
  have failed: "spec (in_state request ?st) (thenA (ra_emit cfg ev) (raise e))
      (\<lambda>_. in_state request ?st) (\<lambda>_. in_state request ?st)" for ev and e :: exn
    by (rule spec_thenA [OF ra_emit_at spec_raise])
  show ?thesis
    unfolding ra_report_def by (rule spec_thenA [OF spec_catchA [OF sent failed] ra_emit_at])
qed

lemma ra_schedule_at:
  assumes "rs_route st = Some route" "rs_reported st"
  shows "spec (in_state request st) (ra_schedule cfg ops route reason) (\<lambda>_. in_state request st) (\<lambda>_. in_state request st)"
  unfolding ra_schedule_def by (rule spec_call) (use assms in simp_all)

text \<open>What the dispatch leaves behind: the state it was sent in and an outcome that charges it.\<close>

definition dispatched_post ::
  "transport_request \<Rightarrow> ra_state \<Rightarrow> 'r \<times> proxy_outcome option \<Rightarrow> (ra_call, 'e) world \<Rightarrow> bool" where
  "dispatched_post request st x w \<longleftrightarrow> at_or_reported request st w \<and>
     (case snd x of None \<Rightarrow> True | Some outcome \<Rightarrow> charges request outcome)"

lemma follow_report:
  assumes "rs_route st = Some route" "rs_sent st" "\<not> rs_reported st" "charges request outcome"
    and "spec (in_state request (st\<lparr>rs_reported := True\<rparr>)) m (\<lambda>_. in_state request (st\<lparr>rs_reported := True\<rparr>))
      (\<lambda>_. in_state request (st\<lparr>rs_reported := True\<rparr>))"
  shows "spec (in_state request st) (thenA (ra_report cfg ops route outcome) (whenA b m))
    (\<lambda>_. at_or_reported request st) (\<lambda>_. at_or_reported request st)"
  by (rule spec_weaken [OF spec_thenA [OF ra_report_at [OF assms(1-4)] spec_whenA [OF assms(5)]]])
    (auto simp: at_or_reported_def)

lemma ra_failed_at:
  assumes "\<And>outcome. charges request outcome \<Longrightarrow>
      spec (in_state request st) (follow outcome) (\<lambda>_. at_or_reported request st) (\<lambda>_. at_or_reported request st)"
  shows "spec (in_state request st) (ra_failed cfg request e acc n cl follow) (dispatched_post request st) E"
proof (cases "attempt_accounting request acc n")
  case (Inl e')
  then show ?thesis
    unfolding ra_failed_def by (auto intro!: spec_ret simp: dispatched_post_def at_or_reportedI)
next
  case (Inr a)
  have c: "charges request (proxy_outcome_of cfg None a cl)" by (rule attempt_accounting_charges [OF Inr])
  show ?thesis
    unfolding ra_failed_def Inr sum.case Let_def
    by (rule spec_bindA [OF spec_tryA [OF assms [OF c]]], rule spec_ret)
      (use c in \<open>auto simp: dispatched_post_def split: sum.splits\<close>)
qed

lemma ra_completed_at:
  assumes "rs_route st = Some route" "rs_sent st" "\<not> rs_reported st"
  shows "spec (in_state request st) (ra_completed cfg ops route request response) (dispatched_post request st) E"
proof (cases "attempt_accounting request (resp_accounting response) (length (resp_content response))")
  case (Inl e')
  then show ?thesis
    unfolding ra_completed_def by (auto intro!: spec_ret simp: dispatched_post_def at_or_reportedI)
next
  case (Inr a)
  let ?out = "proxy_outcome_of cfg (Some (resp_status response)) a (classify_status (resp_status response))"
  have c: "charges request ?out" by (rule attempt_accounting_charges [OF Inr])
  have blocked: "spec (in_state request (st\<lparr>rs_reported := True\<rparr>)) (ra_remember_blocked cfg ops route n)
      (\<lambda>_. in_state request (st\<lparr>rs_reported := True\<rparr>)) (\<lambda>_. in_state request (st\<lparr>rs_reported := True\<rparr>))" for n
    unfolding ra_remember_blocked_def using assms(1) by (simp add: ra_schedule_at spec_ret)
  show ?thesis
    unfolding ra_completed_def Inr sum.case Let_def
    by (rule spec_bindA [OF spec_tryA [OF follow_report [OF assms c blocked]]], rule spec_ret)
      (use c in \<open>auto simp: dispatched_post_def split: sum.splits\<close>)
qed

lemma ra_dispatch_at:
  assumes "rs_route st = Some route" "\<not> rs_sent st" "\<not> rs_reported st"
    and "rs_auth st \<noteq> None \<or> owns_browser_authorization request route"
  shows "spec (in_state request st) (ra_dispatch cfg ops route request)
    (dispatched_post request (st\<lparr>rs_sent := True\<rparr>)) (\<lambda>_ _. False)"
proof -
  let ?st = "st\<lparr>rs_sent := True\<rparr>"
  have st: "rs_route ?st = Some route" "rs_sent ?st" "\<not> rs_reported ?st" using assms by simp_all
  have sent: "spec (in_state request st) (tryA (call (RaDispatch route request) (ro_request ops route request)))
      (\<lambda>_. in_state request ?st) (\<lambda>_ _. False)"
    by (rule spec_weaken [OF spec_tryA [OF spec_call [where P = "in_state request st" and Q = "\<lambda>_. in_state request ?st" and E = "\<lambda>_. in_state request ?st"]]])
      (use assms in \<open>auto split: sum.splits\<close>)
  have report: "spec (in_state request ?st) (ra_report cfg ops route outcome)
      (\<lambda>_. at_or_reported request ?st) (\<lambda>_. at_or_reported request ?st)" if "charges request outcome" for outcome
    by (rule spec_weaken [OF ra_report_at [OF st that]]) (auto simp: at_or_reported_def)
  have silent: "spec (in_state request ?st) (ret ()) (\<lambda>_. at_or_reported request ?st) E" for E
    by (rule spec_ret) (rule at_or_reportedI)
  have other: "spec (in_state request ?st) (ret (Inl e, None)) (dispatched_post request ?st) E" for e :: exn and E
    by (rule spec_ret) (simp add: dispatched_post_def at_or_reportedI)
  have after: "spec (in_state request (?st\<lparr>rs_reported := True\<rparr>)) (ra_schedule cfg ops route reason)
      (\<lambda>_. in_state request (?st\<lparr>rs_reported := True\<rparr>)) (\<lambda>_. in_state request (?st\<lparr>rs_reported := True\<rparr>))" for reason
    by (rule ra_schedule_at) (use st in simp_all)
  have fails: "spec (in_state request ?st) (ra_failed cfg request e a n cl (\<lambda>_. ret ())) (dispatched_post request ?st) E"
    "spec (in_state request ?st) (ra_failed cfg request e a n cl (ra_report cfg ops route)) (dispatched_post request ?st) E"
    "spec (in_state request ?st) (ra_failed cfg request e a n cl (\<lambda>outcome.
        thenA (ra_report cfg ops route outcome) (whenA b (ra_schedule cfg ops route reason)))) (dispatched_post request ?st) E"
    for e a n cl b reason E
    by (rule ra_failed_at, rule silent, rule ra_failed_at, erule report, rule ra_failed_at, rule follow_report [OF st _ after])
  show ?thesis
    unfolding ra_dispatch_def
  proof (rule spec_bindA [OF sent])
    fix r
    show "spec (in_state request ?st) (case r of Inr response \<Rightarrow> ra_completed cfg ops route request response
        | Inl e \<Rightarrow> (case e of
              CancelledError a \<Rightarrow> ra_failed cfg request e a 0 ''cancelled'' (\<lambda>_. ret ())
            | ResponseBodyTooLarge _ received a \<Rightarrow>
                ra_failed cfg request e a received ''response_body_too_large'' (ra_report cfg ops route)
            | TransportFailure a \<Rightarrow>
                ra_failed cfg request e a 0 ''transport_failure'' (\<lambda>outcome.
                  thenA (ra_report cfg ops route outcome)
                    (whenA (rc_mode cfg = ProxyFailover) (ra_schedule cfg ops route RotTransportFailure)))
            | _ \<Rightarrow> ret (Inl e, None))) (dispatched_post request ?st) (\<lambda>_ _. False)"
      by (cases r) (use ra_completed_at [OF st] other fails in \<open>auto split: exn.split\<close>)
  qed
qed

text \<open>The state after the \<^verbatim>\<open>try\<close> block agrees with the variables; an authorization is held only by a sent attempt.\<close>

definition held :: "checked_out_route \<Rightarrow> nat option \<Rightarrow> bool \<Rightarrow> bool \<Rightarrow> ra_state" where
  "held route auth sent rep = \<lparr>rs_route = Some route, rs_auth = auth, rs_sent = sent, rs_reported = rep\<rparr>"

definition tried_post ::
  "transport_request \<Rightarrow> checked_out_route \<Rightarrow> 'r \<times> ra_locals \<Rightarrow> (ra_call, 'e) world \<Rightarrow> bool" where
  "tried_post request route x w \<longleftrightarrow>
     (\<exists>rep. in_state request (held route (rl_authorization (snd x)) (rl_dispatched (snd x)) rep) w) \<and>
     (case rl_outcome (snd x) of None \<Rightarrow> True | Some outcome \<Rightarrow> charges request outcome) \<and>
     (rl_authorization (snd x) \<noteq> None \<longrightarrow> rl_dispatched (snd x) \<and> (\<exists>n. estimated_transmitted_bytes request = Inr n))"

lemma ra_sent_at:
  assumes "(\<exists>i n. auth = Some i \<and> estimated_transmitted_bytes request = Inr n) \<or>
    auth = None \<and> owns_browser_authorization request route"
  shows "spec (in_state request (held route auth False False)) (ra_sent cfg ops route request auth)
    (tried_post request route) (\<lambda>_ _. False)"
proof -
  have "spec (in_state request (held route auth False False)) (ra_dispatch cfg ops route request)
      (dispatched_post request (held route auth True False)) (\<lambda>_ _. False)"
    using ra_dispatch_at [of "held route auth False False" route request cfg ops] assms by (auto simp: held_def)
  then show ?thesis
    unfolding ra_sent_def
    by (rule spec_bindA)
      (use assms in \<open>auto intro!: spec_ret simp: dispatched_post_def tried_post_def at_or_reported_def held_def\<close>)
qed

lemma ra_try_at:
  "spec (in_state request (held route None False False)) (ra_try cfg ops route request)
    (tried_post request route) (\<lambda>_ _. False)"
proof (cases "owns_browser_authorization request route")
  case True
  then show ?thesis by (simp add: ra_try_def ra_sent_at)
next
  case owns: False
  have unsent: "spec (in_state request (held route None False False))
      (ret (r, \<lparr>rl_authorization = None, rl_dispatched = False, rl_outcome = None\<rparr>)) (tried_post request route) E"
    for r :: "exn + transport_response" and E
    by (rule spec_ret) (auto simp: tried_post_def)
  show ?thesis
  proof (cases "estimated_transmitted_bytes request")
    case (Inl e)
    with owns show ?thesis by (simp add: ra_try_def unsent)
  next
    case (Inr n)
    let ?est = "req_estimated_bytes request + n"
    have auth: "spec (in_state request (held route None False False))
        (tryA (call (RaAuthorize (cr_lease route) ?est) (ro_authorize ops (cr_lease route) ?est)))
        (\<lambda>r. in_state request (held route (case r of Inr (Some i) \<Rightarrow> Some i | _ \<Rightarrow> None) False False)) (\<lambda>_ _. False)"
      by (rule spec_weaken [OF spec_tryA [OF spec_call [where P = "in_state request (held route None False False)"
            and Q = "\<lambda>a. in_state request (held route a False False)"
            and E = "\<lambda>_. in_state request (held route None False False)"]]])
        (use owns Inr in \<open>auto simp: held_def split: sum.splits option.splits\<close>)
    show ?thesis
      unfolding ra_try_def Let_def Inr sum.case
      using owns
      by (simp, intro spec_bindA [OF auth])
        (use Inr in \<open>auto split: sum.split option.split intro!: unsent ra_sent_at\<close>)
  qed
qed

lemma ra_settle_at:
  "spec (tried_post request route (r, l)) (ra_settle cfg ops request l)
    (\<lambda>_ w. \<exists>sent rep. in_state request (held route None sent rep) w)
    (\<lambda>_ w. \<exists>sent rep. in_state request (held route None sent rep) w)"
proof (cases "rl_authorization l")
  case None
  then show ?thesis unfolding ra_settle_def by (auto intro!: spec_ret simp: tried_post_def) blast
next
  case (Some i)
  let ?done = "\<lambda>w. \<exists>sent rep. in_state request (held route None sent rep) w"
  have recon: "spec (\<lambda>w. \<exists>rep. in_state request (held route (Some i) True rep) w)
      (call (RaReconcile i out) (ro_reconcile ops i out)) (\<lambda>_. ?done) (\<lambda>_. ?done)" if "charges request out" for out
    by (rule spec_call) (use that in \<open>fastforce simp: held_def\<close>)+
  show ?thesis
  proof (cases "rl_dispatched l \<and> (\<exists>n. estimated_transmitted_bytes request = Inr n)")
    case False
    then show ?thesis by (intro spec_absurd) (auto simp: tried_post_def Some)
  next
    case True
    then obtain n where n: "rl_dispatched l" "estimated_transmitted_bytes request = Inr n" by blast
    then obtain a where a: "attempt_accounting request None 0 = Inr a" by (simp add: attempt_accounting_def)
    let ?out = "case rl_outcome l of Some out \<Rightarrow> out | None \<Rightarrow> proxy_outcome_of cfg None a ''backend_failure''"
    have eq: "ra_settle cfg ops request l = call (RaReconcile i ?out) (ro_reconcile ops i ?out)"
      using n a by (rule_tac ext) (simp add: ra_settle_def Some act_defs split: option.split)
    show ?thesis
    proof (cases "charges request ?out")
      case True
      show ?thesis unfolding eq by (rule spec_weaken [OF recon [OF True]]) (use n Some in \<open>auto simp: tried_post_def\<close>)
    next
      case False
      then show ?thesis using attempt_accounting_charges [OF a]
        by (intro spec_absurd) (auto simp: tried_post_def split: option.splits)
    qed
  qed
qed

subsection \<open>Properties\<close>

text \<open>
  C18. A proxied attempt settles what it took.  Whatever the pool, the transport and the telemetry do
  or raise, the calls of one attempt form a word of the automaton: it authorizes at least the size of
  the request, sends at most once and only with an authorization (or on a browser that authorizes its
  own requests), reports at most once, asks to rotate only the generation it used; every authorization
  granted is reconciled exactly once with at least one request and the size of the request; and the
  route is checked in exactly once and last, unless the checkout itself failed.
\<close>

theorem proxy_attempt_protocol:
  assumes "proxy_request_attempt cfg ops request \<lparr>w_env = env, w_log = []\<rparr> = (result, w)"
  shows "\<exists>st. ra_proto request (w_log w) = Some st \<and> rs_route st = None \<and> rs_auth st = None"
proof -
  let ?done = "\<lambda>w. \<exists>st. in_state request st w \<and> rs_route st = None \<and> rs_auth st = None"
  have out: "spec (in_state request ra_start) (call RaCheckout (ro_checkout ops request))
      (\<lambda>route. in_state request (held route None False False)) (\<lambda>_. ?done)"
    by (rule spec_call) (auto simp: held_def ra_start_def)
  have checkin: "spec (\<lambda>w. \<exists>sent rep. in_state request (held route None sent rep) w)
      (call RaCheckin (ro_checkin ops)) (\<lambda>_. ?done) (\<lambda>_. ?done)" for route
    by (rule spec_call) (fastforce simp: held_def)+
  have clean: "spec (tried_post request route (r, l))
      (finallyA (ra_settle cfg ops request l) (call RaCheckin (ro_checkin ops))) (\<lambda>_. ?done) (\<lambda>_. ?done)"
    for route r l by (rule spec_finallyA [OF ra_settle_at checkin checkin])
  have "spec (in_state request ra_start) (proxy_request_attempt cfg ops request) (\<lambda>_. ?done) (\<lambda>_. ?done)"
    unfolding proxy_request_attempt_def
  proof (rule spec_bindA [OF out], rule spec_bindA)
    fix route
    show "spec (in_state request (held route None False False)) (ra_try cfg ops route request)
        (tried_post request route) (\<lambda>_. ?done)"
      by (rule spec_weaken [OF ra_try_at]) auto
  next
    fix route x
    show "spec (tried_post request route x) (case x of (result, l) \<Rightarrow>
        thenA (finallyA (ra_settle cfg ops request l) (call RaCheckin (ro_checkin ops))) (liftA result)) (\<lambda>_. ?done) (\<lambda>_. ?done)"
      by (cases x) (auto intro!: spec_thenA [OF clean] spec_liftA)
  qed
  from spec_run [OF this _ assms] show ?thesis by (auto split: sum.splits)
qed

text \<open>
  Which route a request takes.  A closed transport refuses every request; the mode that never
  uses a proxy always goes direct; the fallback mode goes direct exactly while there is no lease, no
  scheduled rotation and no exchange in progress; every other request is a proxied attempt.
\<close>

theorem routed_route_selection:
  "routed_request mode routed_of direct proxied request s =
     (if rt_closed (routed_of s) then (Inl closed_error, s)
      else if mode = ProxyNever \<or> mode = ProxyFallback \<and> rt_lease (routed_of s) = None \<and>
          rt_pending (routed_of s) = None \<and> \<not> rt_transitioning (routed_of s)
      then direct request s else proxied request s)"
  by (auto simp: routed_request_def rt_ensure_open_def rt_direct_generation_def bindA_def)

text \<open>A pool that authorizes once, and a transport that fails.\<close>

definition failing_ops :: "unit ra_ops" where
  "failing_ops = \<lparr>
     ro_checkout = (\<lambda>_. ret \<lparr>cr_generation = 1, cr_lease = 1, cr_provider = ''p'', cr_endpoint_id = ''e'',
       cr_lease_id = ''l'', cr_browser_authorized = False\<rparr>),
     ro_authorize = (\<lambda>_ _. ret (Some 0)),
     ro_request = (\<lambda>_ _. raise (TransportFailure None)),
     ro_report = (\<lambda>_ _. raise (RuntimeErr ''pool'')),
     ro_schedule_rotation = (\<lambda>_ _. ret ()),
     ro_reconcile = (\<lambda>_ _. ret ()),
     ro_release = (\<lambda>_. ret ()),
     ro_checkin = ret ()\<rparr>"

definition failover_config :: ra_config where
  "failover_config = \<lparr>rc_mode = ProxyFailover, rc_proxy_request = sample_request, rc_telemetry = False\<rparr>"

theorem proxy_attempt_protocol_witness:
  "\<exists>w st. proxy_request_attempt failover_config failing_ops (sample_get ''http://a/b'')
      \<lparr>w_env = (), w_log = []\<rparr> = (Inl (RuntimeErr ''pool''), w) \<and> length (w_log w) = 6 \<and>
    ra_proto (sample_get ''http://a/b'') (w_log w) = Some st \<and> rs_auth st = None"
proof -
  obtain result w where run: "proxy_request_attempt failover_config failing_ops (sample_get ''http://a/b'')
      \<lparr>w_env = (), w_log = []\<rparr> = (result, w)" by fastforce
  then have "result = Inl (RuntimeErr ''pool'') \<and> length (w_log w) = 6"
    by (simp add: proxy_request_attempt_def ra_try_def ra_sent_def ra_dispatch_def ra_failed_def ra_settle_def
        ra_report_def ra_emit_def owns_browser_authorization_def attempt_accounting_def failing_ops_def failover_config_def
        sample_get_size act_defs call_def Let_def) (auto simp: sample_get_def)
  with proxy_attempt_protocol [OF run] run show ?thesis by blast
qed

end
