(* ===== verification/Url_Policy.thy ===== *)
theory Url_Policy
  imports Urls
begin

section \<open>The URL policy\<close>

text \<open>
  \<^verbatim>\<open>transports/url_policy.py\<close>: the allow list of origins and the bounded cache of resolved public
  addresses.  The resolver is a parameter.  The resolution lock is never held across a suspension, so
  the code between two suspensions is one atomic step: the lookup of a caller, the completion of a
  resolution task that stores its result, and its removal from the table of running tasks.  A clock
  reading is a float.
\<close>

subsection \<open>Public addresses\<close>

text \<open>
  \<^verbatim>\<open>ipaddress.ip_address\<close> and \<^verbatim>\<open>is_global\<close>, with the tables of CPython 3.11: a network is a prefix length
  and the value of its prefix.
\<close>

datatype ip_address = IPv4 nat | IPv6 nat

definition parse_ip :: "string \<Rightarrow> ip_address option" where
  "parse_ip s = (case ipv4_value s of Some n \<Rightarrow> Some (IPv4 n) | None \<Rightarrow> map_option IPv6 (ipv6_value s))"

definition in_network :: "nat \<Rightarrow> nat \<Rightarrow> string \<times> nat \<Rightarrow> (string \<Rightarrow> nat option) \<Rightarrow> bool" where
  "in_network bits n net parse =
     (case parse (fst net) of None \<Rightarrow> False | Some base \<Rightarrow> n div 2 ^ (bits - snd net) = base div 2 ^ (bits - snd net))"

definition ipv4_private_networks :: "(string \<times> nat) list" where
  "ipv4_private_networks = [(''0.0.0.0'', 8), (''10.0.0.0'', 8), (''127.0.0.0'', 8), (''169.254.0.0'', 16),
     (''172.16.0.0'', 12), (''192.0.0.0'', 24), (''192.0.0.170'', 31), (''192.0.2.0'', 24), (''192.168.0.0'', 16),
     (''198.18.0.0'', 15), (''198.51.100.0'', 24), (''203.0.113.0'', 24), (''240.0.0.0'', 4), (''255.255.255.255'', 32)]"

definition ipv4_private_exceptions :: "(string \<times> nat) list" where
  "ipv4_private_exceptions = [(''192.0.0.9'', 32), (''192.0.0.10'', 32)]"

definition ipv6_private_networks :: "(string \<times> nat) list" where
  "ipv6_private_networks = [(''::1'', 128), (''::'', 128), (''::ffff:0:0'', 96), (''64:ff9b:1::'', 48), (''100::'', 64),
     (''2001::'', 23), (''2001:db8::'', 32), (''2002::'', 16), (''fc00::'', 7), (''fe80::'', 10)]"

definition ipv6_private_exceptions :: "(string \<times> nat) list" where
  "ipv6_private_exceptions = [(''2001:1::1'', 128), (''2001:1::2'', 128), (''2001:3::'', 32), (''2001:4:112::'', 48),
     (''2001:20::'', 28), (''2001:30::'', 28)]"

definition ipv4_is_private :: "nat \<Rightarrow> bool" where
  "ipv4_is_private n \<longleftrightarrow> list_ex (\<lambda>net. in_network 32 n net ipv4_value) ipv4_private_networks \<and>
     list_all (\<lambda>net. \<not> in_network 32 n net ipv4_value) ipv4_private_exceptions"

definition ipv6_is_private :: "nat \<Rightarrow> bool" where
  "ipv6_is_private n \<longleftrightarrow>
     (if n div 2 ^ 32 = 65535 then ipv4_is_private (n mod 2 ^ 32)
      else list_ex (\<lambda>net. in_network 128 n net ipv6_value) ipv6_private_networks \<and>
        list_all (\<lambda>net. \<not> in_network 128 n net ipv6_value) ipv6_private_exceptions)"

fun is_global :: "ip_address \<Rightarrow> bool" where
  "is_global (IPv4 n) \<longleftrightarrow> \<not> in_network 32 n (''100.64.0.0'', 10) ipv4_value \<and> \<not> ipv4_is_private n"
| "is_global (IPv6 n) \<longleftrightarrow> \<not> ipv6_is_private n"

definition is_public_address :: "string \<Rightarrow> bool" where
  "is_public_address a = (case parse_ip a of None \<Rightarrow> False | Some ip \<Rightarrow> is_global ip)"

text \<open>\<^verbatim>\<open>_validate_addresses\<close>; the text of the parse error is CPython's.\<close>

fun validate_each :: "string list \<Rightarrow> exn + unit" where
  "validate_each [] = Inr ()"
| "validate_each (address # rest) =
     (case parse_ip address of
        None \<Rightarrow> Inl (ValueError (''does not appear to be an IPv4 or IPv6 address: '' @ address))
      | Some ip \<Rightarrow> if \<not> is_global ip then Inl (ValueError (''URL host resolves to a non-public address: '' @ address))
          else validate_each rest)"

definition validate_addresses :: "string list \<Rightarrow> exn + unit" where
  "validate_addresses addresses =
     (if addresses = [] then Inl (ValueError ''URL host did not resolve'') else validate_each addresses)"

lemma validate_each_iff: "validate_each as = Inr () \<longleftrightarrow> list_all is_public_address as"
  by (induction as) (auto simp: is_public_address_def split: option.split)

lemma validate_addresses_iff: "validate_addresses as = Inr () \<longleftrightarrow> as \<noteq> [] \<and> list_all is_public_address as"
  by (simp add: validate_addresses_def validate_each_iff)

subsection \<open>Origins\<close>

text \<open>\<^verbatim>\<open>_origin\<close>; a falsy port is left out.\<close>

definition url_origin :: "string \<Rightarrow> exn + string" where
  "url_origin url =
     (case urlsplit url of Inl e \<Rightarrow> Inl e
      | Inr parsed \<Rightarrow>
          (case us_port parsed of Inl e \<Rightarrow> Inl e
           | Inr port \<Rightarrow>
               Inr (py_lower (us_scheme parsed) @ ''://'' @
                 py_lower (case us_hostname parsed of None \<Rightarrow> [] | Some h \<Rightarrow> h) @
                 (case port of None \<Rightarrow> [] | Some p \<Rightarrow> if p = 0 then [] else '':'' @ nat_str p))))"

fun url_origins :: "string list \<Rightarrow> exn + string list" where
  "url_origins [] = Inr []"
| "url_origins (u # us) = (case url_origin u of Inl e \<Rightarrow> Inl e
     | Inr origin \<Rightarrow> (case url_origins us of Inl e \<Rightarrow> Inl e | Inr origins \<Rightarrow> Inr (origin # origins)))"

subsection \<open>The policy\<close>

record resolution_entry =
  re_addresses :: "string list"
  re_expires_at :: rat

record url_policy =
  up_origins :: "string list"
  up_resolver_ttl_seconds :: rat
  up_maximum_resolved_hosts :: nat
  up_resolutions :: "(string, resolution_entry) odict"
  up_resolution_tasks :: "(string, nat) odict"

definition url_policy_init :: "string list \<Rightarrow> pyfloat \<Rightarrow> int \<Rightarrow> exn + url_policy" where
  "url_policy_init origins ttl maximum =
     (case ttl of
        PFin t \<Rightarrow>
          if t < 0 then Inl (ValueError ''resolver_ttl_seconds must be finite and non-negative'')
          else if maximum < 1 then Inl (ValueError ''maximum_resolved_hosts must be a positive integer'')
          else (case url_origins origins of Inl e \<Rightarrow> Inl e
            | Inr allowed \<Rightarrow> Inr \<lparr>up_origins = allowed, up_resolver_ttl_seconds = t,
                up_maximum_resolved_hosts = nat maximum, up_resolutions = [], up_resolution_tasks = []\<rparr>)
      | _ \<Rightarrow> Inl (ValueError ''resolver_ttl_seconds must be finite and non-negative''))"

definition truthy :: "string option \<Rightarrow> bool" where
  "truthy x = (case x of None \<Rightarrow> False | Some s \<Rightarrow> s \<noteq> [])"

text \<open>The checks of \<^verbatim>\<open>validate_with_addresses\<close> before the resolution: the logical URL and its host.\<close>

definition policy_check :: "url_policy \<Rightarrow> string \<Rightarrow> string option \<Rightarrow> exn + string \<times> string" where
  "policy_check p url previous_url =
     (case (case previous_url of None \<Rightarrow> Inr url | Some prev \<Rightarrow> if prev = [] then Inr url else urljoin prev url) of
        Inl e \<Rightarrow> Inl e
      | Inr absolute \<Rightarrow>
          (case urlsplit absolute of Inl e \<Rightarrow> Inl e
           | Inr parsed \<Rightarrow>
               if us_scheme parsed \<notin> {''http'', ''https''} \<or> \<not> truthy (us_hostname parsed)
               then Inl (ValueError ''URL policy permits only absolute HTTP(S) URLs'')
               else if truthy (fst (us_userinfo parsed)) \<or> truthy (snd (us_userinfo parsed))
               then Inl (ValueError ''URL policy rejects embedded user information'')
               else (case url_origin absolute of Inl e \<Rightarrow> Inl e
                 | Inr origin \<Rightarrow>
                     if origin \<notin> set (up_origins p) then Inl (ValueError (''URL origin is not allowed: '' @ origin))
                     else Inr (absolute, case us_hostname parsed of None \<Rightarrow> [] | Some h \<Rightarrow> h))))"

text \<open>
  The lookup of \<^verbatim>\<open>_resolve\<close>: cached addresses, a task that already runs, or a new task, whose identity
  is \<open>fresh\<close>.
\<close>

datatype lookup_result = CachedAddresses "string list" | JoinTask nat | StartTask nat

definition clock_now :: "pyfloat \<Rightarrow> exn + rat" where
  "clock_now value = (case value of PFin t \<Rightarrow> Inr t
     | _ \<Rightarrow> Inl (ValueError ''resolver cache clock must return a finite value''))"

definition policy_lookup :: "pyfloat \<Rightarrow> nat \<Rightarrow> string \<Rightarrow> url_policy \<Rightarrow> (exn + lookup_result) \<times> url_policy" where
  "policy_lookup clock fresh host p =
     (let key = py_lower host in
      case clock_now clock of Inl e \<Rightarrow> (Inl e, p)
      | Inr now \<Rightarrow>
          (case map_of (up_resolutions p) key of
             Some entry \<Rightarrow>
               if now < re_expires_at entry
               then (Inr (CachedAddresses (re_addresses entry)), p\<lparr>up_resolutions := od_move_to_end key (up_resolutions p)\<rparr>)
               else (let p' = p\<lparr>up_resolutions := od_pop key (up_resolutions p)\<rparr> in
                 case map_of (up_resolution_tasks p') key of
                   Some t \<Rightarrow> (Inr (JoinTask t), p')
                 | None \<Rightarrow> (Inr (StartTask fresh), p'\<lparr>up_resolution_tasks := od_set key fresh (up_resolution_tasks p')\<rparr>))
           | None \<Rightarrow>
               (case map_of (up_resolution_tasks p) key of
                  Some t \<Rightarrow> (Inr (JoinTask t), p)
                | None \<Rightarrow> (Inr (StartTask fresh), p\<lparr>up_resolution_tasks := od_set key fresh (up_resolution_tasks p)\<rparr>))))"

text \<open>
  The rest of a resolution task, after the resolver answered: validate, store and trim, or raise.
  The \<^verbatim>\<open>finally\<close> clause removes the task from the table if it is still the one listed there.
\<close>

definition policy_store ::
  "pyfloat \<Rightarrow> string \<Rightarrow> string list \<Rightarrow> url_policy \<Rightarrow> (exn + string list) \<times> url_policy" where
  "policy_store clock key addresses p =
     (case validate_addresses addresses of Inl e \<Rightarrow> (Inl e, p)
      | Inr _ \<Rightarrow> (case clock_now clock of Inl e \<Rightarrow> (Inl e, p)
          | Inr now \<Rightarrow>
              (Inr addresses, p\<lparr>up_resolutions := od_trim (up_maximum_resolved_hosts p)
                 (od_move_to_end key (od_set key
                    \<lparr>re_addresses = addresses, re_expires_at = now + up_resolver_ttl_seconds p\<rparr> (up_resolutions p)))\<rparr>)))"

definition policy_task_done :: "nat \<Rightarrow> string \<Rightarrow> url_policy \<Rightarrow> url_policy" where
  "policy_task_done t key p =
     (if map_of (up_resolution_tasks p) key = Some t
      then p\<lparr>up_resolution_tasks := od_pop key (up_resolution_tasks p)\<rparr> else p)"

text \<open>A resolution task as a whole: the resolver's answer, then store, then the \<^verbatim>\<open>finally\<close> clause.\<close>

definition resolve_and_cache ::
  "pyfloat \<Rightarrow> nat \<Rightarrow> string \<Rightarrow> exn + string list \<Rightarrow> url_policy \<Rightarrow> (exn + string list) \<times> url_policy" where
  "resolve_and_cache clock t key answer p =
     (case (case answer of Inl e \<Rightarrow> (Inl e, p) | Inr addresses \<Rightarrow> policy_store clock key addresses p) of
        (r, p') \<Rightarrow> (r, policy_task_done t key p'))"

subsection \<open>Runs\<close>

text \<open>Any sequence of lookups and resolution tasks, whatever their clock readings and answers.\<close>

datatype policy_event =
    PolicyLookup pyfloat nat string
  | PolicyTask pyfloat nat string "exn + string list"

fun policy_step :: "url_policy \<Rightarrow> policy_event \<Rightarrow> url_policy" where
  "policy_step p (PolicyLookup clock fresh host) = snd (policy_lookup clock fresh host p)"
| "policy_step p (PolicyTask clock t key answer) = snd (resolve_and_cache clock t key answer p)"

text \<open>How one event changes the cache of resolutions.\<close>

lemma lookup_resolutions:
  "up_resolutions (snd (policy_lookup clock fresh host p)) \<in>
     {up_resolutions p, od_move_to_end (py_lower host) (up_resolutions p), od_pop (py_lower host) (up_resolutions p)}"
  by (auto simp: policy_lookup_def Let_def split: sum.split option.split)

lemma task_done_resolutions [simp]: "up_resolutions (policy_task_done t key p) = up_resolutions p"
  by (simp add: policy_task_done_def)

lemma task_resolutions:
  "up_resolutions (snd (resolve_and_cache clock t key answer p)) = up_resolutions p \<or>
   (\<exists>now as. clock = PFin now \<and> answer = Inr as \<and> validate_addresses as = Inr () \<and>
      up_resolutions (snd (resolve_and_cache clock t key answer p)) = od_trim (up_maximum_resolved_hosts p)
        (od_move_to_end key (od_set key \<lparr>re_addresses = as, re_expires_at = now + up_resolver_ttl_seconds p\<rparr>
          (up_resolutions p))))"
  by (auto simp: resolve_and_cache_def policy_store_def clock_now_def split: sum.split pyfloat.split)

lemma policy_step_config [simp]:
  "up_maximum_resolved_hosts (policy_step p e) = up_maximum_resolved_hosts p"
  "up_resolver_ttl_seconds (policy_step p e) = up_resolver_ttl_seconds p"
  "up_origins (policy_step p e) = up_origins p"
  by (cases e; auto simp: policy_lookup_def resolve_and_cache_def policy_store_def policy_task_done_def Let_def
      split: sum.split option.split)+

interpretation resolution_cache: bounded_store policy_step up_resolutions up_maximum_resolved_hosts
proof (unfold_locales, goal_cases)
  case (1 p e)
  then show ?case
    using lookup_resolutions task_resolutions by (cases e) (auto, (metis od_wfs od_trim_wf)+)
next
  case (2 p e)
  show ?case
  proof (cases e)
    case (PolicyLookup clock fresh host)
    with lookup_resolutions [of clock fresh host p] 2 show ?thesis
      by (auto simp: od_length_move_to_end intro: order_trans [OF od_length_pop_le])
  next
    case (PolicyTask clock t key answer)
    with task_resolutions [of clock t key answer p] 2 show ?thesis by auto
  qed
next
  case (3 p e)
  then show ?case by simp
qed

text \<open>Where each entry comes from: a task that resolved its key to validated addresses.\<close>

definition resolved_by :: "rat \<Rightarrow> policy_event list \<Rightarrow> string \<Rightarrow> resolution_entry \<Rightarrow> bool" where
  "resolved_by ttl es key entry \<longleftrightarrow>
     (\<exists>now t. PolicyTask (PFin now) t key (Inr (re_addresses entry)) \<in> set es \<and>
        validate_addresses (re_addresses entry) = Inr () \<and> re_expires_at entry = now + ttl)"

lemma resolved_by_mono: "resolved_by ttl es key entry \<Longrightarrow> resolved_by ttl (es @ [e]) key entry"
  by (auto simp: resolved_by_def)

lemma policy_step_entry:
  assumes "od_wf (up_resolutions p)" "map_of (up_resolutions (policy_step p e)) key = Some entry"
  shows "map_of (up_resolutions p) key = Some entry \<or> resolved_by (up_resolver_ttl_seconds p) [e] key entry"
proof (cases e)
  case (PolicyLookup clock fresh host)
  with lookup_resolutions [of clock fresh host p] assms(2) show ?thesis
    by (auto simp: od_simps split: if_splits)
next
  case (PolicyTask clock t k answer)
  show ?thesis
  proof (cases "up_resolutions (policy_step p e) = up_resolutions p")
    case False
    with task_resolutions [of clock t k answer p] PolicyTask obtain now as where
      as: "clock = PFin now" "answer = Inr as" "validate_addresses as = Inr ()"
      and step: "up_resolutions (policy_step p e) = od_trim (up_maximum_resolved_hosts p)
        (od_move_to_end k (od_set k \<lparr>re_addresses = as, re_expires_at = now + up_resolver_ttl_seconds p\<rparr> (up_resolutions p)))"
      by auto
    from od_trim_subset [OF _ assms(2) [unfolded step]] assms(1)
    have "map_of (od_set k \<lparr>re_addresses = as, re_expires_at = now + up_resolver_ttl_seconds p\<rparr> (up_resolutions p)) key = Some entry"
      by (simp add: od_get_move_to_end od_wf_move_to_end od_wf_set)
    with as PolicyTask show ?thesis by (auto simp: od_simps resolved_by_def split: if_splits)
  qed (use assms in simp)
qed

lemma policy_run_config [simp]:
  "up_maximum_resolved_hosts (foldl policy_step p es) = up_maximum_resolved_hosts p"
  "up_resolver_ttl_seconds (foldl policy_step p es) = up_resolver_ttl_seconds p"
  "up_origins (foldl policy_step p es) = up_origins p"
  by (induction es rule: rev_induct) simp_all

lemma policy_run_entry:
  assumes "up_resolutions p = []"
  shows "map_of (up_resolutions (foldl policy_step p es)) key = Some entry \<Longrightarrow>
    resolved_by (up_resolver_ttl_seconds p) es key entry"
proof (induction es rule: rev_induct)
  case (snoc e es)
  have "od_wf (up_resolutions (foldl policy_step p es))"
    by (induction es rule: rev_induct) (use assms resolution_cache.step_wf in auto)
  from policy_step_entry [OF this, of e key entry] snoc show ?case
    by (auto intro: resolved_by_mono simp: resolved_by_def)
qed (simp add: assms)

subsection \<open>Properties\<close>

lemma url_policy_init_Inr:
  assumes "url_policy_init origins ttl maximum = Inr p"
  shows "up_resolutions p = []" "0 < up_maximum_resolved_hosts p" "ttl = PFin (up_resolver_ttl_seconds p)"
    "url_origins origins = Inr (up_origins p)" "up_resolution_tasks p = []"
  using assms by (auto simp: url_policy_init_def split: pyfloat.splits sum.splits if_splits)

lemma cached_addresses:
  "policy_lookup clock fresh host p = (Inr (CachedAddresses as), p') \<Longrightarrow>
   \<exists>now entry. clock = PFin now \<and> map_of (up_resolutions p) (py_lower host) = Some entry \<and>
     as = re_addresses entry \<and> now < re_expires_at entry"
  by (auto simp: policy_lookup_def clock_now_def Let_def split: sum.splits option.splits if_splits pyfloat.splits)


text \<open>
  What the policy lets through.  A URL passes the checks exactly if, resolved against the previous
  URL, it is an absolute HTTP or HTTPS URL with a host and without user information whose origin is
  the origin of one of the configured URLs; every other URL raises before any name is resolved.
\<close>

theorem url_policy_check_iff:
  assumes "url_policy_init origins ttl maximum = Inr p"
  shows "policy_check p url None = Inr (absolute, host) \<longleftrightarrow>
    absolute = url \<and> (\<exists>parsed origin. urlsplit url = Inr parsed \<and> us_scheme parsed \<in> {''http'', ''https''} \<and>
      us_hostname parsed = Some host \<and> host \<noteq> [] \<and>
      \<not> truthy (fst (us_userinfo parsed)) \<and> \<not> truthy (snd (us_userinfo parsed)) \<and>
      url_origin url = Inr origin \<and> (\<exists>o' \<in> set origins. url_origin o' = Inr origin))"
proof -
  have mem: "origin \<in> set os \<longleftrightarrow> (\<exists>o' \<in> set us. url_origin o' = Inr origin)" if "url_origins us = Inr os" for us os origin
    using that by (induction us arbitrary: os) (auto split: sum.splits)
  show ?thesis
    using mem [OF url_policy_init_Inr(4) [OF assms]]
    by (auto simp: policy_check_def truthy_def split: sum.splits option.splits if_splits)
qed

text \<open>A policy for one origin, and a resolution of its host.\<close>

lemma sample_policy:
  obtains p where "url_policy_init [''https://shop.example''] (PFin 60) 1 = Inr p" "up_resolver_ttl_seconds p = 60"
proof -
  have "\<not> isl (url_origin ''https://shop.example'')" by code_simp
  then obtain origin where "url_origin ''https://shop.example'' = Inr origin"
    by (cases "url_origin ''https://shop.example''") auto
  then show ?thesis using that by (auto simp: url_policy_init_def)
qed

lemma public_sample: "is_public_address ''1.1.1.1''"
proof -
  have ip: "parse_ip ''1.1.1.1'' = Some (IPv4 16843009)"
    by (simp add: parse_ip_def ipv4_value_def ipv4_octet_def digits_value_def is_digit_char_def code_of_def Let_def)
  show ?thesis
    by (simp add: is_public_address_def ip in_network_def ipv4_is_private_def ipv4_private_networks_def
        ipv4_value_def ipv4_octet_def digits_value_def is_digit_char_def code_of_def Let_def)
qed


theorem url_policy_check_iff_witness:
  "\<exists>p. url_policy_init [''https://shop.example''] (PFin 60) 1 = Inr p \<and>
     policy_check p ''ftp://shop.example/'' None \<noteq> Inr (''ftp://shop.example/'', ''shop.example'')"
proof -
  obtain p where p: "url_policy_init [''https://shop.example''] (PFin 60) 1 = Inr p" by (rule sample_policy)
  have "map_sum id us_scheme (urlsplit ''ftp://shop.example/'') = Inr ''ftp''" by code_simp
  then have "urlsplit ''ftp://shop.example/'' = Inr parsed \<Longrightarrow> us_scheme parsed = ''ftp''" for parsed by auto
  with url_policy_check_iff [OF p, of "''ftp://shop.example/''" "''ftp://shop.example/''" "''shop.example''"] p
  show ?thesis by auto
qed

end
