(* ===== verification/Httpx.thy ===== *)
theory Httpx
  imports Effects Request_Size Rate_Limit Url_Policy
begin

section \<open>The HTTP transport\<close>

text \<open>
  \<^verbatim>\<open>HttpxTransport.request\<close> of \<^verbatim>\<open>transports/httpx.py\<close>: the redirect loop.  The URL policy, the HTTP
  client and \<^verbatim>\<open>httpx.URL\<close> are parameters.  Sending one physical request answers with a raw response or
  with the type name of an \<^verbatim>\<open>httpx.HTTPError\<close>, and may raise anything else; reading the body of a raw response
  yields its chunks and then ends or fails with an \<^verbatim>\<open>HTTPError\<close>.
\<close>

record raw_response =
  rr_status :: nat
  rr_is_redirect :: bool
  rr_location :: "string option"
  rr_headers :: "(string, string) odict"
  rr_chunks :: "string list"
  rr_read_error :: "string option"

record physical_send =
  ph_method :: string
  ph_url :: string
  ph_endpoint :: string
  ph_query :: "(string, query_value) odict"
  ph_headers :: "(string, string) odict"
  ph_json_body :: "json option"
  ph_body :: "string option"
  ph_sni :: string

record 'e hx_ops =
  hx_validate :: "string \<Rightarrow> string option \<Rightarrow> ('e, string \<times> string list) act"
  hx_stream :: "physical_send \<Rightarrow> ('e, string + raw_response) act"
  hx_url_params :: "string \<Rightarrow> (string, query_value) odict \<Rightarrow> string"

datatype hx_call =
    HxValidate string "string option" "exn + (string \<times> string list)"
  | HxSend physical_send "exn + (string + raw_response)"

record hx_config =
  hx_maximum_redirects :: nat
  hx_maximum_response_bytes :: nat

type_synonym ('e, 'a) hx_act = "((hx_call, 'e) world, 'a) act"

definition hx_init :: "int \<Rightarrow> int \<Rightarrow> int \<Rightarrow> exn + hx_config" where
  "hx_init maximum_clients maximum_redirects maximum_response_bytes =
     (if maximum_clients < 1 then Inl (ValueError ''maximum_clients must be a positive integer'')
      else if maximum_redirects < 0 then Inl (ValueError ''maximum_redirects must be non-negative'')
      else if maximum_response_bytes < 1 then Inl (ValueError ''maximum_response_bytes must be positive'')
      else Inr \<lparr>hx_maximum_redirects = nat maximum_redirects, hx_maximum_response_bytes = nat maximum_response_bytes\<rparr>)"

subsection \<open>Helpers\<close>

definition endpoint_url :: "string \<Rightarrow> string \<Rightarrow> exn + string" where
  "endpoint_url logical_url address =
     (case urlsplit logical_url of Inl e \<Rightarrow> Inl e
      | Inr parsed \<Rightarrow> (case us_port parsed of Inl e \<Rightarrow> Inl e
          | Inr port \<Rightarrow>
              Inr (urlunsplit (us_scheme parsed)
                ((if CHR '':'' \<in> set address then ''['' @ address @ '']'' else address) @
                 (case port of None \<Rightarrow> [] | Some p \<Rightarrow> if p = 0 then [] else '':'' @ nat_str p))
                (us_path parsed) (us_query parsed) [])))"

text \<open>\<^verbatim>\<open>_host_header\<close> is the text the size estimate uses.\<close>

definition hx_host_header :: "split_result \<Rightarrow> exn + string" where
  "hx_host_header parsed = host_header parsed"

definition sni_hostname :: "split_result \<Rightarrow> exn + string" where
  "sni_hostname parsed = idna_ascii (case us_hostname parsed of None \<Rightarrow> [] | Some h \<Rightarrow> h)"

definition sensitive_header :: "string \<Rightarrow> bool" where
  "sensitive_header name \<longleftrightarrow> py_lower name \<in> {''authorization'', ''proxy-authorization'', ''cookie''}"

definition strip_sensitive_headers :: "(string, string) odict \<Rightarrow> (string, string) odict" where
  "strip_sensitive_headers headers = filter (\<lambda>(name, _). \<not> sensitive_header name) headers"

text \<open>\<^verbatim>\<open>_read_bounded\<close>.\<close>

datatype read_result = ReadBody string | ReadTooLarge nat | ReadHTTPError string

fun read_bounded :: "nat \<Rightarrow> string option \<Rightarrow> nat \<Rightarrow> string \<Rightarrow> string list \<Rightarrow> read_result" where
  "read_bounded maximum failure received acc [] =
     (case failure of None \<Rightarrow> ReadBody acc | Some name \<Rightarrow> ReadHTTPError name)"
| "read_bounded maximum failure received acc (chunk # chunks) =
     (let received' = received + length chunk in
      if received' > maximum then ReadTooLarge received'
      else read_bounded maximum failure received' (acc @ chunk) chunks)"

subsection \<open>The redirect loop\<close>

record hx_state =
  hs_current :: string
  hs_addresses :: "string list"
  hs_headers :: "(string, string) odict"
  hs_method :: string
  hs_json_body :: "json option"
  hs_body :: "string option"
  hs_physical :: nat
  hs_transmitted :: nat

text \<open>\<^verbatim>\<open>request.model_copy(update=...)\<close> for one physical request.\<close>

definition send_request :: "transport_request \<Rightarrow> physical_send \<Rightarrow> transport_request" where
  "send_request request s = request\<lparr>req_method := ph_method s, req_url := ph_url s, req_query := ph_query s,
     req_headers := ph_headers s, req_json_body := ph_json_body s, req_body := ph_body s\<rparr>"

text \<open>
  What is sent in one round: the physical request and its size.  An empty tuple of addresses raises
  \<^verbatim>\<open>IndexError\<close>, a \<^verbatim>\<open>LookupError\<close> like \<^verbatim>\<open>KeyError\<close>.
\<close>

definition hx_prepare ::
  "transport_request \<Rightarrow> nat \<Rightarrow> hx_state \<Rightarrow> exn + physical_send \<times> nat" where
  "hx_prepare request redirect st =
     (case (urlsplit (hs_current st), hs_addresses st) of
        (Inl e, _) \<Rightarrow> Inl e
      | (Inr parsed, []) \<Rightarrow> Inl (PyKeyError ''tuple index out of range'')
      | (Inr parsed, address # _) \<Rightarrow>
          (case (endpoint_url (hs_current st) address, hx_host_header parsed) of
             (Inl e, _) \<Rightarrow> Inl e
           | (Inr endpoint, Inl e) \<Rightarrow> Inl e
           | (Inr endpoint, Inr host) \<Rightarrow>
               let s = \<lparr>ph_method = hs_method st, ph_url = hs_current st, ph_endpoint = endpoint,
                     ph_query = (if redirect = 0 then req_query request else []),
                     ph_headers = od_set ''Host'' host (hs_headers st),
                     ph_json_body = hs_json_body st, ph_body = hs_body st,
                     ph_sni = (case us_hostname parsed of None \<Rightarrow> [] | Some h \<Rightarrow> h)\<rparr> in
               case estimated_transmitted_bytes (send_request request s) of
                 Inl e \<Rightarrow> Inl e
               | Inr n \<Rightarrow> (case sni_hostname parsed of Inl e \<Rightarrow> Inl e | Inr sni \<Rightarrow> Inr (s\<lparr>ph_sni := sni\<rparr>, n))))"

datatype hx_next = HxReturn transport_response | HxFollow hx_state

definition hx_accounting :: "nat \<Rightarrow> nat \<Rightarrow> nat \<Rightarrow> transport_accounting" where
  "hx_accounting physical transmitted received =
     \<lparr>physical_requests = physical, transmitted_bytes = transmitted, received_bytes = received\<rparr>"

definition hx_failure :: "nat \<Rightarrow> nat \<Rightarrow> exn" where
  "hx_failure physical transmitted = TransportFailure (Some (hx_accounting physical transmitted 0))"

text \<open>A redirect: its target is validated before anything is sent to it.\<close>

definition hx_redirect ::
  "hx_config \<Rightarrow> 'e hx_ops \<Rightarrow> nat \<Rightarrow> raw_response \<Rightarrow> hx_state \<Rightarrow> ('e, hx_next) hx_act" where
  "hx_redirect cfg ops redirect raw st =
     (if redirect = hx_maximum_redirects cfg then raise (RuntimeErr ''maximum redirect count exceeded'')
      else (case rr_location raw of
          None \<Rightarrow> raise (RuntimeErr ''redirect response omitted Location'')
        | Some location \<Rightarrow>
            if location = [] then raise (RuntimeErr ''redirect response omitted Location'')
            else bindA (call (HxValidate location (Some (hs_current st)))
                   (hx_validate ops location (Some (hs_current st)))) (\<lambda>(target, addresses).
              bindA (liftA (url_origin target)) (\<lambda>target_origin.
              bindA (liftA (url_origin (hs_current st))) (\<lambda>current_origin.
                let cross = (target_origin \<noteq> current_origin) in
                if cross \<and> (hs_json_body st \<noteq> None \<or> hs_body st \<noteq> None)
                then raise (RuntimeErr ''cross-origin redirect with a request body is refused'')
                else
                  let st1 = (if cross then st\<lparr>hs_headers := strip_sensitive_headers (hs_headers st)\<rparr> else st);
                      st2 = (if rr_status raw = 303 \<or>
                               (rr_status raw = 301 \<or> rr_status raw = 302) \<and> py_upper (hs_method st) = ''POST''
                             then st1\<lparr>hs_method := ''GET'', hs_json_body := None, hs_body := None\<rparr> else st1)
                  in ret (HxFollow (st2\<lparr>hs_current := target, hs_addresses := addresses\<rparr>)))))))"

definition hx_receive ::
  "hx_config \<Rightarrow> 'e hx_ops \<Rightarrow> physical_send \<Rightarrow> raw_response \<Rightarrow> hx_state \<Rightarrow> rat \<Rightarrow> ('e, hx_next) hx_act" where
  "hx_receive cfg ops s raw st elapsed =
     (case read_bounded (hx_maximum_response_bytes cfg) (rr_read_error raw) 0 [] (rr_chunks raw) of
        ReadTooLarge received \<Rightarrow>
          raise (ResponseBodyTooLarge (hx_maximum_response_bytes cfg) received
            (Some (hx_accounting (hs_physical st) (hs_transmitted st) received)))
      | ReadHTTPError name \<Rightarrow> raise (hx_failure (hs_physical st) (hs_transmitted st))
      | ReadBody body \<Rightarrow>
          ret (HxReturn \<lparr>resp_status = rr_status raw, resp_headers = rr_headers raw, resp_content = body,
            resp_final_url = (if ph_query s = [] then hs_current st else hx_url_params ops (hs_current st) (ph_query s)),
            resp_route = route_default, resp_from_cache = False, resp_elapsed_seconds = elapsed,
            resp_accounting = Some (hx_accounting (hs_physical st) (hs_transmitted st) (length body))\<rparr>))"

definition hx_round ::
  "hx_config \<Rightarrow> 'e hx_ops \<Rightarrow> transport_request \<Rightarrow> rat \<Rightarrow> nat \<Rightarrow> hx_state \<Rightarrow> ('e, hx_next) hx_act" where
  "hx_round cfg ops request elapsed redirect st =
     bindA (liftA (hx_prepare request redirect st)) (\<lambda>(s, n).
       let st' = st\<lparr>hs_headers := ph_headers s, hs_physical := hs_physical st + 1, hs_transmitted := hs_transmitted st + n\<rparr> in
       bindA (call (HxSend s) (hx_stream ops s)) (\<lambda>answer.
         case answer of
           Inl name \<Rightarrow> raise (hx_failure (hs_physical st') (hs_transmitted st'))
         | Inr raw \<Rightarrow>
             if rr_is_redirect raw then hx_redirect cfg ops redirect raw st'
             else hx_receive cfg ops s raw st' elapsed))"

fun hx_loop ::
  "hx_config \<Rightarrow> 'e hx_ops \<Rightarrow> transport_request \<Rightarrow> rat \<Rightarrow> nat list \<Rightarrow> hx_state \<Rightarrow> ('e, transport_response) hx_act" where
  "hx_loop cfg ops request elapsed [] st = raise (AssertionErr ''unreachable'')"
| "hx_loop cfg ops request elapsed (redirect # redirects) st =
     bindA (hx_round cfg ops request elapsed redirect st) (\<lambda>next_step.
       case next_step of HxReturn response \<Rightarrow> ret response
       | HxFollow st' \<Rightarrow> hx_loop cfg ops request elapsed redirects st')"

definition hx_start :: "transport_request \<Rightarrow> string \<Rightarrow> string list \<Rightarrow> hx_state" where
  "hx_start request current addresses =
     \<lparr>hs_current = current, hs_addresses = addresses, hs_headers = req_headers request, hs_method = req_method request,
      hs_json_body = req_json_body request, hs_body = req_body request, hs_physical = 0, hs_transmitted = 0\<rparr>"

definition hx_request ::
  "hx_config \<Rightarrow> 'e hx_ops \<Rightarrow> rat \<Rightarrow> transport_request \<Rightarrow> ('e, transport_response) hx_act" where
  "hx_request cfg ops elapsed request =
     (if req_browser request = BrowserRequired then raise BrowserBackendUnavailable
      else bindA (call (HxValidate (req_url request) None) (hx_validate ops (req_url request) None))
        (\<lambda>(current, addresses).
          hx_loop cfg ops request elapsed [0..<hx_maximum_redirects cfg + 1] (hx_start request current addresses)))"

subsection \<open>What is sent\<close>

text \<open>The physical requests of a history, oldest first.\<close>

fun hx_sends :: "hx_call list \<Rightarrow> physical_send list" where
  "hx_sends [] = []"
| "hx_sends (HxSend s _ # history) = hx_sends history @ [s]"
| "hx_sends (_ # history) = hx_sends history"

definition clean_send :: "physical_send \<Rightarrow> bool" where
  "clean_send s \<longleftrightarrow> list_all (\<lambda>(name, _). \<not> sensitive_header name) (ph_headers s) \<and> ph_json_body s = None \<and> ph_body s = None"

text \<open>From the first change of origin on, nothing sensitive is sent.\<close>

fun credential_safe :: "physical_send list \<Rightarrow> bool" where
  "credential_safe (s # t # rest) \<longleftrightarrow>
     (url_origin (ph_url s) = url_origin (ph_url t) \<or> list_all clean_send (t # rest)) \<and> credential_safe (t # rest)"
| "credential_safe _ \<longleftrightarrow> True"

text \<open>
  Every physical request is sent right after the policy validated its URL, to the first of the
  addresses the policy returned.
\<close>

fun policy_obeyed :: "hx_call list \<Rightarrow> bool" where
  "policy_obeyed (HxSend s _ # HxValidate url prev (Inr (target, address # rest)) # history) \<longleftrightarrow>
     ph_url s = target \<and> endpoint_url target address = Inr (ph_endpoint s) \<and> policy_obeyed history"
| "policy_obeyed (HxSend s _ # _) \<longleftrightarrow> False"
| "policy_obeyed (HxValidate _ _ _ # history) \<longleftrightarrow> policy_obeyed history"
| "policy_obeyed [] \<longleftrightarrow> True"

definition send_size :: "transport_request \<Rightarrow> physical_send \<Rightarrow> nat" where
  "send_size request s = (case estimated_transmitted_bytes (send_request request s) of Inl _ \<Rightarrow> 0 | Inr n \<Rightarrow> n)"

definition clean_state :: "hx_state \<Rightarrow> bool" where
  "clean_state st \<longleftrightarrow> list_all (\<lambda>(name, _). \<not> sensitive_header name) (hs_headers st) \<and> hs_json_body st = None \<and> hs_body st = None"

lemma host_not_sensitive: "\<not> sensitive_header ''Host''"
  by code_simp

lemma hx_prepare_Inr:
  assumes "hx_prepare request k st = Inr (s, n)"
  shows "ph_url s = hs_current st" "ph_json_body s = hs_json_body st" "ph_body s = hs_body st"
    "\<exists>address rest. hs_addresses st = address # rest \<and> endpoint_url (hs_current st) address = Inr (ph_endpoint s)"
    "send_size request s = n" "clean_state st \<Longrightarrow> clean_send s"
  using assms
  by (auto simp: hx_prepare_def clean_state_def clean_send_def send_size_def send_request_def Let_def host_not_sensitive
      intro!: list_all_od_set split: sum.splits list.splits)

lemma read_bounded_body:
  "read_bounded m f n acc chunks = ReadBody body \<Longrightarrow> n = length acc \<Longrightarrow> n \<le> m \<Longrightarrow> length body \<le> m"
  by (induction m f n acc chunks rule: read_bounded.induct) (auto simp: Let_def split: option.splits if_splits)

text \<open>One round sends at most once and leaves a state that is clean after a change of origin.\<close>

lemma strip_clean: "list_all (\<lambda>(name, _). \<not> sensitive_header name) (strip_sensitive_headers h)"
  by (auto simp: strip_sensitive_headers_def list_all_iff)

lemma strip_keeps:
  "list_all (\<lambda>(name, _). \<not> sensitive_header name) h \<Longrightarrow> strip_sensitive_headers h = h"
  by (auto simp: strip_sensitive_headers_def list_all_iff intro: filter_True)

lemma hx_redirect_follow:
  assumes "hx_redirect cfg ops k raw st w = (r, w')"
  shows "(\<exists>url prev v. w' = w \<or> w_log w' = HxValidate url prev v # w_log w) \<and>
    (\<forall>resp. r \<noteq> Inr (HxReturn resp)) \<and>
    (\<forall>st'. r = Inr (HxFollow st') \<longrightarrow>
      (\<exists>url prev. w_log w' = HxValidate url prev (Inr (hs_current st', hs_addresses st')) # w_log w) \<and>
      (url_origin (hs_current st) = url_origin (hs_current st') \<or> clean_state st') \<and>
      (clean_state st \<longrightarrow> clean_state st') \<and> hs_physical st' = hs_physical st \<and> hs_transmitted st' = hs_transmitted st)"
proof (cases "k = hx_maximum_redirects cfg \<or> rr_location raw = None \<or> rr_location raw = Some []")
  case True
  then have "\<exists>e. hx_redirect cfg ops k raw st w = (Inl e, w)" by (auto simp: hx_redirect_def raise_def)
  with assms show ?thesis by auto
next
  case False
  then obtain loc where loc: "rr_location raw = Some loc" "loc \<noteq> []" "k \<noteq> hx_maximum_redirects cfg" by auto
  obtain v env where v: "hx_validate ops loc (Some (hs_current st)) (w_env w) = (v, env)" by fastforce
  show ?thesis
  proof (cases v)
    case (Inl e)
    with assms loc v show ?thesis by (auto simp: hx_redirect_def bindA_def call_def)
  next
    case (Inr x)
    obtain target addresses where x: "x = (target, addresses)" by fastforce
    show ?thesis
    proof (cases "\<exists>o1 o2. url_origin target = Inr o1 \<and> url_origin (hs_current st) = Inr o2")
      case False
      with assms loc v Inr x show ?thesis
        by (cases "url_origin target"; cases "url_origin (hs_current st)") (auto simp: hx_redirect_def act_defs call_def)
    next
      case True
      with assms loc v Inr x show ?thesis
        by (auto simp: hx_redirect_def act_defs call_def Let_def clean_state_def strip_clean strip_keeps split: if_splits)
    qed
  qed
qed

lemma hx_receive_return:
  assumes "hx_receive cfg ops s raw st el w = (r, w')"
  shows "w' = w \<and> (\<forall>st'. r \<noteq> Inr (HxFollow st')) \<and>
    (\<forall>resp. r = Inr (HxReturn resp) \<longrightarrow> length (resp_content resp) \<le> hx_maximum_response_bytes cfg \<and>
      resp_accounting resp = Some (hx_accounting (hs_physical st) (hs_transmitted st) (length (resp_content resp))))"
  using assms read_bounded_body [of "hx_maximum_response_bytes cfg" "rr_read_error raw" 0 "[]" "rr_chunks raw"]
  by (auto simp: hx_receive_def ret_def raise_def split: read_result.splits)

lemma hx_round_steps:
  assumes "hx_round cfg ops request el k st w = (r, w')"
  shows "(\<exists>e. r = Inl e \<and> w' = w) \<or>
    (\<exists>s n ans. hx_prepare request k st = Inr (s, n) \<and>
      (w_log w' = HxSend s ans # w_log w \<or> (\<exists>url prev v. w_log w' = HxValidate url prev v # HxSend s ans # w_log w)) \<and>
      (\<forall>resp. r = Inr (HxReturn resp) \<longrightarrow> length (resp_content resp) \<le> hx_maximum_response_bytes cfg \<and>
         resp_accounting resp = Some (hx_accounting (hs_physical st + 1) (hs_transmitted st + n) (length (resp_content resp)))) \<and>
      (\<forall>st'. r = Inr (HxFollow st') \<longrightarrow>
        (\<exists>url prev. w_log w' = HxValidate url prev (Inr (hs_current st', hs_addresses st')) # HxSend s ans # w_log w) \<and>
        (url_origin (hs_current st) = url_origin (hs_current st') \<or> clean_state st') \<and>
        (clean_state st \<longrightarrow> clean_state st') \<and> hs_physical st' = hs_physical st + 1 \<and> hs_transmitted st' = hs_transmitted st + n))"
proof (cases "hx_prepare request k st")
  case (Inl e)
  with assms show ?thesis by (auto simp: hx_round_def act_defs)
next
  case (Inr x)
  obtain s n where x: "x = (s, n)" by fastforce
  let ?st = "st\<lparr>hs_headers := ph_headers s, hs_physical := hs_physical st + 1, hs_transmitted := hs_transmitted st + n\<rparr>"
  have clean: "clean_state st \<Longrightarrow> clean_state ?st"
    using hx_prepare_Inr(2,3,6) [OF Inr [unfolded x]] by (auto simp: clean_state_def clean_send_def)
  obtain ans env where ans: "hx_stream ops s (w_env w) = (ans, env)" by fastforce
  let ?w = "\<lparr>w_env = env, w_log = HxSend s ans # w_log w\<rparr>"
  show ?thesis
  proof (cases "\<exists>raw. ans = Inr (Inr raw)")
    case False
    with assms Inr x ans show ?thesis
      by (cases ans) (auto simp: hx_round_def act_defs call_def Let_def split: sum.splits)
  next
    case True
    then obtain raw where raw: "ans = Inr (Inr raw)" by blast
    show ?thesis
    proof (cases "rr_is_redirect raw")
      case True
      with assms Inr x ans raw have "hx_redirect cfg ops k raw ?st ?w = (r, w')"
        by (simp add: hx_round_def act_defs call_def Let_def)
      from hx_redirect_follow [OF this] clean show ?thesis unfolding Inr x
        by (intro disjI2 exI [of _ s] exI [of _ n] exI [of _ ans]) auto
    next
      case False
      with assms Inr x ans raw have "hx_receive cfg ops s raw ?st el ?w = (r, w')"
        by (simp add: hx_round_def act_defs call_def Let_def)
      from hx_receive_return [OF this] show ?thesis unfolding Inr x
        by (intro disjI2 exI [of _ s] exI [of _ n] exI [of _ ans]) auto
    qed
  qed
qed

text \<open>The loop, by induction on the rounds that are left.\<close>

definition loop_sends ::
  "hx_config \<Rightarrow> transport_request \<Rightarrow> nat \<Rightarrow> hx_state \<Rightarrow> hx_call list \<Rightarrow> exn + transport_response \<Rightarrow> hx_call list \<Rightarrow> bool" where
  "loop_sends cfg request rounds st history r history' \<longleftrightarrow>
     (\<exists>sent. hx_sends history' = hx_sends history @ sent \<and> length sent \<le> rounds \<and> credential_safe sent \<and>
        (clean_state st \<longrightarrow> list_all clean_send sent) \<and> (sent \<noteq> [] \<longrightarrow> ph_url (hd sent) = hs_current st) \<and>
        policy_obeyed history' \<and>
        (\<forall>resp. r = Inr resp \<longrightarrow> length (resp_content resp) \<le> hx_maximum_response_bytes cfg \<and>
          resp_accounting resp = Some (hx_accounting (hs_physical st + length sent)
            (hs_transmitted st + sum_list (map (send_size request) sent)) (length (resp_content resp)))))"

lemma hx_loop_sends:
  "hx_loop cfg ops request el ks st w = (r, w') \<Longrightarrow>
   w_log w = HxValidate url prev (Inr (hs_current st, hs_addresses st)) # history \<Longrightarrow> policy_obeyed history \<Longrightarrow>
   loop_sends cfg request (length ks) st (w_log w) r (w_log w')"
proof (induction ks arbitrary: st w url prev history)
  case Nil
  then show ?case by (auto simp: loop_sends_def raise_def)
next
  case (Cons k ks)
  obtain r1 w1 where round: "hx_round cfg ops request el k st w = (r1, w1)" by fastforce
  from hx_round_steps [OF round] consider (fails) e where "r1 = Inl e" "w1 = w"
    | (sent) s n ans where "hx_prepare request k st = Inr (s, n)"
      "w_log w1 = HxSend s ans # w_log w \<or> (\<exists>url prev v. w_log w1 = HxValidate url prev v # HxSend s ans # w_log w)"
      "\<And>resp. r1 = Inr (HxReturn resp) \<Longrightarrow> length (resp_content resp) \<le> hx_maximum_response_bytes cfg \<and>
         resp_accounting resp = Some (hx_accounting (hs_physical st + 1) (hs_transmitted st + n) (length (resp_content resp)))"
      "\<And>st'. r1 = Inr (HxFollow st') \<Longrightarrow>
        (\<exists>url prev. w_log w1 = HxValidate url prev (Inr (hs_current st', hs_addresses st')) # HxSend s ans # w_log w) \<and>
        (url_origin (hs_current st) = url_origin (hs_current st') \<or> clean_state st') \<and>
        (clean_state st \<longrightarrow> clean_state st') \<and> hs_physical st' = hs_physical st + 1 \<and> hs_transmitted st' = hs_transmitted st + n"
    by blast
  then show ?case
  proof cases
    case fails
    with Cons(2-) round show ?thesis by (auto simp: loop_sends_def bindA_def)
  next
    case sent
    note prep = hx_prepare_Inr [OF sent(1)]
    have obeyed: "policy_obeyed (HxSend s ans # w_log w)" using prep(1,4) Cons(3,4) by auto
    have one: "loop_sends cfg request (length (k # ks)) st (w_log w) r (w_log w1)"
      if "\<forall>resp. r = Inr resp \<longrightarrow> r1 = Inr (HxReturn resp)"
      unfolding loop_sends_def using sent(2,3) that obeyed prep
      by (intro exI [of _ "[s]"]) auto
    show ?thesis
    proof (cases r1)
      case (Inl e)
      with Cons(2) round one show ?thesis by (auto simp: bindA_def)
    next
      case (Inr nx)
      show ?thesis
      proof (cases nx)
        case (HxReturn resp)
        with Cons(2) round one Inr show ?thesis by (auto simp: bindA_def ret_def)
      next
        case (HxFollow st')
        with Inr sent(4) [of st'] obtain url' prev' where
          log: "w_log w1 = HxValidate url' prev' (Inr (hs_current st', hs_addresses st')) # HxSend s ans # w_log w"
          and st': "url_origin (hs_current st) = url_origin (hs_current st') \<or> clean_state st'"
            "clean_state st \<longrightarrow> clean_state st'" "hs_physical st' = hs_physical st + 1" "hs_transmitted st' = hs_transmitted st + n"
          by auto
        from Cons(2) round Inr HxFollow have "hx_loop cfg ops request el ks st' w1 = (r, w')" by (simp add: bindA_def)
        from Cons(1) [OF this log obeyed] obtain rest where rest:
          "hx_sends (w_log w') = hx_sends (w_log w1) @ rest" "length rest \<le> length ks" "credential_safe rest"
          "clean_state st' \<longrightarrow> list_all clean_send rest" "rest \<noteq> [] \<longrightarrow> ph_url (hd rest) = hs_current st'"
          "policy_obeyed (w_log w')"
          "\<forall>resp. r = Inr resp \<longrightarrow> length (resp_content resp) \<le> hx_maximum_response_bytes cfg \<and>
            resp_accounting resp = Some (hx_accounting (hs_physical st' + length rest)
              (hs_transmitted st' + sum_list (map (send_size request) rest)) (length (resp_content resp)))"
          unfolding loop_sends_def by blast
        have "credential_safe (s # rest)"
          using rest(3-5) st'(1) prep(1) by (cases rest) auto
        with rest st' prep log show ?thesis
          unfolding loop_sends_def by (intro exI [of _ "s # rest"]) (auto simp: add.assoc)
      qed
    qed
  qed
qed

subsection \<open>Properties\<close>

text \<open>
  C19. Redirects are bounded, validated and leak nothing.  Whatever the policy and the servers answer, a
  request sends at most \<^verbatim>\<open>maximum_redirects + 1\<close> physical requests; each is sent right after
  the policy accepted its URL, to the first address the policy returned; from the first redirect to
  another origin on, no authorization, proxy authorization or cookie header and no body is sent.  The
  body of a returned response is within the limit, and its accounting is the number and the total
  size of the requests sent.
\<close>

theorem httpx_redirects:
  assumes "hx_request cfg ops elapsed request \<lparr>w_env = env, w_log = []\<rparr> = (result, w)"
  shows "length (hx_sends (w_log w)) \<le> hx_maximum_redirects cfg + 1 \<and> policy_obeyed (w_log w) \<and>
    credential_safe (hx_sends (w_log w)) \<and>
    (\<forall>response. result = Inr response \<longrightarrow> length (resp_content response) \<le> hx_maximum_response_bytes cfg \<and>
      resp_accounting response = Some (hx_accounting (length (hx_sends (w_log w)))
        (sum_list (map (send_size request) (hx_sends (w_log w)))) (length (resp_content response))))"
proof (cases "req_browser request = BrowserRequired")
  case True
  with assms show ?thesis by (auto simp: hx_request_def raise_def)
next
  case False
  obtain v env' where v: "hx_validate ops (req_url request) None env = (v, env')" by fastforce
  show ?thesis
  proof (cases v)
    case (Inl e)
    with assms False v show ?thesis by (auto simp: hx_request_def bindA_def call_def)
  next
    case (Inr x)
    obtain current addresses where x: "x = (current, addresses)" by fastforce
    let ?w = "\<lparr>w_env = env', w_log = [HxValidate (req_url request) None v]\<rparr>"
    from assms False v Inr x have
      "hx_loop cfg ops request elapsed [0..<hx_maximum_redirects cfg + 1] (hx_start request current addresses) ?w = (result, w)"
      by (simp add: hx_request_def bindA_def call_def)
    from hx_loop_sends [OF this, of "req_url request" None "[]"] Inr x show ?thesis
      by (auto simp: loop_sends_def hx_start_def)
  qed
qed

text \<open>A policy that resolves everything to one address and a server that redirects once to another origin.\<close>

definition redirecting_ops :: "unit hx_ops" where
  "redirecting_ops = \<lparr>
     hx_validate = (\<lambda>url _. ret (url, [''1.1.1.1''])),
     hx_stream = (\<lambda>s. ret (Inr (if ph_url s = ''http://a/b''
       then \<lparr>rr_status = 302, rr_is_redirect = True, rr_location = Some ''http://c/d'', rr_headers = [], rr_chunks = [], rr_read_error = None\<rparr>
       else \<lparr>rr_status = 200, rr_is_redirect = False, rr_location = None, rr_headers = [], rr_chunks = [''ok''], rr_read_error = None\<rparr>))),
     hx_url_params = (\<lambda>url _. url)\<rparr>"

theorem httpx_redirects_witness:
  "case hx_request \<lparr>hx_maximum_redirects = 3, hx_maximum_response_bytes = 10\<rparr> redirecting_ops 0
      ((sample_get ''http://a/b'')\<lparr>req_headers := [(''Cookie'', ''x'')]\<rparr>) \<lparr>w_env = (), w_log = []\<rparr> of
     (r, w) \<Rightarrow> length (hx_sends (w_log w)) = 2 \<and> credential_safe (hx_sends (w_log w))"
proof -
  let ?run = "hx_request \<lparr>hx_maximum_redirects = 3, hx_maximum_response_bytes = 10\<rparr> redirecting_ops 0
      ((sample_get ''http://a/b'')\<lparr>req_headers := [(''Cookie'', ''x'')]\<rparr>) \<lparr>w_env = (), w_log = []\<rparr>"
  have "length (hx_sends (w_log (snd ?run))) = 2" by code_simp
  with httpx_redirects [OF surjective_pairing [of ?run]] show ?thesis by (auto split: prod.splits)
qed

end
