(* ===== verification/Client_Pool.thy ===== *)
theory Client_Pool
  imports Url_Policy
begin

section \<open>The HTTP clients of a transport\<close>

text \<open>
  \<^verbatim>\<open>HttpxTransport._client_for\<close> and \<^verbatim>\<open>aclose\<close>: a bounded pool of clients, one per origin and address.
  The sections under the condition lock do not suspend, so each is one step; a client is identified by
  the number of its creation, which also identifies its entry.
\<close>

datatype client_key = ClientKey string string

record client_entry =
  ce_client :: nat
  ce_active :: int
  ce_ready :: bool

record client_pool =
  cp_maximum :: nat
  cp_clients :: "(client_key, client_entry) odict"
  cp_external :: int
  cp_closed :: bool
  cp_created :: nat

definition client_pool_init :: "int \<Rightarrow> exn + client_pool" where
  "client_pool_init maximum =
     (if maximum < 1 then Inl (ValueError ''maximum_clients must be a positive integer'')
      else Inr \<lparr>cp_maximum = nat maximum, cp_clients = [], cp_external = 0, cp_closed = False, cp_created = 0\<rparr>)"

definition client_closed_error :: exn where
  "client_closed_error = RuntimeErr ''HTTP transport is closed''"

text \<open>An injected client is only counted.\<close>

definition cp_enter_external :: "client_pool \<Rightarrow> (exn + unit) \<times> client_pool" where
  "cp_enter_external p =
     (if cp_closed p then (Inl client_closed_error, p) else (Inr (), p\<lparr>cp_external := cp_external p + 1\<rparr>))"

definition cp_exit_external :: "client_pool \<Rightarrow> client_pool" where
  "cp_exit_external p = p\<lparr>cp_external := cp_external p - 1\<rparr>"

text \<open>One round of the loop: wait, use an entry, or create one, evicting an idle client if the pool is full.\<close>

datatype client_enter = EnterWait | EnterUse nat | EnterEvict nat nat

definition cp_enter :: "client_key \<Rightarrow> client_pool \<Rightarrow> (exn + client_enter) \<times> client_pool" where
  "cp_enter key p =
     (if cp_closed p then (Inl client_closed_error, p)
      else (case map_of (cp_clients p) key of
          Some entry \<Rightarrow>
            if \<not> ce_ready entry then (Inr EnterWait, p)
            else (Inr (EnterUse (ce_client entry)),
                  p\<lparr>cp_clients := od_set key (entry\<lparr>ce_active := ce_active entry + 1\<rparr>) (od_move_to_end key (cp_clients p))\<rparr>)
        | None \<Rightarrow>
            (let fresh = cp_created p;
                 add = (\<lambda>ready clients. p\<lparr>cp_clients := od_set key \<lparr>ce_client = fresh, ce_active = 1, ce_ready = ready\<rparr> clients,
                   cp_created := fresh + 1\<rparr>) in
             if length (cp_clients p) < cp_maximum p then (Inr (EnterUse fresh), add True (cp_clients p))
             else (case find (\<lambda>(k, e). ce_active e = 0) (cp_clients p) of
                 None \<Rightarrow> (Inr EnterWait, p)
               | Some (idle_key, idle) \<Rightarrow>
                   (Inr (EnterEvict fresh (ce_client idle)), add False (od_pop idle_key (cp_clients p)))))))"

definition cp_evict_failed :: "client_key \<Rightarrow> nat \<Rightarrow> client_pool \<Rightarrow> client_pool" where
  "cp_evict_failed key client p =
     (if map_option ce_client (map_of (cp_clients p) key) = Some client
      then p\<lparr>cp_clients := od_pop key (cp_clients p)\<rparr> else p)"

definition cp_evict_done :: "client_key \<Rightarrow> nat \<Rightarrow> client_pool \<Rightarrow> client_pool" where
  "cp_evict_done key client p =
     (case map_of (cp_clients p) key of None \<Rightarrow> p
      | Some entry \<Rightarrow> if ce_client entry = client
          then p\<lparr>cp_clients := od_set key (entry\<lparr>ce_ready := True\<rparr>) (cp_clients p)\<rparr> else p)"

definition cp_exit :: "client_key \<Rightarrow> nat \<Rightarrow> client_pool \<Rightarrow> client_pool" where
  "cp_exit key client p =
     (case map_of (cp_clients p) key of None \<Rightarrow> p
      | Some entry \<Rightarrow> if ce_client entry = client
          then p\<lparr>cp_clients := od_set key (entry\<lparr>ce_active := ce_active entry - 1\<rparr>) (cp_clients p)\<rparr> else p)"

text \<open>\<^verbatim>\<open>aclose\<close>: mark, and when nothing is active take all clients to close them.\<close>

definition cp_close_begin :: "client_pool \<Rightarrow> client_pool" where
  "cp_close_begin p = p\<lparr>cp_closed := True\<rparr>"

definition cp_close_take :: "client_pool \<Rightarrow> (nat list \<times> client_pool) option" where
  "cp_close_take p =
     (if cp_external p = 0 \<and> list_all (\<lambda>(k, e). ce_active e = 0) (cp_clients p)
      then Some (map (ce_client \<circ> snd) (cp_clients p), p\<lparr>cp_clients := []\<rparr>) else None)"

subsection \<open>Tasks\<close>

text \<open>A task inside the context manager: its key and client, and whether it still closes the evicted client.\<close>

datatype client_task = ClientTask client_key nat bool

inductive client_step ::
  "client_pool \<times> (nat \<rightharpoonup> client_task) \<Rightarrow> client_pool \<times> (nat \<rightharpoonup> client_task) \<Rightarrow> bool" where
  enter_use: "T t = None \<Longrightarrow> cp_enter key p = (Inr (EnterUse c), p') \<Longrightarrow>
    client_step (p, T) (p', T(t \<mapsto> ClientTask key c False))"
| enter_evict: "T t = None \<Longrightarrow> cp_enter key p = (Inr (EnterEvict c old), p') \<Longrightarrow>
    client_step (p, T) (p', T(t \<mapsto> ClientTask key c True))"
| evict_done: "T t = Some (ClientTask key c True) \<Longrightarrow>
    client_step (p, T) (cp_evict_done key c p, T(t \<mapsto> ClientTask key c False))"
| evict_failed: "T t = Some (ClientTask key c True) \<Longrightarrow>
    client_step (p, T) (cp_exit key c (cp_evict_failed key c p), T(t := None))"
| exit: "T t = Some (ClientTask key c False) \<Longrightarrow> client_step (p, T) (cp_exit key c p, T(t := None))"
| close_begin: "client_step (p, T) (cp_close_begin p, T)"
| close_take: "cp_close_take p = Some (cs, p') \<Longrightarrow> client_step (p, T) (p', T)"

definition key_tasks :: "client_key \<Rightarrow> (nat \<rightharpoonup> client_task) \<Rightarrow> nat set" where
  "key_tasks key T = {t. \<exists>c b. T t = Some (ClientTask key c b)}"

text \<open>
  Every entry counts the tasks of its key; these tasks use its client, and while the entry is not
  ready it has just the task that closes the evicted client.
\<close>

definition entry_ok :: "(nat \<rightharpoonup> client_task) \<Rightarrow> client_key \<Rightarrow> client_entry \<Rightarrow> bool" where
  "entry_ok T key e \<longleftrightarrow> ce_active e = int (card (key_tasks key T)) \<and> (\<not> ce_ready e \<longrightarrow> ce_active e = 1) \<and>
     (\<forall>t c b. T t = Some (ClientTask key c b) \<longrightarrow> c = ce_client e \<and> b = (\<not> ce_ready e))"

definition entries_ok :: "(client_key \<rightharpoonup> client_entry) \<Rightarrow> (nat \<rightharpoonup> client_task) \<Rightarrow> bool" where
  "entries_ok m T \<longleftrightarrow> finite (dom T) \<and> (\<forall>key e. m key = Some e \<longrightarrow> entry_ok T key e) \<and>
     (\<forall>t key c b. T t = Some (ClientTask key c b) \<longrightarrow> m key \<noteq> None)"

definition pool_ok :: "client_pool \<times> (nat \<rightharpoonup> client_task) \<Rightarrow> bool" where
  "pool_ok s \<longleftrightarrow> od_wf (cp_clients (fst s)) \<and> 0 < cp_maximum (fst s) \<and>
     length (cp_clients (fst s)) \<le> cp_maximum (fst s) \<and> entries_ok (map_of (cp_clients (fst s))) (snd s)"

lemma key_tasks_set [simp]:
  "key_tasks key (T(t \<mapsto> ClientTask k c b)) = (if key = k then insert t (key_tasks key T) else key_tasks key T - {t})"
  by (auto simp: key_tasks_def)

lemma key_tasks_del [simp]: "key_tasks key (T(t := None)) = key_tasks key T - {t}"
  by (auto simp: key_tasks_def)

lemma key_tasks_mem: "T t = Some (ClientTask k c b) \<Longrightarrow> t \<in> key_tasks key T \<longleftrightarrow> key = k"
  by (auto simp: key_tasks_def)

lemma key_tasks_fresh [simp]: "T t = None \<Longrightarrow> t \<notin> key_tasks key T"
  by (simp add: key_tasks_def)

lemma key_tasks_finite [simp]: "finite (dom T) \<Longrightarrow> finite (key_tasks key T)"
  by (rule finite_subset [of _ "dom T"]) (auto simp: key_tasks_def)

lemma entries_okD:
  assumes "entries_ok m T"
  shows "finite (dom T)" "m key = Some e \<Longrightarrow> entry_ok T key e" "T t = Some (ClientTask key c b) \<Longrightarrow> \<exists>e. m key = Some e"
  using assms unfolding entries_ok_def by blast+

lemma entry_okD:
  assumes "entry_ok T key e"
  shows "ce_active e = int (card (key_tasks key T))" "\<not> ce_ready e \<Longrightarrow> ce_active e = 1"
    "T t = Some (ClientTask key c b) \<Longrightarrow> c = ce_client e \<and> b = (\<not> ce_ready e)"
  using assms unfolding entry_ok_def by blast+

text \<open>An entry of another key is not affected by a task of this one.\<close>

lemma entry_ok_other:
  assumes "entry_ok T key e" "key \<noteq> k" "T t = None \<or> (\<exists>c b. T t = Some (ClientTask k c b))"
  shows "entry_ok (T(t \<mapsto> ClientTask k c b)) key e" "entry_ok (T(t := None)) key e"
proof -
  have "key_tasks key T - {t} = key_tasks key T" using assms(2,3) by (auto simp: key_tasks_def)
  with assms(1,2) show "entry_ok (T(t \<mapsto> ClientTask k c b)) key e" "entry_ok (T(t := None)) key e"
    by (auto simp: entry_ok_def)
qed

lemma idle_no_tasks:
  assumes "entry_ok T key e" "finite (dom T)" "ce_active e = 0"
  shows "T t \<noteq> Some (ClientTask key c b)"
proof
  assume "T t = Some (ClientTask key c b)"
  then have "t \<in> key_tasks key T" by (auto simp: key_tasks_def)
  with assms(2) have "card (key_tasks key T) \<noteq> 0" by auto
  with entry_okD(1) [OF assms(1)] assms(3) show False by simp
qed

text \<open>The five changes of the map of entries.\<close>

lemma add_entry:
  assumes "entries_ok m T" "m key = None" "T t = None"
  shows "entries_ok (m(key \<mapsto> \<lparr>ce_client = c, ce_active = 1, ce_ready = r\<rparr>)) (T(t \<mapsto> ClientTask key c (\<not> r)))"
proof -
  have no: "T t' \<noteq> Some (ClientTask key c' b')" for t' c' b'
    using entries_okD(3) [OF assms(1)] assms(2) by force
  then have "key_tasks key T = {}" by (auto simp: key_tasks_def)
  with no have "entry_ok (T(t \<mapsto> ClientTask key c (\<not> r))) key \<lparr>ce_client = c, ce_active = 1, ce_ready = r\<rparr>"
    by (auto simp: entry_ok_def)
  moreover have "entry_ok (T(t \<mapsto> ClientTask key c (\<not> r))) k e" if "m k = Some e" "k \<noteq> key" for k e
    using entry_ok_other(1) [OF entries_okD(2) [OF assms(1) that(1)] that(2)] assms(3) by simp
  ultimately show ?thesis
    using assms(1) unfolding entries_ok_def by (auto split: if_splits)
qed

lemma join_entry:
  assumes "entries_ok m T" "m key = Some e" "ce_ready e" "T t = None"
  shows "entries_ok (m(key \<mapsto> e\<lparr>ce_active := ce_active e + 1\<rparr>)) (T(t \<mapsto> ClientTask key (ce_client e) False))"
proof -
  note e = entries_okD(2) [OF assms(1,2)]
  have "entry_ok (T(t \<mapsto> ClientTask key (ce_client e) False)) key (e\<lparr>ce_active := ce_active e + 1\<rparr>)"
    using entry_okD [OF e] assms(3,4) entries_okD(1) [OF assms(1)] by (auto simp: entry_ok_def)
  moreover have "entry_ok (T(t \<mapsto> ClientTask key (ce_client e) False)) k e'" if "m k = Some e'" "k \<noteq> key" for k e'
    using entry_ok_other(1) [OF entries_okD(2) [OF assms(1) that(1)] that(2)] assms(4) by simp
  ultimately show ?thesis
    using assms(1) unfolding entries_ok_def by (auto split: if_splits)
qed

lemma pop_idle_entry:
  assumes "entries_ok m T" "m key = Some e" "ce_active e = 0"
  shows "entries_ok (m(key := None)) T"
  using assms(1) idle_no_tasks [OF entries_okD(2) [OF assms(1,2)] entries_okD(1) [OF assms(1)] assms(3)]
  unfolding entries_ok_def by auto

lemma ready_entry:
  assumes "entries_ok m T" "m key = Some e" "T t = Some (ClientTask key c True)"
  shows "entries_ok (m(key \<mapsto> e\<lparr>ce_ready := True\<rparr>)) (T(t \<mapsto> ClientTask key c False))"
proof -
  note e = entries_okD(2) [OF assms(1,2)]
  have t: "t \<in> key_tasks key T" using assms(3) by (auto simp: key_tasks_def)
  have c: "c = ce_client e" "\<not> ce_ready e" using entry_okD(3) [OF e assms(3)] by auto
  then have "card (key_tasks key T) = 1" using entry_okD(1,2) [OF e] by simp
  with t have only: "key_tasks key T = {t}" by (auto simp: card_1_singleton_iff)
  then have "t' = t" if "T t' = Some (ClientTask key c' b)" for t' c' b using that by (auto simp: key_tasks_def)
  then have "entry_ok (T(t \<mapsto> ClientTask key c False)) key (e\<lparr>ce_ready := True\<rparr>)"
    using entry_okD(1) [OF e] c t only by (auto simp: entry_ok_def insert_absorb)
  moreover have "entry_ok (T(t \<mapsto> ClientTask key c False)) k e'" if "m k = Some e'" "k \<noteq> key" for k e'
    using entry_ok_other(1) [OF entries_okD(2) [OF assms(1) that(1)] that(2)] assms(3) by blast
  ultimately show ?thesis
    using assms(1) unfolding entries_ok_def by (auto split: if_splits)
qed

lemma leave_entry:
  assumes "entries_ok m T" "m key = Some e" "T t = Some (ClientTask key c b)"
  shows "ce_ready e \<Longrightarrow> entries_ok (m(key \<mapsto> e\<lparr>ce_active := ce_active e - 1\<rparr>)) (T(t := None))"
    and "\<not> ce_ready e \<Longrightarrow> entries_ok (m(key := None)) (T(t := None))"
proof -
  note e = entries_okD(2) [OF assms(1,2)]
  have t: "t \<in> key_tasks key T" using assms(3) by (auto simp: key_tasks_def)
  have count: "card (key_tasks key T - {t}) = card (key_tasks key T) - 1" "0 < card (key_tasks key T)"
    using t entries_okD(1) [OF assms(1)] by (auto simp: card_gt_0_iff)
  have other: "entry_ok (T(t := None)) k e'" if "m k = Some e'" "k \<noteq> key" for k e'
    using entry_ok_other(2) [OF entries_okD(2) [OF assms(1) that(1)] that(2)] assms(3) by blast
  show "entries_ok (m(key \<mapsto> e\<lparr>ce_active := ce_active e - 1\<rparr>)) (T(t := None))" if "ce_ready e"
  proof -
    have "entry_ok (T(t := None)) key (e\<lparr>ce_active := ce_active e - 1\<rparr>)"
      using entry_okD [OF e] count that by (auto simp: entry_ok_def)
    with other assms(1) show ?thesis unfolding entries_ok_def by (auto split: if_splits)
  qed
  show "entries_ok (m(key := None)) (T(t := None))" if "\<not> ce_ready e"
  proof -
    have "card (key_tasks key T) = 1" using entry_okD(1,2) [OF e] that by simp
    with t have "key_tasks key T = {t}" by (auto simp: card_1_singleton_iff)
    then have "t' = t" if "T t' = Some (ClientTask key c' b)" for t' c' b using that by (auto simp: key_tasks_def)
    with other assms(1) show ?thesis unfolding entries_ok_def by (auto split: if_splits)
  qed
qed

lemma pool_okI:
  "od_wf (cp_clients p) \<Longrightarrow> 0 < cp_maximum p \<Longrightarrow> length (cp_clients p) \<le> cp_maximum p \<Longrightarrow>
   entries_ok (map_of (cp_clients p)) T \<Longrightarrow> pool_ok (p, T)"
  by (simp add: pool_ok_def)

lemma pool_okD:
  assumes "pool_ok (p, T)"
  shows "od_wf (cp_clients p)" "0 < cp_maximum p" "length (cp_clients p) \<le> cp_maximum p" "entries_ok (map_of (cp_clients p)) T"
  using assms by (simp_all add: pool_ok_def)

lemma enter_use_ok:
  assumes "pool_ok (p, T)" "T t = None" "cp_enter key p = (Inr (EnterUse c), p')"
  shows "pool_ok (p', T(t \<mapsto> ClientTask key c False))"
proof (cases "map_of (cp_clients p) key")
  case (Some e)
  note ok = pool_okD [OF assms(1)]
  from assms(3) Some have p': "ce_ready e" "c = ce_client e"
    "p' = p\<lparr>cp_clients := od_set key (e\<lparr>ce_active := ce_active e + 1\<rparr>) (od_move_to_end key (cp_clients p))\<rparr>"
    by (auto simp: cp_enter_def split: if_splits)
  have "key \<in> fst ` set (od_move_to_end key (cp_clients p))"
    by (simp add: od_keys_iff od_get_move_to_end Some)
  with ok p' join_entry [OF ok(4) Some p'(1) assms(2)] show ?thesis
    by (intro pool_okI) (simp_all add: od_simps od_length_set od_length_move_to_end)
next
  case None
  note ok = pool_okD [OF assms(1)]
  from assms(3) None have p': "c = cp_created p" "length (cp_clients p) < cp_maximum p"
    "p' = p\<lparr>cp_clients := od_set key \<lparr>ce_client = c, ce_active = 1, ce_ready = True\<rparr> (cp_clients p), cp_created := c + 1\<rparr>"
    by (auto simp: cp_enter_def Let_def split: if_splits option.splits prod.splits)
  from order_trans [OF od_length_set_le Suc_leI [OF p'(2)]] add_entry [OF ok(4) None assms(2), of c True] ok p'(3) show ?thesis
    by (intro pool_okI) (simp_all add: od_simps)
qed

lemma enter_evict_ok:
  assumes "pool_ok (p, T)" "T t = None" "cp_enter key p = (Inr (EnterEvict c old), p')"
  shows "pool_ok (p', T(t \<mapsto> ClientTask key c True))"
proof -
  note ok = pool_okD [OF assms(1)]
  from assms(3) obtain k e where find: "find (\<lambda>(k, e). ce_active e = 0) (cp_clients p) = Some (k, e)"
    and none: "map_of (cp_clients p) key = None" and c: "c = cp_created p"
    and p': "p' = p\<lparr>cp_clients := od_set key \<lparr>ce_client = c, ce_active = 1, ce_ready = False\<rparr> (od_pop k (cp_clients p)), cp_created := c + 1\<rparr>"
    by (auto simp: cp_enter_def Let_def split: if_splits option.splits prod.splits)
  then have e: "(k, e) \<in> set (cp_clients p)" "ce_active e = 0" by (force simp: find_Some_iff in_set_conv_nth)+
  then have m: "map_of (cp_clients p) k = Some e" using ok(1) by simp
  have fst: "k \<in> fst ` set (cp_clients p)" using e(1) by force
  from pop_idle_entry [OF ok(4) m e(2)] have popped: "entries_ok (map_of (od_pop k (cp_clients p))) T" by (simp add: od_simps)
  have "map_of (od_pop k (cp_clients p)) key = None" using none by (simp add: od_simps)
  from add_entry [OF popped this assms(2), of c False]
  have "entries_ok (map_of (cp_clients p')) (T(t \<mapsto> ClientTask key c True))" by (simp add: p' od_get_set)
  with ok p' od_length_pop [OF ok(1) fst]
    od_length_set_le [of key "\<lparr>ce_client = c, ce_active = 1, ce_ready = False\<rparr>" "od_pop k (cp_clients p)"]
  show "pool_ok (p', T(t \<mapsto> ClientTask key c True))" by (intro pool_okI) simp_all
qed

lemma client_step_ok: "client_step s s' \<Longrightarrow> pool_ok s \<Longrightarrow> pool_ok s'"
proof (induction rule: client_step.induct)
  case (enter_use T t key p c p')
  then show ?case by (intro enter_use_ok)
next
  case (enter_evict T t key p c old p')
  then show ?case by (intro enter_evict_ok)
next
  case (evict_done T t key c p)
  note ok = pool_okD [OF evict_done(2)]
  obtain e where e: "map_of (cp_clients p) key = Some e" using entries_okD(3) [OF ok(4) evict_done(1)] by blast
  with entry_okD(3) [OF entries_okD(2) [OF ok(4) e] evict_done(1)]
  have p': "cp_evict_done key c p = p\<lparr>cp_clients := od_set key (e\<lparr>ce_ready := True\<rparr>) (cp_clients p)\<rparr>"
    by (simp add: cp_evict_done_def)
  have "key \<in> fst ` set (cp_clients p)" by (simp add: od_keys_iff e)
  with ok p' ready_entry [OF ok(4) e evict_done(1)] show ?case
    by (intro pool_okI) (simp_all add: od_simps od_length_set)
next
  case (evict_failed T t key c p)
  note ok = pool_okD [OF evict_failed(2)]
  obtain e where e: "map_of (cp_clients p) key = Some e" using entries_okD(3) [OF ok(4) evict_failed(1)] by blast
  with entry_okD(3) [OF entries_okD(2) [OF ok(4) e] evict_failed(1)]
  have p': "cp_exit key c (cp_evict_failed key c p) = p\<lparr>cp_clients := od_pop key (cp_clients p)\<rparr>" "\<not> ce_ready e"
    by (simp_all add: cp_evict_failed_def cp_exit_def od_simps)
  with ok leave_entry(2) [OF ok(4) e evict_failed(1)] od_length_pop_le [of key "cp_clients p"] show ?case
    by (intro pool_okI) (simp_all add: od_simps)
next
  case (exit T t key c p)
  note ok = pool_okD [OF exit(2)]
  obtain e where e: "map_of (cp_clients p) key = Some e" using entries_okD(3) [OF ok(4) exit(1)] by blast
  with entry_okD(3) [OF entries_okD(2) [OF ok(4) e] exit(1)]
  have p': "cp_exit key c p = p\<lparr>cp_clients := od_set key (e\<lparr>ce_active := ce_active e - 1\<rparr>) (cp_clients p)\<rparr>" "ce_ready e"
    by (simp_all add: cp_exit_def)
  have "key \<in> fst ` set (cp_clients p)" by (simp add: od_keys_iff e)
  with ok p' leave_entry(1) [OF ok(4) e exit(1)] show ?case
    by (intro pool_okI) (simp_all add: od_simps od_length_set)
next
  case (close_begin p T)
  then show ?case by (simp add: pool_ok_def cp_close_begin_def)
next
  case (close_take p cs p' T)
  note ok = pool_okD [OF close_take(2)]
  from close_take(1) have idle: "list_all (\<lambda>(k, e). ce_active e = 0) (cp_clients p)" "p' = p\<lparr>cp_clients := []\<rparr>"
    by (auto simp: cp_close_take_def split: if_splits)
  have "T t \<noteq> Some (ClientTask key c b)" for t key c b
  proof
    assume t: "T t = Some (ClientTask key c b)"
    then obtain e where e: "map_of (cp_clients p) key = Some e" using entries_okD(3) [OF ok(4)] by blast
    with idle(1) have "ce_active e = 0" by (auto simp: list_all_iff dest!: map_of_SomeD)
    with idle_no_tasks [OF entries_okD(2) [OF ok(4) e] entries_okD(1) [OF ok(4)]] t show False by blast
  qed
  with ok idle(2) show ?case by (auto simp: pool_ok_def entries_ok_def)
qed

lemma client_run_ok: "client_step\<^sup>*\<^sup>* s s' \<Longrightarrow> pool_ok s \<Longrightarrow> pool_ok s'"
  by (induction rule: rtranclp_induct) (auto intro: client_step_ok)

lemma client_init_ok: "client_pool_init n = Inr p \<Longrightarrow> pool_ok (p, Map.empty)"
  by (auto simp: client_pool_init_def pool_ok_def entries_ok_def split: if_splits)

subsection \<open>Properties\<close>

text \<open>
  C20. Clients are bounded and never closed under a request.  In every state that concurrent requests,
  evictions, failures and closes can reach, the pool holds at most the configured number of clients;
  every request in progress uses the client listed under its origin and address, whose counter is the
  number of requests of that key; and closing takes the clients only when no request is in progress.
\<close>

theorem http_clients_in_use:
  assumes "client_pool_init n = Inr p0" and "client_step\<^sup>*\<^sup>* (p0, Map.empty) (p, T)"
  shows "length (cp_clients p) \<le> cp_maximum p \<and>
    (\<forall>t key c b. T t = Some (ClientTask key c b) \<longrightarrow>
       (\<exists>e. map_of (cp_clients p) key = Some e \<and> ce_client e = c \<and> ce_active e = int (card (key_tasks key T)) \<and> 1 \<le> ce_active e) \<and>
       cp_close_take p = None)"
proof -
  note ok = pool_okD [OF client_run_ok [OF assms(2) client_init_ok [OF assms(1)]]]
  have "(\<exists>e. map_of (cp_clients p) key = Some e \<and> ce_client e = c \<and> ce_active e = int (card (key_tasks key T)) \<and> 1 \<le> ce_active e) \<and>
      cp_close_take p = None" if t: "T t = Some (ClientTask key c b)" for t key c b
  proof -
    obtain e where e: "map_of (cp_clients p) key = Some e" using entries_okD(3) [OF ok(4) t] by blast
    note eok = entries_okD(2) [OF ok(4) e]
    have "t \<in> key_tasks key T" using t by (auto simp: key_tasks_def)
    then have pos: "0 < card (key_tasks key T)" using entries_okD(1) [OF ok(4)] by (auto simp: card_gt_0_iff)
    moreover have "cp_close_take p = None"
      using map_of_SomeD [OF e] pos entry_okD(1) [OF eok] by (force simp: cp_close_take_def list_all_iff)
    ultimately show ?thesis using e entry_okD(1,3) [OF eok] t by auto
  qed
  with ok(3) show ?thesis by blast
qed

theorem http_clients_in_use_witness:
  "\<exists>p0 p T. client_pool_init 1 = Inr p0 \<and> client_step\<^sup>*\<^sup>* (p0, Map.empty) (p, T) \<and>
     T 0 = Some (ClientTask (ClientKey ''o'' ''a'') 0 False) \<and> cp_close_take p = None"
proof -
  obtain p0 where p0: "client_pool_init 1 = Inr p0" by (auto simp: client_pool_init_def)
  then obtain p where "cp_enter (ClientKey ''o'' ''a'') p0 = (Inr (EnterUse 0), p)"
    by (auto simp: client_pool_init_def cp_enter_def Let_def)
  then have "client_step (p0, Map.empty) (p, Map.empty(0 \<mapsto> ClientTask (ClientKey ''o'' ''a'') 0 False))"
    by (intro client_step.enter_use) simp
  then have run: "client_step\<^sup>*\<^sup>* (p0, Map.empty) (p, Map.empty(0 \<mapsto> ClientTask (ClientKey ''o'' ''a'') 0 False))" by blast
  have "cp_close_take p = None"
    using http_clients_in_use [OF p0 run] by (metis fun_upd_same)
  with p0 run show ?thesis by force
qed

end
