(* ===== verification/Robots.thy ===== *)
theory Robots
  imports Effects Request_Size
begin

section \<open>The robots checker\<close>

text \<open>
  \<^verbatim>\<open>transports/robots.py\<close>: one cached robots policy per origin, with \<^verbatim>\<open>urllib.robotparser\<close> of CPython 3.11 as
  far as \<^verbatim>\<open>parse\<close> and \<^verbatim>\<open>can_fetch\<close> go.  The transport is a parameter.  The lock is never held across a
  suspension, so each of the three sections of \<^verbatim>\<open>_rules_for\<close> is one step.
\<close>

subsection \<open>Parsing robots.txt\<close>

definition is_line_break :: "char \<Rightarrow> bool" where
  "is_line_break c \<longleftrightarrow> code_of c \<in> {10, 11, 12, 13, 28, 29, 30}"

fun split_lines :: "string \<Rightarrow> string \<Rightarrow> string list" where
  "split_lines line [] = (if line = [] then [] else [line])"
| "split_lines line (c # s) =
     (if code_of c = 13
      then line # (case s of d # s' \<Rightarrow> if code_of d = 10 then split_lines [] s' else split_lines [] s | [] \<Rightarrow> [])
      else if is_line_break c then line # split_lines [] s
      else split_lines (line @ [c]) s)"

definition py_splitlines :: "string \<Rightarrow> string list" where
  "py_splitlines s = split_lines [] s"

text \<open>\<^verbatim>\<open>quote\<close> with its default \<^verbatim>\<open>safe="/"\<close>, and \<^verbatim>\<open>urlunparse(urlparse(path))\<close>.\<close>

definition quote_path :: "string \<Rightarrow> string" where
  "quote_path s = concat (map (\<lambda>c. if always_safe c \<or> c = CHR ''/'' then [c] else quote_char c) s)"

definition reparse :: "bool \<Rightarrow> string \<Rightarrow> exn + string" where
  "reparse keep_origin url =
     (case urlsplit url of Inl e \<Rightarrow> Inl e
      | Inr u \<Rightarrow> (case splitparams (us_scheme u) (us_path u) of (path, params) \<Rightarrow>
          Inr (urlunparse (if keep_origin then us_scheme u else []) (if keep_origin then us_netloc u else [])
            path params (us_query u) (us_fragment u))))"

record rule_line =
  ru_path :: string
  ru_allowance :: bool

definition new_rule_line :: "string \<Rightarrow> bool \<Rightarrow> exn + rule_line" where
  "new_rule_line path allowance =
     (case reparse True path of Inl e \<Rightarrow> Inl e
      | Inr p \<Rightarrow> Inr \<lparr>ru_path = quote_path p, ru_allowance = allowance \<or> path = []\<rparr>)"

definition rule_applies :: "rule_line \<Rightarrow> string \<Rightarrow> bool" where
  "rule_applies r filename \<longleftrightarrow> ru_path r = ''*'' \<or> py_startswith filename (ru_path r)"

record robots_entry =
  en_useragents :: "string list"
  en_rulelines :: "rule_line list"

definition entry_applies :: "robots_entry \<Rightarrow> string \<Rightarrow> bool" where
  "entry_applies e useragent \<longleftrightarrow>
     list_ex (\<lambda>agent. agent = ''*'' \<or> py_contains (py_lower agent) (py_lower (hd (py_split (CHR ''/'') useragent))))
       (en_useragents e)"

fun rules_allow :: "rule_line list \<Rightarrow> string \<Rightarrow> bool" where
  "rules_allow [] filename = True"
| "rules_allow (r # rs) filename = (if rule_applies r filename then ru_allowance r else rules_allow rs filename)"

record robots_parser =
  rp_entries :: "robots_entry list"
  rp_default :: "robots_entry option"

definition empty_entry :: robots_entry where
  "empty_entry = \<lparr>en_useragents = [], en_rulelines = []\<rparr>"

definition add_robots_entry :: "robots_entry \<Rightarrow> robots_parser \<Rightarrow> robots_parser" where
  "add_robots_entry e p =
     (if ''*'' \<in> set (en_useragents e)
      then (if rp_default p = None then p\<lparr>rp_default := Some e\<rparr> else p)
      else p\<lparr>rp_entries := rp_entries p @ [e]\<rparr>)"

text \<open>
  The loop of \<^verbatim>\<open>parse\<close>: the state, the entry under construction and the parser.  A blank line ends an
  entry; comments are cut; directives other than these six keep everything as it is.
\<close>

datatype parse_state = PsStart | PsAgent | PsRule

definition parse_directive ::
  "string \<Rightarrow> string \<Rightarrow> parse_state \<times> robots_entry \<times> robots_parser \<Rightarrow> exn + (parse_state \<times> robots_entry \<times> robots_parser)" where
  "parse_directive name value st =
     (case st of (state, entry, p) \<Rightarrow>
        if name = ''user-agent''
        then (if state = PsRule
              then Inr (PsAgent, empty_entry\<lparr>en_useragents := [value]\<rparr>, add_robots_entry entry p)
              else Inr (PsAgent, entry\<lparr>en_useragents := en_useragents entry @ [value]\<rparr>, p))
        else if (name = ''disallow'' \<or> name = ''allow'') \<and> state \<noteq> PsStart
        then (case new_rule_line value (name = ''allow'') of Inl e \<Rightarrow> Inl e
          | Inr r \<Rightarrow> Inr (PsRule, entry\<lparr>en_rulelines := en_rulelines entry @ [r]\<rparr>, p))
        else if (name = ''crawl-delay'' \<or> name = ''request-rate'') \<and> state \<noteq> PsStart then Inr (PsRule, entry, p)
        else Inr (state, entry, p))"

definition parse_blank ::
  "parse_state \<times> robots_entry \<times> robots_parser \<Rightarrow> parse_state \<times> robots_entry \<times> robots_parser" where
  "parse_blank st =
     (case st of (state, entry, p) \<Rightarrow>
        (case state of PsStart \<Rightarrow> (PsStart, entry, p)
         | PsAgent \<Rightarrow> (PsStart, empty_entry, p)
         | PsRule \<Rightarrow> (PsStart, empty_entry, add_robots_entry entry p)))"

fun parse_lines ::
  "string list \<Rightarrow> parse_state \<times> robots_entry \<times> robots_parser \<Rightarrow> exn + (parse_state \<times> robots_entry \<times> robots_parser)" where
  "parse_lines [] st = Inr st"
| "parse_lines (line # lines) st =
     (let st1 = (if line = [] then parse_blank st else st);
          text = py_strip (fst (py_partition (CHR ''#'') line)) in
      if text = [] then parse_lines lines st1
      else (case py_partition (CHR '':'') text of (name, found, value) \<Rightarrow>
        if \<not> found then parse_lines lines st1
        else (case parse_directive (py_lower (py_strip name)) (unquote (py_strip value)) st1 of
            Inl e \<Rightarrow> Inl e | Inr st2 \<Rightarrow> parse_lines lines st2)))"

definition robots_parse :: "string list \<Rightarrow> exn + robots_parser" where
  "robots_parse lines =
     (case parse_lines lines (PsStart, empty_entry, \<lparr>rp_entries = [], rp_default = None\<rparr>) of
        Inl e \<Rightarrow> Inl e
      | Inr (state, entry, p) \<Rightarrow> Inr (if state = PsRule then add_robots_entry entry p else p))"

definition can_fetch :: "robots_parser \<Rightarrow> string \<Rightarrow> string \<Rightarrow> exn + bool" where
  "can_fetch p useragent url =
     (case reparse False (unquote url) of Inl e \<Rightarrow> Inl e
      | Inr u \<Rightarrow>
          (let path = (if quote_path u = [] then ''/'' else quote_path u) in
           case find (\<lambda>e. entry_applies e useragent) (rp_entries p) of
             Some e \<Rightarrow> Inr (rules_allow (en_rulelines e) path)
           | None \<Rightarrow> (case rp_default p of Some e \<Rightarrow> Inr (rules_allow (en_rulelines e) path) | None \<Rightarrow> Inr True)))"

subsection \<open>The checker\<close>

datatype robots_failure_policy = FailureDeny | FailureAllow

record robots_config =
  rb_user_agent :: string
  rb_transport_failure_decision :: bool
  rb_server_failure_decision :: bool
  rb_maximum_origins :: nat

definition robots_init ::
  "string \<Rightarrow> robots_failure_policy \<Rightarrow> robots_failure_policy option \<Rightarrow> robots_failure_policy option \<Rightarrow> int \<Rightarrow> exn + robots_config" where
  "robots_init user_agent failure transport_failure server_failure maximum =
     (if py_strip user_agent = [] then Inl (ValueError ''user_agent must not be blank'')
      else if maximum < 1 then Inl (ValueError ''maximum_origins must be positive'')
      else Inr \<lparr>rb_user_agent = user_agent,
        rb_transport_failure_decision = ((case transport_failure of None \<Rightarrow> failure | Some f \<Rightarrow> f) = FailureAllow),
        rb_server_failure_decision = ((case server_failure of None \<Rightarrow> failure | Some f \<Rightarrow> f) = FailureAllow),
        rb_maximum_origins = nat maximum\<rparr>)"

datatype robots_rules = ForcedDecision bool | ParsedRules robots_parser

fun rules_allowed :: "robots_rules \<Rightarrow> string \<Rightarrow> string \<Rightarrow> exn + bool" where
  "rules_allowed (ForcedDecision d) url user_agent = Inr d"
| "rules_allowed (ParsedRules p) url user_agent = can_fetch p user_agent url"

definition safe_origin :: "string \<Rightarrow> string option" where
  "safe_origin url =
     (case urlsplit url of Inl _ \<Rightarrow> None
      | Inr parsed \<Rightarrow>
          let scheme = py_lower (us_scheme parsed) in
          if scheme \<notin> {''http'', ''https''} then None
          else (case us_hostname parsed of None \<Rightarrow> None
            | Some hostname \<Rightarrow>
                let host = py_lower hostname; host = (if CHR '':'' \<in> set host then ''['' @ host @ '']'' else host) in
                (case us_port parsed of Inl _ \<Rightarrow> None
                 | Inr port \<Rightarrow>
                     Some (urlunsplit scheme
                       (if port = None \<or> port = Some (if scheme = ''http'' then 80 else 443) then host
                        else host @ '':'' @ (case port of None \<Rightarrow> [] | Some p \<Rightarrow> nat_str p)) [] [] []))))"

definition robots_request :: "string \<Rightarrow> transport_request" where
  "robots_request origin =
     \<lparr>req_method = ''GET'', req_url = origin @ ''/robots.txt'', req_query = [], req_headers = [], req_json_body = None,
      req_body = None, req_purpose = PurposeRobots, req_priority = PriorityDiscovery, req_required = True,
      req_estimated_bytes = 0, req_cache = CacheBypass, req_browser = BrowserNever,
      req_evaluation = None, req_trace_request_id = None, req_trace_attempt = None\<rparr>"

text \<open>\<^verbatim>\<open>_fetch_rules\<close>.\<close>

definition rules_of_response :: "robots_config \<Rightarrow> transport_response \<Rightarrow> exn + robots_rules" where
  "rules_of_response cfg response =
     (let status = resp_status response in
      if 200 \<le> status \<and> status < 300
      then (case robots_parse (py_splitlines (resp_content response)) of Inl e \<Rightarrow> Inl e | Inr p \<Rightarrow> Inr (ParsedRules p))
      else if status = 401 \<or> status = 403 then Inr (ForcedDecision False)
      else if 400 \<le> status \<and> status < 500 then Inr (ForcedDecision True)
      else Inr (ForcedDecision (rb_server_failure_decision cfg)))"

definition fetch_rules ::
  "robots_config \<Rightarrow> (transport_request \<Rightarrow> ('e, transport_response) act) \<Rightarrow> string \<Rightarrow> ('e, robots_rules) act" where
  "fetch_rules cfg send origin =
     bindA (tryA (send (robots_request origin))) (\<lambda>r.
       case r of
         Inl (TransportFailure _) \<Rightarrow> ret (ForcedDecision (rb_transport_failure_decision cfg))
       | Inl e \<Rightarrow> raise e
       | Inr response \<Rightarrow> liftA (rules_of_response cfg response))"

text \<open>The sections of \<^verbatim>\<open>_rules_for\<close> under the lock.\<close>

record robots_state =
  rb_rules :: "(string, robots_rules) odict"
  rb_inflight :: "(string, nat) odict"

datatype rules_lookup = CachedRules robots_rules | JoinFetch nat | StartFetch nat

definition rules_begin :: "nat \<Rightarrow> string \<Rightarrow> robots_state \<Rightarrow> rules_lookup \<times> robots_state" where
  "rules_begin fresh origin st =
     (case map_of (rb_rules st) origin of Some rules \<Rightarrow> (CachedRules rules, st)
      | None \<Rightarrow> (case map_of (rb_inflight st) origin of Some t \<Rightarrow> (JoinFetch t, st)
          | None \<Rightarrow> (StartFetch fresh, st\<lparr>rb_inflight := od_set origin fresh (rb_inflight st)\<rparr>)))"

definition rules_finish :: "string \<Rightarrow> robots_state \<Rightarrow> robots_state" where
  "rules_finish origin st = st\<lparr>rb_inflight := od_pop origin (rb_inflight st)\<rparr>"

definition rules_store :: "nat \<Rightarrow> string \<Rightarrow> robots_rules \<Rightarrow> robots_state \<Rightarrow> robots_rules \<times> robots_state" where
  "rules_store maximum origin rules st =
     (case map_of (rb_rules st) origin of Some existing \<Rightarrow> (existing, st)
      | None \<Rightarrow>
          (let kept = (if length (rb_rules st) \<ge> maximum then tl (rb_rules st) else rb_rules st) in
           (rules, st\<lparr>rb_rules := od_set origin rules kept\<rparr>)))"

text \<open>
  \<^verbatim>\<open>allowed\<close> of one caller, with the state of the checker beside the state of the transport; a fetch
  that is already running is answered by \<open>join\<close>.
\<close>

definition rules_for ::
  "robots_config \<Rightarrow> (transport_request \<Rightarrow> ('e, transport_response) act) \<Rightarrow> (nat \<Rightarrow> ('e, robots_rules) act) \<Rightarrow> nat \<Rightarrow>
   string \<Rightarrow> (robots_state \<times> 'e, robots_rules) act" where
  "rules_for cfg send join fresh origin s =
     (case rules_begin fresh origin (fst s) of
        (CachedRules rules, st) \<Rightarrow> (Inr rules, (st, snd s))
      | (look, st) \<Rightarrow>
          (case (case look of JoinFetch t \<Rightarrow> join t (snd s) | _ \<Rightarrow> fetch_rules cfg send origin (snd s)) of
             (Inl e, env) \<Rightarrow> (Inl e, (rules_finish origin st, env))
           | (Inr rules, env) \<Rightarrow>
               (case rules_store (rb_maximum_origins cfg) origin rules (rules_finish origin st) of
                  (kept, st') \<Rightarrow> (Inr kept, (st', env)))))"

definition robots_allowed ::
  "robots_config \<Rightarrow> (transport_request \<Rightarrow> ('e, transport_response) act) \<Rightarrow> (nat \<Rightarrow> ('e, robots_rules) act) \<Rightarrow> nat \<Rightarrow>
   string \<Rightarrow> (robots_state \<times> 'e, bool) act" where
  "robots_allowed cfg send join fresh url s =
     (case safe_origin url of
        None \<Rightarrow> (Inr (rb_transport_failure_decision cfg), s)
      | Some origin \<Rightarrow>
          (case map_of (rb_rules (fst s)) origin of
             Some rules \<Rightarrow> (rules_allowed rules url (rb_user_agent cfg), s)
           | None \<Rightarrow>
               (case rules_for cfg send join fresh origin s of
                  (Inl e, s') \<Rightarrow> (Inl e, s')
                | (Inr rules, s') \<Rightarrow> (rules_allowed rules url (rb_user_agent cfg), s'))))"

subsection \<open>The bounded table of rules\<close>

datatype robots_event = RobotsBegin nat string | RobotsFinish string | RobotsStore string robots_rules

fun robots_step :: "nat \<times> robots_state \<Rightarrow> robots_event \<Rightarrow> nat \<times> robots_state" where
  "robots_step (n, st) (RobotsBegin fresh origin) = (n, snd (rules_begin fresh origin st))"
| "robots_step (n, st) (RobotsFinish origin) = (n, rules_finish origin st)"
| "robots_step (n, st) (RobotsStore origin rules) = (n, snd (rules_store n origin rules st))"

lemma rules_begin_rules [simp]: "rb_rules (snd (rules_begin fresh origin st)) = rb_rules st"
  by (simp add: rules_begin_def split: option.split)

lemma rules_finish_rules [simp]: "rb_rules (rules_finish origin st) = rb_rules st"
  by (simp add: rules_finish_def)

interpretation robots_table: bounded_store robots_step "rb_rules \<circ> snd" fst
proof (unfold_locales, goal_cases)
  case (1 s e)
  then show ?case
    by (cases s; cases e) (auto simp: rules_store_def Let_def split: option.split)
next
  case (2 s e)
  obtain n st where s: "s = (n, st)" by fastforce
  show ?case
  proof (cases e)
    case (RobotsStore origin rules)
    show ?thesis
    proof (cases "map_of (rb_rules st) origin")
      case None
      let ?kept = "if length (rb_rules st) \<ge> n then tl (rb_rules st) else rb_rules st"
      have "Suc (length ?kept) \<le> n" using 2 s by (cases "rb_rules st") auto
      with od_length_set_le [of origin rules ?kept] RobotsStore None s show ?thesis
        by (simp add: rules_store_def Let_def)
    qed (use 2 s RobotsStore in \<open>simp add: rules_store_def\<close>)
  qed (use 2 s in auto)
next
  case (3 s e)
  then show ?case by (cases s; cases e) auto
qed

lemma rules_store_kept:
  "rules_store n origin rules st = (kept, st') \<Longrightarrow> map_of (rb_rules st') origin = Some kept"
  by (auto simp: rules_store_def Let_def od_simps split: option.splits)

lemma rules_for_kept:
  "rules_for cfg send join fresh origin s = (Inr rules, s') \<Longrightarrow> map_of (rb_rules (fst s')) origin = Some rules"
  by (auto simp: rules_for_def rules_begin_def dest: rules_store_kept split: prod.splits sum.splits rules_lookup.splits option.splits)

subsection \<open>Properties\<close>

text \<open>
  One fetch per origin.  Once a robots decision was made for an origin, every further decision for a
  URL of that origin uses the same rules and neither calls the transport nor changes the checker; in every
  run of the checker's sections the table of rules stays within its bound.
\<close>

theorem robots_decided_once:
  assumes "robots_init ua f tf sf maximum = Inr cfg"
    and "robots_allowed cfg send join fresh url (st, env) = (Inr d, (st', env'))"
    and "safe_origin url = Some origin" and "safe_origin url' = Some origin"
  shows "(\<exists>rules. map_of (rb_rules st') origin = Some rules \<and> rules_allowed rules url (rb_user_agent cfg) = Inr d \<and>
      (\<forall>env2. robots_allowed cfg send join fresh' url' (st', env2) =
         (rules_allowed rules url' (rb_user_agent cfg), (st', env2)))) \<and>
    length (rb_rules (snd (foldl robots_step (rb_maximum_origins cfg, \<lparr>rb_rules = [], rb_inflight = []\<rparr>) es)))
      \<le> rb_maximum_origins cfg"
proof -
  have "\<exists>rules. map_of (rb_rules st') origin = Some rules \<and> rules_allowed rules url (rb_user_agent cfg) = Inr d"
  proof (cases "map_of (rb_rules st) origin")
    case None
    with assms(2,3) obtain rules where "rules_for cfg send join fresh origin (st, env) = (Inr rules, (st', env'))"
      "rules_allowed rules url (rb_user_agent cfg) = Inr d"
      by (auto simp: robots_allowed_def split: prod.splits sum.splits)
    with rules_for_kept [OF this(1)] show ?thesis by auto
  qed (use assms(2,3) in \<open>auto simp: robots_allowed_def\<close>)
  moreover have "0 < rb_maximum_origins cfg" using assms(1) by (auto simp: robots_init_def split: if_splits)
  then have "length (rb_rules (snd (foldl robots_step (rb_maximum_origins cfg, \<lparr>rb_rules = [], rb_inflight = []\<rparr>) es)))
      \<le> rb_maximum_origins cfg"
    using robots_table.run_bounded(2) [of "(rb_maximum_origins cfg, \<lparr>rb_rules = [], rb_inflight = []\<rparr>)" es] by simp
  ultimately show ?thesis using assms(4) by (auto simp: robots_allowed_def)
qed

text \<open>
  Decisions without rules.  If the rules of an origin are not known, a transport failure gives the
  configured decision for transport failures; a response of status 401 or 403 denies every URL of the
  origin, any other client error allows every one, and any status outside of 200 to 299 and 400 to 499 gives
  the configured decision for server failures.
\<close>

theorem robots_unavailable:
  assumes "safe_origin url = Some origin" and "map_of (rb_rules st) origin = None" and "map_of (rb_inflight st) origin = None"
    and "send (robots_request origin) env = (r, env')"
    and "\<not> (\<exists>response. r = Inr response \<and> 200 \<le> resp_status response \<and> resp_status response < 300)"
    and "\<And>e. r = Inl e \<Longrightarrow> \<exists>a. e = TransportFailure a"
  shows "fst (robots_allowed cfg send join fresh url (st, env)) = Inr (case r of
      Inl _ \<Rightarrow> rb_transport_failure_decision cfg
    | Inr response \<Rightarrow>
        if resp_status response = 401 \<or> resp_status response = 403 then False
        else if 400 \<le> resp_status response \<and> resp_status response < 500 then True
        else rb_server_failure_decision cfg)"
proof (cases r)
  case (Inl e)
  with assms(6) obtain a where "e = TransportFailure a" by blast
  with assms(1-4) Inl show ?thesis
    by (simp add: robots_allowed_def rules_for_def rules_begin_def rules_store_def fetch_rules_def act_defs Let_def)
next
  case (Inr response)
  with assms show ?thesis
    by (auto simp: robots_allowed_def rules_for_def rules_begin_def rules_store_def fetch_rules_def rules_of_response_def
        act_defs Let_def)
qed

text \<open>
  A URL with a query and no path escapes the rules: with a file that forbids everything for every
  agent, a URL with a path is denied, but one whose query follows the host directly is allowed.
\<close>

theorem robots_query_without_path:
  "case robots_parse [''User-agent: *'', ''Disallow: /''] of
     Inl e \<Rightarrow> False
   | Inr p \<Rightarrow> can_fetch p ''bot'' ''https://shop.example/?q=1'' = Inr False \<and>
       can_fetch p ''bot'' ''https://shop.example?q=1'' = Inr True"
  by code_simp

text \<open>A transport that answers 503.\<close>

definition unavailable_response :: transport_response where
  "unavailable_response = \<lparr>resp_status = 503, resp_headers = [], resp_content = [], resp_final_url = [],
     resp_route = route_default, resp_from_cache = False, resp_elapsed_seconds = 0, resp_accounting = None\<rparr>"

definition sample_robots :: robots_config where
  "sample_robots = \<lparr>rb_user_agent = ''bot'', rb_transport_failure_decision = False, rb_server_failure_decision = False,
     rb_maximum_origins = 10\<rparr>"

definition no_rules :: robots_state where
  "no_rules = \<lparr>rb_rules = [], rb_inflight = []\<rparr>"

lemma sample_robots_origin: "safe_origin ''HTTPS://Shop.example/x'' = Some ''https://shop.example''"
  "safe_origin ''https://shop.example/y'' = Some ''https://shop.example''"
  by code_simp+

theorem robots_unavailable_witness:
  "fst (robots_allowed sample_robots (\<lambda>_. ret unavailable_response) (\<lambda>_. raise BudgetExhausted) 0 ''https://shop.example/y''
     (no_rules, ())) = Inr False"
  using robots_unavailable [OF sample_robots_origin(2), of no_rules "\<lambda>_. ret unavailable_response" "()" "Inr unavailable_response" "()"
      sample_robots "\<lambda>_. raise BudgetExhausted" 0]
  by (simp add: no_rules_def ret_def unavailable_response_def sample_robots_def)

theorem robots_decided_once_witness:
  "\<exists>st' rules. robots_allowed sample_robots (\<lambda>_. ret unavailable_response) (\<lambda>_. raise BudgetExhausted) 0
      ''https://shop.example/y'' (no_rules, 5 :: nat) = (Inr False, (st', 5)) \<and>
    map_of (rb_rules st') ''https://shop.example'' = Some rules \<and>
    robots_allowed sample_robots (\<lambda>_. ret unavailable_response) (\<lambda>_. raise BudgetExhausted) 1 ''HTTPS://Shop.example/x''
      (st', 7 :: nat) = (rules_allowed rules ''HTTPS://Shop.example/x'' ''bot'', (st', 7))"
proof -
  have init: "robots_init ''bot'' FailureDeny None None 10 = Inr sample_robots"
    by (simp add: robots_init_def sample_robots_def py_strip_def is_space_char_def code_of_def)
  obtain st' where run: "robots_allowed sample_robots (\<lambda>_. ret unavailable_response) (\<lambda>_. raise BudgetExhausted) 0
      ''https://shop.example/y'' (no_rules, 5 :: nat) = (Inr False, (st', 5))"
    by (simp add: robots_allowed_def sample_robots_origin rules_for_def rules_begin_def rules_store_def fetch_rules_def
        rules_of_response_def act_defs Let_def no_rules_def unavailable_response_def sample_robots_def)
  from robots_decided_once [OF init run sample_robots_origin(2,1), of 1 "[]"] run show ?thesis
    by (auto simp: sample_robots_def)
qed

end
