(* ===== verification/Regex.thy ===== *)
theory Regex
  imports Prelude
begin

section \<open>The fragment of \<^verbatim>\<open>re\<close> the modules use\<close>

text \<open>
  A backtracking matcher for ASCII text.  \<open>rx_match\<close> lists all ways to match a prefix of the text, in
  the order in which Python's engine tries them, so that its first element is Python's match; the
  character before the text decides \<^verbatim>\<open>\b\<close>.  Groups are collected by number.  \<open>RxAhead r\<close> is \<^verbatim>\<open>(?=r)\<close>, and
  \<open>RxLazyUntil r n\<close> is \<^verbatim>\<open>(?:(?!r).){0,n}?\<close> of a pattern where the dot matches everything: up to \<open>n\<close>
  characters, the fewest first, none of which starts a match of \<open>r\<close>.
\<close>

datatype rx =
    RxChar "char \<Rightarrow> bool"
  | RxMany "char \<Rightarrow> bool"
  | RxSeq rx rx
  | RxAlt rx rx
  | RxOpt rx
  | RxBoundary
  | RxLazy "char \<Rightarrow> bool"
  | RxLineStart
  | RxLineEnd
  | RxGroup nat rx
  | RxAhead rx
  | RxLazyUntil rx nat

definition is_word_char :: "char \<Rightarrow> bool" where
  "is_word_char c \<longleftrightarrow> is_alnum_char c \<or> c = CHR ''_''"

definition word_at :: "char option \<Rightarrow> bool" where
  "word_at c = (case c of None \<Rightarrow> False | Some x \<Rightarrow> is_word_char x)"

definition first_char :: "string \<Rightarrow> char option" where
  "first_char s = (case s of [] \<Rightarrow> None | c # _ \<Rightarrow> Some c)"

definition last_char :: "char option \<Rightarrow> string \<Rightarrow> char option" where
  "last_char prev u = (if u = [] then prev else Some (last u))"

fun rx_match :: "rx \<Rightarrow> char option \<Rightarrow> string \<Rightarrow> (string \<times> (nat \<times> string) list) list" where
  "rx_match (RxChar p) prev s = (case s of [] \<Rightarrow> [] | c # _ \<Rightarrow> if p c then [([c], [])] else [])"
| "rx_match (RxMany p) prev s =
     (let run = takeWhile p s in map (\<lambda>k. (take k run, [])) (rev [0..<Suc (length run)]))"
| "rx_match (RxSeq a b) prev s =
     concat (map (\<lambda>(u, g). map (\<lambda>(v, h). (u @ v, g @ h))
       (rx_match b (last_char prev u) (drop (length u) s))) (rx_match a prev s))"
| "rx_match (RxAlt a b) prev s = rx_match a prev s @ rx_match b prev s"
| "rx_match (RxOpt a) prev s = rx_match a prev s @ [([], [])]"
| "rx_match RxBoundary prev s = (if word_at prev \<noteq> word_at (first_char s) then [([], [])] else [])"
| "rx_match (RxLazy p) prev s =
     (let run = takeWhile p s in map (\<lambda>k. (take k run, [])) [0..<Suc (length run)])"
| "rx_match RxLineStart prev s = (if prev = None \<or> prev = Some (CHR 10) then [([], [])] else [])"
| "rx_match RxLineEnd prev s = (if s = [] \<or> hd s = CHR 10 then [([], [])] else [])"
| "rx_match (RxGroup n a) prev s = map (\<lambda>(u, g). (u, (n, u) # g)) (rx_match a prev s)"
| "rx_match (RxAhead a) prev s = (case rx_match a prev s of [] \<Rightarrow> [] | (_, g) # _ \<Rightarrow> [([], g)])"
| "rx_match (RxLazyUntil a n) prev s =
     (let reach = length (takeWhile (\<lambda>i. rx_match a (last_char prev (take i s)) (drop i s) = []) [0..<min n (length s)])
      in map (\<lambda>k. (take k s, [])) [0..<Suc reach])"

text \<open>Derived forms: sequences, alternatives, literals without case, repetition at least once.\<close>

fun rx_seq :: "rx list \<Rightarrow> rx" where
  "rx_seq [] = RxMany (\<lambda>_. False)"
| "rx_seq [r] = r"
| "rx_seq (r # rs) = RxSeq r (rx_seq rs)"

fun rx_alt :: "rx \<Rightarrow> rx list \<Rightarrow> rx" where
  "rx_alt r [] = r"
| "rx_alt r (q # qs) = RxAlt r (rx_alt q qs)"

definition rx_lit :: "string \<Rightarrow> rx" where
  "rx_lit w = rx_seq (map (\<lambda>c. RxChar (\<lambda>x. lower_char x = c)) w)"

text \<open>The same with case.\<close>

definition rx_exact :: "string \<Rightarrow> rx" where
  "rx_exact w = rx_seq (map (\<lambda>c. RxChar (\<lambda>x. x = c)) w)"

definition rx_some :: "(char \<Rightarrow> bool) \<Rightarrow> rx" where
  "rx_some p = RxSeq (RxChar p) (RxMany p)"

definition rx_class :: "string \<Rightarrow> char \<Rightarrow> bool" where
  "rx_class cs c \<longleftrightarrow> c \<in> set cs"

text \<open>The text of a group; a group that did not take part is empty here and is not asked for.\<close>

definition rx_group :: "nat \<Rightarrow> (nat \<times> string) list \<Rightarrow> string" where
  "rx_group n g = (case map_of g n of None \<Rightarrow> [] | Some u \<Rightarrow> u)"

text \<open>Every match is a prefix of the text.\<close>

lemma take_run: "u = take k (takeWhile p s) \<Longrightarrow> take (length u) s = u"
proof -
  assume "u = take k (takeWhile p s)"
  then have "u = take (min k (length (takeWhile p s))) s"
    by (metis takeWhile_eq_take take_take)
  then show ?thesis by (metis append_eq_conv_conj append_take_drop_id)
qed

lemma rx_match_prefix: "(u, g) \<in> set (rx_match r prev s) \<Longrightarrow> take (length u) s = u"
proof (induction r prev s arbitrary: u g rule: rx_match.induct)
  case (2 p prev s)
  then show ?case using take_run by (fastforce simp: Let_def image_iff simp del: upt_Suc)
next
  case (7 p prev s)
  then show ?case using take_run by (fastforce simp: Let_def image_iff simp del: upt_Suc)
next
  case (12 a n prev s)
  then show ?case by (auto simp: Let_def min_def simp del: upt_Suc)
next
  case (3 a b prev s)
  then obtain u1 g1 v h where a: "(u1, g1) \<in> set (rx_match a prev s)"
    and b: "(v, h) \<in> set (rx_match b (last_char prev u1) (drop (length u1) s))" and u: "u = u1 @ v"
    by auto
  from 3(1) [OF a] have "take (length u1) s = u1" .
  moreover from 3(2) [OF a refl b] have "take (length v) (drop (length u1) s) = v" .
  ultimately show ?case using u by (simp add: take_add)
qed (auto split: list.splits if_splits)

text \<open>
  \<^verbatim>\<open>pattern.sub\<close> for patterns that do not match the empty text: the leftmost matches are replaced
  from left to right and the search goes on behind each.
\<close>

function re_sub :: "rx \<Rightarrow> (string \<Rightarrow> (nat \<times> string) list \<Rightarrow> string) \<Rightarrow> char option \<Rightarrow> string \<Rightarrow> string" where
  "re_sub r f prev s =
     (case s of [] \<Rightarrow> []
      | c # s' \<Rightarrow>
          (case filter (\<lambda>(u, g). u \<noteq> []) (take 1 (rx_match r prev s)) of
             [] \<Rightarrow> c # re_sub r f (Some c) s'
           | (u, g) # _ \<Rightarrow> f u g @ re_sub r f (Some (last u)) (drop (length u) s)))"
  by auto

termination
proof (relation "measure (\<lambda>(r, f, prev, s). length s)", goal_cases)
  case (3 r f prev s c s' m ms u g)
  then have "(u, g) \<in> set (filter (\<lambda>(u, g). u \<noteq> []) (take 1 (rx_match r prev s)))"
    by (metis list.set_intros(1))
  then have "u \<noteq> []" by auto
  with 3 show ?case by (cases u) auto
qed auto

declare re_sub.simps [simp del]

text \<open>\<^verbatim>\<open>pattern.finditer\<close> of a pattern that does not match the empty text: the matches with their groups.\<close>

function re_finditer :: "rx \<Rightarrow> char option \<Rightarrow> string \<Rightarrow> (string \<times> (nat \<times> string) list) list" where
  "re_finditer r prev s =
     (case s of [] \<Rightarrow> []
      | c # s' \<Rightarrow>
          (case filter (\<lambda>(u, g). u \<noteq> []) (take 1 (rx_match r prev s)) of
             [] \<Rightarrow> re_finditer r (Some c) s'
           | (u, g) # _ \<Rightarrow> (u, g) # re_finditer r (Some (last u)) (drop (length u) s)))"
  by auto

termination
proof (relation "measure (\<lambda>(r, prev, s). length s)", goal_cases)
  case (3 r prev s c s' m ms u g)
  then have "(u, g) \<in> set (filter (\<lambda>(u, g). u \<noteq> []) (take 1 (rx_match r prev s)))"
    by (metis list.set_intros(1))
  then have "u \<noteq> []" by auto
  with 3 show ?case by (cases u) auto
qed auto

declare re_finditer.simps [simp del]

text \<open>\<^verbatim>\<open>pattern.findall\<close> of a pattern with one group.\<close>

definition re_findall :: "rx \<Rightarrow> char option \<Rightarrow> string \<Rightarrow> string list" where
  "re_findall r prev s = map (\<lambda>(u, g). rx_group 1 g) (re_finditer r prev s)"

text \<open>\<^verbatim>\<open>pattern.search\<close>.\<close>

definition re_search :: "rx \<Rightarrow> string \<Rightarrow> (string \<times> (nat \<times> string) list) option" where
  "re_search r s = (case re_finditer r None s of [] \<Rightarrow> None | m # _ \<Rightarrow> Some m)"

text \<open>\<^verbatim>\<open>pattern.fullmatch\<close>.\<close>

definition re_fullmatch :: "rx \<Rightarrow> string \<Rightarrow> bool" where
  "re_fullmatch r s \<longleftrightarrow> list_ex (\<lambda>(u, g). u = s) (rx_match r None s)"

end
