(* ===== verification/Sanitization.thy ===== *)
theory Sanitization
  imports Regex Urls
begin

section \<open>Sanitization\<close>

text \<open>
  \<^verbatim>\<open>models/sanitization.py\<close>: credential-free, bounded copies of JSON values, URLs and diagnostic
  text.  The recursive \<^verbatim>\<open>_sanitize\<close> threads the number of nodes it may still visit; the model returns
  it with the value.
\<close>

definition REDACTED :: string where
  "REDACTED = ''[redacted]''"

definition TRUNCATED :: string where
  "TRUNCATED = ''[truncated]''"

definition TRUNCATION_KEY :: string where
  "TRUNCATION_KEY = ''_truncated''"

lemma length_marks [simp]: "length TRUNCATED = 11" "length REDACTED = 10" "length TRUNCATION_KEY = 10"
  by (simp_all add: TRUNCATED_def REDACTED_def TRUNCATION_KEY_def)

subsection \<open>Limits and strings\<close>

record sanitization_limits =
  max_depth :: int
  max_container_entries :: int
  max_string_length :: int
  max_total_nodes :: int

definition limits_post_init :: "sanitization_limits \<Rightarrow> exn + sanitization_limits" where
  "limits_post_init lm =
     (if max_depth lm < 0 then Inl (ValueError ''max_depth must be non-negative'')
      else if max_container_entries lm < 1 then Inl (ValueError ''max_container_entries must be positive'')
      else if max_string_length lm < 1 then Inl (ValueError ''max_string_length must be positive'')
      else if max_total_nodes lm < 1 then Inl (ValueError ''max_total_nodes must be positive'')
      else Inr lm)"

definition default_limits :: sanitization_limits where
  "default_limits = \<lparr>max_depth = 16, max_container_entries = 100, max_string_length = 2048, max_total_nodes = 500\<rparr>"

definition bounded_string :: "string \<Rightarrow> nat \<Rightarrow> string" where
  "bounded_string value limit =
     (if length value \<le> limit then value
      else if limit \<le> length TRUNCATED then take limit TRUNCATED
      else take (limit - length TRUNCATED) value @ TRUNCATED)"

lemma bounded_string_length: "length (bounded_string v n) = min (length v) n"
  by (auto simp: bounded_string_def min_def)

lemma bounded_string_short: "length (bounded_string v n) < n \<Longrightarrow> bounded_string v n = v"
  by (auto simp: bounded_string_def split: if_splits)

lemma bounded_string_idem [simp]: "bounded_string (bounded_string v n) n = bounded_string v n"
  by (simp add: bounded_string_def [of "bounded_string v n"] bounded_string_length)

subsection \<open>Credential names\<close>

definition credential_markers :: "string list" where
  "credential_markers = [''authorization'', ''cookie'', ''password'', ''passwd'', ''passphrase'', ''secret'',
     ''apikey'', ''accesskey'', ''privatekey'', ''clientkey'', ''credential'', ''signature'',
     ''proxycredentials'', ''proxyuser'']"

definition normalize_key :: "string \<Rightarrow> string" where
  "normalize_key key = filter (\<lambda>c. is_lower_char c \<or> is_digit_char c) (py_lower key)"

definition is_credential_key :: "string \<Rightarrow> bool \<Rightarrow> bool" where
  "is_credential_key key proxy_context \<longleftrightarrow>
     (proxy_context \<and> (key = ''user'' \<or> key = ''username'')) \<or>
     list_ex (\<lambda>marker. py_contains marker key) credential_markers \<or>
     key = ''token'' \<or> py_endswith key ''token'' \<or>
     py_startswith key ''tokenheader'' \<or> py_startswith key ''tokenvalue'' \<or>
     key = ''auth'' \<or> key = ''key'' \<or> key = ''sig''"

subsection \<open>URLs\<close>

definition sanitize_query :: "string \<Rightarrow> string" where
  "sanitize_query value =
     (if value = [] then value
      else urlencode (map (\<lambda>(key, item).
        (key, if is_credential_key (normalize_key key) False then REDACTED else item)) (parse_qsl value)))"

definition sanitize_url :: "string \<Rightarrow> string" where
  "sanitize_url value =
     (if \<not> py_contains ''://'' value then value
      else (case urlsplit value of
          Inl _ \<Rightarrow> ''[invalid-url]''
        | Inr parts \<Rightarrow>
            if us_scheme parts = [] \<or> us_netloc parts = [] then value
            else let netloc = (if py_contains ''@'' (us_netloc parts)
                      then ''redacted@'' @ snd (snd (py_rpartition CHR ''@'' (us_netloc parts)))
                      else us_netloc parts) in
              urlunsplit (us_scheme parts) netloc (us_path parts) (sanitize_query (us_query parts))
                (if py_contains ''='' (us_fragment parts) then sanitize_query (us_fragment parts)
                 else us_fragment parts)))"

subsection \<open>JSON trees\<close>

lemma size_list_take_le: "size_list f (take n xs) \<le> size_list f xs"
  by (induction xs arbitrary: n) (auto simp: take_Cons split: nat.split)

text \<open>
  \<open>sanitize_entries\<close> is the loop over the selected items of a dictionary with \<open>len(items) - index\<close> in
  \<open>left\<close> and the dictionary built so far; \<open>sanitize_elements\<close> is the loop over a list.
\<close>

function (sequential) sanitize_node :: "sanitization_limits \<Rightarrow> bool \<Rightarrow> nat \<Rightarrow> json \<Rightarrow> nat \<Rightarrow> json \<times> nat" and
  sanitize_entries :: "sanitization_limits \<Rightarrow> bool \<Rightarrow> nat \<Rightarrow> nat \<Rightarrow> (string \<times> json) list \<Rightarrow> (string, json) odict \<Rightarrow> nat \<Rightarrow>
    (string, json) odict \<times> nat" and
  sanitize_elements :: "sanitization_limits \<Rightarrow> bool \<Rightarrow> nat \<Rightarrow> json list \<Rightarrow> nat \<Rightarrow> json list \<times> nat"
where
  "sanitize_node lm proxy_context depth value 0 =
     (JStr (bounded_string TRUNCATED (nat (max_string_length lm))), 0)"
| "sanitize_node lm proxy_context depth (JDict items) (Suc n) =
     (if int depth \<ge> max_depth lm then (JStr (bounded_string TRUNCATED (nat (max_string_length lm))), n)
      else (let selected = take (nat (max_container_entries lm)) items in
        case sanitize_entries lm proxy_context depth (length items) selected [] n of (sanitized, n') \<Rightarrow>
          (JDict (if int (length items) > max_container_entries lm \<and> map_of sanitized TRUNCATION_KEY = None
             then od_set TRUNCATION_KEY (JInt (int (length items - length selected))) sanitized else sanitized), n')))"
| "sanitize_node lm proxy_context depth (JList items) (Suc n) =
     (if int depth \<ge> max_depth lm then (JStr (bounded_string TRUNCATED (nat (max_string_length lm))), n)
      else (case sanitize_elements lm proxy_context depth (take (nat (max_container_entries lm)) items) n of
          (sanitized, n') \<Rightarrow>
            (JList (if int (length items) > max_container_entries lm \<and>
                 (sanitized = [] \<or> last sanitized \<noteq> JStr TRUNCATED)
               then sanitized @ [JStr TRUNCATED] else sanitized), n')))"
| "sanitize_node lm proxy_context depth (JStr s) (Suc n) =
     (JStr (bounded_string (sanitize_url s) (nat (max_string_length lm))), n)"
| "sanitize_node lm proxy_context depth (JFloat r) (Suc n) =
     (if float_repr_finite r then JFloat r else JNull, n)"
| "sanitize_node lm proxy_context depth value (Suc n) = (value, n)"
| "sanitize_entries lm proxy_context depth left [] acc n = (acc, n)"
| "sanitize_entries lm proxy_context depth left ((key, item) # rest) acc n =
     (if n = 0 then (od_set TRUNCATION_KEY (JInt (int left)) acc, n)
      else let normalized_key = normalize_key key;
               bounded_key = bounded_string key (nat (max_string_length lm)) in
        if is_credential_key normalized_key proxy_context
        then sanitize_entries lm proxy_context depth (left - 1) rest
               (od_set bounded_key (JStr (bounded_string REDACTED (nat (max_string_length lm)))) acc) n
        else (case sanitize_node lm (proxy_context \<or> py_contains ''proxy'' normalized_key) (depth + 1) item n of
            (value, n') \<Rightarrow>
              sanitize_entries lm proxy_context depth (left - 1) rest (od_set bounded_key value acc) n'))"
| "sanitize_elements lm proxy_context depth [] n = ([], n)"
| "sanitize_elements lm proxy_context depth (item # rest) n =
     (if n = 0 then ([JStr TRUNCATED], n)
      else (case sanitize_node lm proxy_context (depth + 1) item n of (value, n') \<Rightarrow>
        (case sanitize_elements lm proxy_context depth rest n' of (values, n'') \<Rightarrow> (value # values, n''))))"
  by pat_completeness auto

termination
  by (relation "measure (case_sum (\<lambda>(lm, px, d, v, n). size v)
      (case_sum (\<lambda>(lm, px, d, l, es, acc, n). size_list (size_prod (\<lambda>_. 0) size) es)
        (\<lambda>(lm, px, d, es, n). size_list size es)))")
    (auto simp: le_imp_less_Suc size_list_take_le)

definition sanitize_json_value :: "sanitization_limits \<Rightarrow> json \<Rightarrow> json" where
  "sanitize_json_value lm value = fst (sanitize_node lm False 0 value (nat (max_total_nodes lm)))"

subsection \<open>Diagnostic text\<close>

text \<open>
  The three patterns, applied in turn to the whole text: embedded URLs, labelled credentials and
  authorization values.
\<close>

definition url_body_char :: "char \<Rightarrow> bool" where
  "url_body_char c \<longleftrightarrow> \<not> is_space_char c \<and> c \<notin> set ''<>'' \<and> c \<noteq> CHR 34 \<and> c \<noteq> CHR 39"

definition embedded_url :: rx where
  "embedded_url = rx_seq [RxChar is_alpha_char, RxMany (\<lambda>c. is_alnum_char c \<or> rx_class ''+.-'' c),
     rx_lit ''://'', rx_some url_body_char]"

definition credential_label :: rx where
  "credential_label =
     (let sep = RxOpt (RxChar (rx_class ''-_ '')) in
      rx_alt (rx_lit ''authorization'')
        [rx_seq [rx_lit ''proxy'', sep, rx_lit ''authorization''],
         rx_lit ''cookie'', rx_seq [rx_lit ''set'', sep, rx_lit ''cookie''],
         rx_lit ''password'', rx_lit ''passwd'', rx_lit ''passphrase'', rx_lit ''secret'',
         rx_seq [rx_lit ''api'', sep, rx_lit ''key''],
         rx_seq [rx_lit ''access'', sep, rx_lit ''token''],
         rx_seq [rx_lit ''refresh'', sep, rx_lit ''token''],
         rx_lit ''token'', rx_lit ''signature'', rx_lit ''credential''])"

definition bare_value_char :: "char \<Rightarrow> bool" where
  "bare_value_char c \<longleftrightarrow> \<not> is_space_char c \<and> c \<notin> set '',;&''"

definition auth_scheme :: rx where
  "auth_scheme = RxAlt (rx_lit ''bearer'') (rx_lit ''basic'')"

definition labeled_credential :: rx where
  "labeled_credential =
     (let quoted = (\<lambda>q. rx_seq [RxChar (\<lambda>c. c = q), RxMany (\<lambda>c. c \<noteq> q), RxChar (\<lambda>c. c = q)]) in
      rx_seq [RxBoundary, RxGroup 1 credential_label, RxBoundary,
        RxGroup 2 (RxOpt (RxChar (\<lambda>c. c = CHR 39 \<or> c = CHR 34))),
        RxGroup 3 (rx_seq [RxMany is_space_char, RxChar (rx_class '':=''), RxMany is_space_char]),
        rx_alt (quoted (CHR 39))
          [quoted (CHR 34),
           rx_seq [auth_scheme, rx_some is_space_char, rx_some bare_value_char],
           rx_some bare_value_char]])"

definition authorization_value :: rx where
  "authorization_value =
     rx_seq [RxBoundary, RxGroup 1 auth_scheme, RxGroup 2 (rx_some is_space_char),
       rx_some (\<lambda>c. is_alnum_char c \<or> rx_class ''._~+/=-'' c)]"

definition sanitize_diagnostic_text :: "string \<Rightarrow> int \<Rightarrow> exn + string" where
  "sanitize_diagnostic_text value max_length =
     (if max_length < 1 then Inl (ValueError ''max_length must be positive'')
      else let s1 = re_sub embedded_url (\<lambda>u g. sanitize_url u) None value;
               s2 = re_sub labeled_credential (\<lambda>u g. rx_group 1 g @ rx_group 2 g @ rx_group 3 g @ REDACTED) None s1;
               s3 = re_sub authorization_value (\<lambda>u g. rx_group 1 g @ rx_group 2 g @ REDACTED) None s2
           in Inr (bounded_string s3 (nat max_length)))"

subsection \<open>What a sanitized tree satisfies\<close>

lemma json_size_entry [termination_simp]:
  "(k, v) \<in> set items \<Longrightarrow> size v < Suc (size_list (size_prod (\<lambda>_. 0) size) items)"
  by (induction items) auto

text \<open>Depth at most \<open>d\<close>, at most \<open>e\<close> entries per container and at most \<open>l\<close> characters per string.\<close>

function json_within :: "nat \<Rightarrow> nat \<Rightarrow> nat \<Rightarrow> json \<Rightarrow> bool" where
  "json_within d e l (JDict items) \<longleftrightarrow> 0 < d \<and> length items \<le> e \<and>
     (\<forall>(k, v) \<in> set items. length k \<le> l \<and> json_within (d - 1) e l v)"
| "json_within d e l (JList items) \<longleftrightarrow> 0 < d \<and> length items \<le> e \<and> (\<forall>v \<in> set items. json_within (d - 1) e l v)"
| "json_within d e l (JStr s) \<longleftrightarrow> length s \<le> l"
| "json_within d e l JNull \<longleftrightarrow> True"
| "json_within d e l (JBool b) \<longleftrightarrow> True"
| "json_within d e l (JInt i) \<longleftrightarrow> True"
| "json_within d e l (JFloat r) \<longleftrightarrow> float_repr_finite r"
  by pat_completeness auto
termination
  by (relation "measure (\<lambda>(d, e, l, v). size v)") (auto simp: json_size_entry less_Suc_eq_le size_list_estimation')

text \<open>
  Every key that is not itself cut, at any depth, that names a credential has a redacted value; a
  key that mentions a proxy makes user names below it credentials.
\<close>

function json_redacted :: "nat \<Rightarrow> bool \<Rightarrow> json \<Rightarrow> bool" where
  "json_redacted l px (JDict items) \<longleftrightarrow> (\<forall>(k, v) \<in> set items. length k < l \<longrightarrow>
     (if is_credential_key (normalize_key k) px then v = JStr (bounded_string REDACTED l)
      else json_redacted l (px \<or> py_contains ''proxy'' (normalize_key k)) v))"
| "json_redacted l px (JList items) \<longleftrightarrow> (\<forall>v \<in> set items. json_redacted l px v)"
| "json_redacted l px (JStr s) \<longleftrightarrow> True"
| "json_redacted l px JNull \<longleftrightarrow> True"
| "json_redacted l px (JBool b) \<longleftrightarrow> True"
| "json_redacted l px (JInt i) \<longleftrightarrow> True"
| "json_redacted l px (JFloat r) \<longleftrightarrow> True"
  by pat_completeness auto
termination
  by (relation "measure (\<lambda>(l, px, v). size v)") (auto simp: json_size_entry less_Suc_eq_le size_list_estimation')

text \<open>The number of values in a tree.\<close>

function json_nodes :: "json \<Rightarrow> nat" where
  "json_nodes (JDict items) = Suc (sum_list (map (\<lambda>(k, v). json_nodes v) items))"
| "json_nodes (JList items) = Suc (sum_list (map json_nodes items))"
| "json_nodes (JStr s) = 1"
| "json_nodes JNull = 1"
| "json_nodes (JBool b) = 1"
| "json_nodes (JInt i) = 1"
| "json_nodes (JFloat r) = 1"
  by pat_completeness auto
termination
  by (relation "measure size") (auto simp: json_size_entry less_Suc_eq_le size_list_estimation')

lemma truncation_key_not_credential: "\<not> is_credential_key (normalize_key TRUNCATION_KEY) px"
proof -
  have "normalize_key TRUNCATION_KEY = ''truncated''" by code_simp
  moreover have "\<not> list_ex (\<lambda>marker. py_contains marker ''truncated'') credential_markers" by code_simp
  ultimately show ?thesis by (simp add: is_credential_key_def py_endswith_def py_startswith_def)
qed

lemma redacted_od_set:
  "json_redacted l px (JDict d) \<Longrightarrow>
   (length k < l \<Longrightarrow> if is_credential_key (normalize_key k) px then v = JStr (bounded_string REDACTED l)
      else json_redacted l (px \<or> py_contains ''proxy'' (normalize_key k)) v) \<Longrightarrow>
   json_redacted l px (JDict (od_set k v d))"
  unfolding json_redacted.simps(1) by (rule od_set_ball) auto

declare json_redacted.simps(1) [simp del]

lemma json_redacted_Nil [simp]: "json_redacted l px (JDict [])"
  by (simp add: json_redacted.simps(1))

abbreviation string_limit :: "sanitization_limits \<Rightarrow> nat" where
  "string_limit lm \<equiv> nat (max_string_length lm)"

abbreviation entry_limit :: "sanitization_limits \<Rightarrow> nat" where
  "entry_limit lm \<equiv> nat (max_container_entries lm)"

abbreviation depth_limit :: "sanitization_limits \<Rightarrow> nat" where
  "depth_limit lm \<equiv> nat (max_depth lm)"

text \<open>One lemma per property: the tree, the dictionary loop and the list loop together.\<close>

lemma sanitize_within:
  assumes "11 \<le> string_limit lm"
  shows "json_within (depth_limit lm - d) (Suc (entry_limit lm)) (string_limit lm) (fst (sanitize_node lm px d v n))"
    and "d < depth_limit lm \<Longrightarrow>
      (\<forall>(k, v) \<in> set acc. length k \<le> string_limit lm \<and>
         json_within (depth_limit lm - d - 1) (Suc (entry_limit lm)) (string_limit lm) v) \<Longrightarrow>
      (\<forall>(k, v) \<in> set (fst (sanitize_entries lm px d left es acc n)). length k \<le> string_limit lm \<and>
         json_within (depth_limit lm - d - 1) (Suc (entry_limit lm)) (string_limit lm) v) \<and>
      length (fst (sanitize_entries lm px d left es acc n)) \<le> length acc + length es"
    and "d < depth_limit lm \<Longrightarrow>
      (\<forall>v \<in> set (fst (sanitize_elements lm px d vs n)).
         json_within (depth_limit lm - d - 1) (Suc (entry_limit lm)) (string_limit lm) v) \<and>
      length (fst (sanitize_elements lm px d vs n)) \<le> length vs"
  using assms
proof (induction lm px d v n and lm px d left es acc n and lm px d vs n
    rule: sanitize_node_sanitize_entries_sanitize_elements.induct)
  case (2 lm px d items n)
  show ?case
  proof (cases "max_depth lm \<le> int d")
    case False
    then have d: "d < depth_limit lm" by simp
    let ?sel = "take (entry_limit lm) items"
    obtain san n' where san: "sanitize_entries lm px d (length items) ?sel [] n = (san, n')" by fastforce
    have "(\<forall>(k, v) \<in> set san. length k \<le> string_limit lm \<and>
         json_within (depth_limit lm - d - 1) (Suc (entry_limit lm)) (string_limit lm) v) \<and> length san \<le> entry_limit lm"
      using 2(1) [OF False refl d _ 2(2)] san by auto
    then show ?thesis using False d san 2(2)
        od_set_ball [of san "\<lambda>k v. length k \<le> string_limit lm \<and>
          json_within (depth_limit lm - d - 1) (Suc (entry_limit lm)) (string_limit lm) v" TRUNCATION_KEY
          "JInt (int (length items - length ?sel))"]
        od_length_set_le [of TRUNCATION_KEY "JInt (int (length items - length ?sel))" san]
      by (auto simp: Let_def)
  qed (simp add: bounded_string_length)
next
  case (3 lm px d items n)
  show ?case
  proof (cases "max_depth lm \<le> int d")
    case False
    then have d: "d < depth_limit lm" by simp
    obtain san n' where san: "sanitize_elements lm px d (take (entry_limit lm) items) n = (san, n')" by fastforce
    have "(\<forall>v \<in> set san. json_within (depth_limit lm - d - 1) (Suc (entry_limit lm)) (string_limit lm) v) \<and>
        length san \<le> entry_limit lm"
      using 3(1) [OF False d 3(2)] san by auto
    then show ?thesis using False d san 3(2) by auto
  qed (simp add: bounded_string_length)
next
  case (8 lm px d left key item rest acc n)
  let ?P = "\<lambda>k v. length k \<le> string_limit lm \<and>
     json_within (depth_limit lm - d - 1) (Suc (entry_limit lm)) (string_limit lm) v"
  let ?k = "bounded_string key (string_limit lm)"
  have k: "length ?k \<le> string_limit lm" by (simp add: bounded_string_length)
  show ?case
  proof (cases "n = 0")
    case True
    have "\<forall>(k, v) \<in> set (od_set TRUNCATION_KEY (JInt (int left)) acc). ?P k v"
      by (rule od_set_ball [OF 8(5)]) (use 8(6) in simp)
    then show ?thesis using True od_length_set_le [of TRUNCATION_KEY "JInt (int left)" acc] by auto
  next
    case n: False
    show ?thesis
    proof (cases "is_credential_key (normalize_key key) px")
      case True
      let ?v = "JStr (bounded_string REDACTED (string_limit lm))"
      have "\<forall>(k, v) \<in> set (od_set ?k ?v acc). ?P k v"
        using 8(5) k by (intro od_set_ball) (auto simp: bounded_string_length)
      from 8(1) [OF n refl refl True 8(4) this 8(6)] True n od_length_set_le [of ?k ?v acc] show ?thesis
        by (auto simp: Let_def)
    next
      case False
      let ?px = "px \<or> py_contains ''proxy'' (normalize_key key)"
      obtain v n' where v: "sanitize_node lm ?px (d + 1) item n = (v, n')" by fastforce
      have "json_within (depth_limit lm - d - 1) (Suc (entry_limit lm)) (string_limit lm) v"
        using 8(2) [OF n refl refl False 8(6)] v by simp
      then have "\<forall>(k, v) \<in> set (od_set ?k v acc). ?P k v"
        using 8(5) k by (intro od_set_ball) auto
      from 8(3) [OF n refl refl False v [symmetric] 8(4) this 8(6)] False n v od_length_set_le [of ?k v acc] show ?thesis
        by (auto simp: Let_def)
    qed
  qed
next
  case (10 lm px d item rest n)
  then show ?case by (auto split: prod.splits)
qed (auto simp: bounded_string_length)

lemma sanitize_redacted:
  "json_redacted (string_limit lm) px (fst (sanitize_node lm px d v n))"
  "json_redacted (string_limit lm) px (JDict acc) \<Longrightarrow>
     json_redacted (string_limit lm) px (JDict (fst (sanitize_entries lm px d left es acc n)))"
  "json_redacted (string_limit lm) px (JList (fst (sanitize_elements lm px d vs n)))"
proof (induction lm px d v n and lm px d left es acc n and lm px d vs n
    rule: sanitize_node_sanitize_entries_sanitize_elements.induct)
  case (2 lm px d items n)
  let ?sel = "take (entry_limit lm) items"
  obtain san n' where san: "sanitize_entries lm px d (length items) ?sel [] n = (san, n')" by fastforce
  show ?case
  proof (cases "max_depth lm \<le> int d")
    case False
    have "json_redacted (string_limit lm) px (JDict san)" using 2 [OF False refl] san by simp
    moreover from this have "json_redacted (string_limit lm) px (JDict (od_set TRUNCATION_KEY (JInt i) san))" for i
      by (rule redacted_od_set) (simp add: truncation_key_not_credential)
    ultimately show ?thesis using False san by (simp add: Let_def)
  qed simp
next
  case (3 lm px d items n)
  show ?case
  proof (cases "max_depth lm \<le> int d")
    case False
    with 3 [OF False] show ?thesis by (auto split: prod.splits)
  qed simp
next
  case (8 lm px d left key item rest acc n)
  let ?k = "bounded_string key (string_limit lm)"
  show ?case
  proof (cases "n = 0")
    case n: False
    show ?thesis
    proof (cases "is_credential_key (normalize_key key) px")
      case True
      have "json_redacted (string_limit lm) px (JDict (od_set ?k (JStr (bounded_string REDACTED (string_limit lm))) acc))"
        by (rule redacted_od_set [OF 8(4)]) (use True bounded_string_short in auto)
      from 8(1) [OF n refl refl True this] True n show ?thesis by (simp add: Let_def)
    next
      case False
      let ?px = "px \<or> py_contains ''proxy'' (normalize_key key)"
      obtain v n' where v: "sanitize_node lm ?px (d + 1) item n = (v, n')" by fastforce
      have v_red: "json_redacted (string_limit lm) ?px v" using 8(2) [OF n refl refl False] v by simp
      have "json_redacted (string_limit lm) px (JDict (od_set ?k v acc))"
        by (rule redacted_od_set [OF 8(4)]) (use False v_red bounded_string_short [of key "string_limit lm"] in auto)
      from 8(3) [OF n refl refl False v [symmetric] this] False n v show ?thesis by (simp add: Let_def)
    qed
  qed (use 8(4) in \<open>simp add: redacted_od_set truncation_key_not_credential\<close>)
next
  case (10 lm px d item rest n)
  show ?case
  proof (cases "n = 0")
    case False
    obtain v n' where v: "sanitize_node lm px (d + 1) item n = (v, n')" by fastforce
    obtain vs n'' where vs: "sanitize_elements lm px d rest n' = (vs, n'')" by fastforce
    from 10(1) [OF False] 10(2) [OF False v [symmetric]] False v vs show ?thesis by auto
  qed simp
qed auto

lemma sanitize_nodes:
  "0 < n \<Longrightarrow> snd (sanitize_node lm px d v n) < n \<and>
     json_nodes (fst (sanitize_node lm px d v n)) \<le> (n - snd (sanitize_node lm px d v n)) * (entry_limit lm + 2)"
  "snd (sanitize_entries lm px d left es acc n) \<le> n \<and>
     json_nodes (JDict (fst (sanitize_entries lm px d left es acc n))) \<le>
       json_nodes (JDict acc) + (n - snd (sanitize_entries lm px d left es acc n)) * (entry_limit lm + 2) + length es"
  "snd (sanitize_elements lm px d vs n) \<le> n \<and>
     json_nodes (JList (fst (sanitize_elements lm px d vs n))) \<le>
       1 + (n - snd (sanitize_elements lm px d vs n)) * (entry_limit lm + 2) + length vs"
proof (induction lm px d v n and lm px d left es acc n and lm px d vs n
    rule: sanitize_node_sanitize_entries_sanitize_elements.induct)
  case (2 lm px d items n)
  let ?sel = "take (entry_limit lm) items" and ?e = "entry_limit lm + 2"
  obtain san n' where san: "sanitize_entries lm px d (length items) ?sel [] n = (san, n')" by fastforce
  show ?case
  proof (cases "max_depth lm \<le> int d")
    case False
    have le: "n' \<le> n" "json_nodes (JDict san) \<le> 1 + (n - n') * ?e + entry_limit lm"
      using 2(1) [OF False refl] san by auto
    have "json_nodes (JDict (od_set TRUNCATION_KEY (JInt i) san)) \<le> 1 + json_nodes (JDict san)" for i
      using sum_od_set [of json_nodes TRUNCATION_KEY "JInt i" san] by simp
    moreover have "(Suc n - n') * ?e = (n - n') * ?e + ?e" using le(1) by (simp add: Suc_diff_le)
    ultimately show ?thesis using False san le
      by (auto simp: Let_def intro: order_trans simp del: json_nodes.simps(1))
  qed simp
next
  case (3 lm px d items n)
  let ?e = "entry_limit lm + 2"
  obtain san n' where san: "sanitize_elements lm px d (take (entry_limit lm) items) n = (san, n')" by fastforce
  show ?case
  proof (cases "max_depth lm \<le> int d")
    case False
    have le: "n' \<le> n" "json_nodes (JList san) \<le> 1 + (n - n') * ?e + entry_limit lm"
      using 3(1) [OF False] san by auto
    moreover have "(Suc n - n') * ?e = (n - n') * ?e + ?e" using le(1) by (simp add: Suc_diff_le)
    ultimately show ?thesis using False san by auto
  qed simp
next
  case (8 lm px d left key item rest acc n)
  let ?k = "bounded_string key (string_limit lm)" and ?e = "entry_limit lm + 2"
  have add: "json_nodes (JDict (od_set k v acc)) \<le> json_nodes (JDict acc) + json_nodes v" for k v
    using sum_od_set [of json_nodes k v acc] by simp
  show ?case
  proof (cases "n = 0")
    case n: False
    show ?thesis
    proof (cases "is_credential_key (normalize_key key) px")
      case True
      let ?v = "JStr (bounded_string REDACTED (string_limit lm))"
      let ?r = "sanitize_entries lm px d (left - 1) rest (od_set ?k ?v acc) n"
      have r: "snd ?r \<le> n" "json_nodes (JDict (fst ?r)) \<le>
          json_nodes (JDict (od_set ?k ?v acc)) + (n - snd ?r) * ?e + length rest"
        using 8(1) [OF n refl refl True] by blast+
      have eq: "sanitize_entries lm px d left ((key, item) # rest) acc n = ?r" using True n by (simp add: Let_def)
      have "json_nodes (JDict (od_set ?k ?v acc)) \<le> json_nodes (JDict acc) + 1" using add [of ?k ?v] by simp
      with r have "json_nodes (JDict (fst ?r)) \<le> json_nodes (JDict acc) + (n - snd ?r) * ?e + length ((key, item) # rest)"
        by (simp only: list.size)
      with r(1) show ?thesis unfolding eq by blast
    next
      case False
      let ?px = "px \<or> py_contains ''proxy'' (normalize_key key)"
      obtain v n' where v: "sanitize_node lm ?px (d + 1) item n = (v, n')" by fastforce
      have v_le: "n' < n" "json_nodes v \<le> (n - n') * ?e" using 8(2) [OF n refl refl False] n v by auto
      let ?r = "sanitize_entries lm px d (left - 1) rest (od_set ?k v acc) n'"
      have r: "snd ?r \<le> n'" "json_nodes (JDict (fst ?r)) \<le>
          json_nodes (JDict (od_set ?k v acc)) + (n' - snd ?r) * ?e + length rest"
        using 8(3) [OF n refl refl False v [symmetric]] by blast+
      have eq: "sanitize_entries lm px d left ((key, item) # rest) acc n = ?r" using False n v by (simp add: Let_def)
      have "(n - snd ?r) * ?e = (n - n') * ?e + (n' - snd ?r) * ?e"
        using v_le(1) r(1) by (simp add: add_mult_distrib [symmetric])
      with v_le(2) r(2) add [of ?k v]
      have "json_nodes (JDict (fst ?r)) \<le> json_nodes (JDict acc) + (n - snd ?r) * ?e + length ((key, item) # rest)"
        by (simp only: list.size)
      with v_le(1) r(1) show ?thesis unfolding eq by simp
    qed
  next
    case True
    with add [of TRUNCATION_KEY "JInt (int left)"] show ?thesis by (simp del: json_nodes.simps(1) add: json_nodes.simps(6))
  qed
next
  case (10 lm px d item rest n)
  let ?e = "entry_limit lm + 2"
  show ?case
  proof (cases "n = 0")
    case n: False
    obtain v n' where v: "sanitize_node lm px (d + 1) item n = (v, n')" by fastforce
    obtain vs n'' where vs: "sanitize_elements lm px d rest n' = (vs, n'')" by fastforce
    have v_le: "n' < n" "json_nodes v \<le> (n - n') * ?e" using 10(1) [OF n] n v by auto
    have r: "n'' \<le> n'" "json_nodes (JList vs) \<le> 1 + (n' - n'') * ?e + length rest"
      using 10(2) [OF n v [symmetric]] vs by auto
    have "(n - n'') * ?e = (n - n') * ?e + (n' - n'') * ?e"
      using v_le(1) r(1) by (simp add: add_mult_distrib [symmetric])
    moreover have "json_nodes (JList (v # vs)) = json_nodes v + json_nodes (JList vs)" by simp
    ultimately have "json_nodes (JList (v # vs)) \<le> 1 + (n - n'') * ?e + length (item # rest)"
      using v_le(2) r(2) by (simp only: list.size)
    moreover have "sanitize_elements lm px d (item # rest) n = (v # vs, n'')" using n v vs by simp
    ultimately show ?thesis using v_le(1) r(1) by (simp only: fst_conv snd_conv) simp
  qed simp
qed auto

text \<open>The default limits.\<close>

lemma sanitize_default:
  "json_redacted 2048 False (sanitize_json_value default_limits v)"
  "json_within 16 101 2048 (sanitize_json_value default_limits v)"
proof -
  have lims: "string_limit default_limits = 2048" "entry_limit default_limits = 100" "depth_limit default_limits = 16"
    by (simp_all add: default_limits_def)
  show "json_redacted 2048 False (sanitize_json_value default_limits v)"
    using sanitize_redacted(1) [where lm = default_limits] unfolding lims by (simp add: sanitize_json_value_def)
  show "json_within 16 101 2048 (sanitize_json_value default_limits v)"
    using sanitize_within(1) [of default_limits 0 False v "nat (max_total_nodes default_limits)"] lims
    by (simp add: sanitize_json_value_def)
qed

lemma sanitize_default_dict: "\<exists>d. sanitize_json_value default_limits (JDict es) = JDict d"
proof -
  have nodes: "nat (max_total_nodes default_limits) = Suc 499" by (simp add: default_limits_def)
  have lims: "max_depth default_limits = 16" by (simp add: default_limits_def)
  show ?thesis unfolding sanitize_json_value_def nodes sanitize_node.simps lims by (simp add: Let_def split: prod.split)
qed

subsection \<open>Properties\<close>




text \<open>
  Sanitized queries keep their parameters and lose their credentials: decoding a sanitized query
  gives the parameters of the original, in order, with exactly the values of credential names
  replaced by the redaction mark.
\<close>

theorem sanitize_query_redacts:
  "parse_qsl (sanitize_query q) =
     map (\<lambda>(k, v). (k, if is_credential_key (normalize_key k) False then REDACTED else v)) (parse_qsl q)"
proof (cases "q = []")
  case True
  then show ?thesis by (simp add: sanitize_query_def parse_qsl_def)
next
  case False
  then show ?thesis by (simp add: sanitize_query_def parse_qsl_urlencode)
qed

text \<open>
  Sanitization is not idempotent: a dictionary that was cut is cut again, and the count of its
  omitted entries changes.
\<close>

theorem sanitize_not_idempotent:
  "\<exists>lm v. limits_post_init lm = Inr lm \<and>
     sanitize_json_value lm (sanitize_json_value lm v) \<noteq> sanitize_json_value lm v"
proof -
  let ?lm = "\<lparr>max_depth = 16, max_container_entries = 1, max_string_length = 2048, max_total_nodes = 500\<rparr>"
  let ?v = "JDict [(''a'', JNull), (''b'', JNull), (''c'', JNull)]"
  have "sanitize_json_value ?lm ?v = JDict [(''a'', JNull), (TRUNCATION_KEY, JInt 2)]" by code_simp
  moreover have "sanitize_json_value ?lm (JDict [(''a'', JNull), (TRUNCATION_KEY, JInt 2)]) =
      JDict [(''a'', JNull), (TRUNCATION_KEY, JInt 1)]" by code_simp
  ultimately show ?thesis by (intro exI [of _ ?lm] exI [of _ ?v]) (simp add: limits_post_init_def)
qed

end
