(* ===== verification/Telemetry.thy ===== *)
theory Telemetry
  imports Sanitization Effects
begin

section \<open>Telemetry\<close>

text \<open>
  \<^verbatim>\<open>transports/telemetry.py\<close>: the boundary around an application's telemetry sink.  The sink is a
  parameter that may raise.
\<close>

definition OMITTED :: string where
  "OMITTED = ''[omitted]''"

definition INVALID_EVENT :: string where
  "INVALID_EVENT = ''telemetry.invalid_event''"

definition omitted_field_keys :: "string list" where
  "omitted_field_keys = [''body'', ''content'', ''headers'', ''jsonbody'', ''payload'', ''requestbody'', ''responsebody'']"

text \<open>\<^verbatim>\<open>^[a-z][a-z0-9_]*(?:\.[a-z][a-z0-9_]*)*$\<close>.\<close>

definition event_word :: "string \<Rightarrow> bool" where
  "event_word w = (case w of [] \<Rightarrow> False
     | c # cs \<Rightarrow> is_lower_char c \<and> list_all (\<lambda>x. is_lower_char x \<or> is_digit_char x \<or> x = CHR ''_'') cs)"

definition event_name_ok :: "string \<Rightarrow> bool" where
  "event_name_ok event \<longleftrightarrow> list_all event_word (py_split (CHR ''.'') event)"

definition telemetry_sanitize_url :: "string \<Rightarrow> string" where
  "telemetry_sanitize_url url =
     (let sanitized = sanitize_url url in
      if \<not> py_contains ''://'' sanitized then sanitized
      else (case urlsplit sanitized of
          Inl _ \<Rightarrow> ''[invalid-url]''
        | Inr parts \<Rightarrow>
            urlunsplit (us_scheme parts) (us_netloc parts) (us_path parts)
              (urlencode (map (\<lambda>(key, _). (key, ''[redacted]'')) (parse_qsl (us_query parts)))) []))"

definition telemetry_normalized_key :: "string \<Rightarrow> string" where
  "telemetry_normalized_key key = filter is_alnum_char (py_lower key)"

function sanitize_telemetry_urls :: "json \<Rightarrow> json" where
  "sanitize_telemetry_urls (JDict items) = JDict (map (\<lambda>(key, item). (key, sanitize_telemetry_urls item)) items)"
| "sanitize_telemetry_urls (JList items) = JList (map sanitize_telemetry_urls items)"
| "sanitize_telemetry_urls (JStr s) = JStr (if py_contains ''://'' s then telemetry_sanitize_url s else s)"
| "sanitize_telemetry_urls JNull = JNull"
| "sanitize_telemetry_urls (JBool b) = JBool b"
| "sanitize_telemetry_urls (JInt i) = JInt i"
| "sanitize_telemetry_urls (JFloat r) = JFloat r"
  by pat_completeness auto
termination
  by (relation "measure size") (auto simp: json_size_entry less_Suc_eq_le size_list_estimation')

definition sanitize_fields :: "(string, json) odict \<Rightarrow> (string, json) odict" where
  "sanitize_fields flds =
     (case sanitize_json_value default_limits
        (JDict (map (\<lambda>(key, value).
           (key, if telemetry_normalized_key key \<in> set omitted_field_keys then JStr OMITTED else value)) flds)) of
        JDict d \<Rightarrow> (case sanitize_telemetry_urls (JDict d) of JDict strict \<Rightarrow> strict | _ \<Rightarrow> [])
      | _ \<Rightarrow> [])"

text \<open>\<^verbatim>\<open>SafeTelemetry.emit\<close> and \<^verbatim>\<open>observe_request\<close>; a sink without \<^verbatim>\<open>observe_request\<close> has none to call.\<close>

definition safe_event :: "string \<Rightarrow> string" where
  "safe_event event = (if length event \<le> 128 \<and> event_name_ok event then event else INVALID_EVENT)"

definition contained :: "('e, unit) act \<Rightarrow> ('e, unit) act" where
  "contained m = catchA m (\<lambda>e. if is_exception e then ret () else raise e)"

definition safe_emit ::
  "(string \<Rightarrow> (string, json) odict \<Rightarrow> ('e, unit) act) \<Rightarrow> string \<Rightarrow> (string, json) odict \<Rightarrow> ('e, unit) act" where
  "safe_emit sink event flds = contained (sink (safe_event event) (sanitize_fields flds))"

definition safe_observe_request ::
  "('o \<Rightarrow> ('e, unit) act) option \<Rightarrow> 'o \<Rightarrow> ('e, unit) act" where
  "safe_observe_request observer observation =
     contained (case observer of None \<Rightarrow> ret () | Some observe \<Rightarrow> observe observation)"

text \<open>\<^verbatim>\<open>safe_telemetry\<close> wraps a sink once.\<close>

datatype 's telemetry_sink = PlainSink 's | SafeSink 's

fun safe_telemetry :: "'s telemetry_sink \<Rightarrow> 's telemetry_sink" where
  "safe_telemetry (SafeSink s) = SafeSink s"
| "safe_telemetry (PlainSink s) = SafeSink s"

subsection \<open>What reaches the sink\<close>

lemma redacted_mark: "v = JStr (bounded_string REDACTED 2048) \<Longrightarrow> sanitize_telemetry_urls v = v"
proof -
  have "bounded_string REDACTED 2048 = REDACTED" by (simp add: bounded_string_def)
  moreover have "\<not> py_contains ''://'' REDACTED" by code_simp
  ultimately show "v = JStr (bounded_string REDACTED 2048) \<Longrightarrow> sanitize_telemetry_urls v = v" by simp
qed

lemma telemetry_urls_redacted:
  "json_redacted 2048 px v \<Longrightarrow> json_redacted 2048 px (sanitize_telemetry_urls v)"
proof (induction v arbitrary: px rule: sanitize_telemetry_urls.induct)
  case (1 items)
  have "json_redacted 2048 (px \<or> py_contains ''proxy'' (normalize_key k)) (sanitize_telemetry_urls v)"
    if "(k, v) \<in> set items" "length k < 2048" "\<not> is_credential_key (normalize_key k) px" for k v
    using 1(1) [OF that(1) refl] 1(2) that by (auto simp: json_redacted.simps(1))
  moreover have "sanitize_telemetry_urls v = JStr (bounded_string REDACTED 2048)"
    if "(k, v) \<in> set items" "length k < 2048" "is_credential_key (normalize_key k) px" for k v
  proof -
    from 1(2) that have v: "v = JStr (bounded_string REDACTED 2048)" by (auto simp: json_redacted.simps(1))
    from redacted_mark [OF v] v show ?thesis by (rule trans)
  qed
  ultimately show ?case
    by (fastforce simp: json_redacted.simps(1) simp del: sanitize_telemetry_urls.simps(3))
qed auto

text \<open>Every entry of a sanitized dictionary is the truncation mark or comes from an entry of the original.\<close>

lemma sanitize_entries_from:
  "(k', v') \<in> set (fst (sanitize_entries lm px d left es acc n)) \<Longrightarrow>
   (k', v') \<in> set acc \<or> k' = TRUNCATION_KEY \<or>
   (\<exists>k v n. (k, v) \<in> set es \<and> k' = bounded_string k (string_limit lm) \<and> 0 < n \<and>
      (v' = JStr (bounded_string REDACTED (string_limit lm)) \<and> is_credential_key (normalize_key k) px \<or>
       v' = fst (sanitize_node lm (px \<or> py_contains ''proxy'' (normalize_key k)) (d + 1) v n)))"
proof (induction es arbitrary: left acc n)
  case (Cons e es)
  obtain k v where e: "e = (k, v)" by fastforce
  let ?k = "bounded_string k (string_limit lm)"
  show ?case
  proof (cases "n = 0")
    case True
    with Cons(2) e od_set_subset [of TRUNCATION_KEY "JInt (int left)" acc] show ?thesis by auto
  next
    case n: False
    show ?thesis
    proof (cases "is_credential_key (normalize_key k) px")
      case True
      let ?r = "JStr (bounded_string REDACTED (string_limit lm))"
      from Cons(2) e n True obtain n'' where "(k', v') \<in> set (fst (sanitize_entries lm px d (left - 1) es (od_set ?k ?r acc) n''))"
        by (auto simp: Let_def)
      from Cons(1) [OF this] od_set_subset [of ?k ?r acc] consider "(k', v') \<in> set acc" | "k' = ?k \<and> v' = ?r" | "k' = TRUNCATION_KEY"
        | "\<exists>k v n. (k, v) \<in> set es \<and> k' = bounded_string k (string_limit lm) \<and> 0 < n \<and>
      (v' = JStr (bounded_string REDACTED (string_limit lm)) \<and> is_credential_key (normalize_key k) px \<or>
       v' = fst (sanitize_node lm (px \<or> py_contains ''proxy'' (normalize_key k)) (d + 1) v n))" by blast
      then show ?thesis
      proof cases
        case 2
        with True n e show ?thesis by (intro disjI2 exI [of _ k] exI [of _ v] exI [of _ n]) auto
      qed (use e in auto)
    next
      case False
      obtain w n' where w: "sanitize_node lm (px \<or> py_contains ''proxy'' (normalize_key k)) (d + 1) v n = (w, n')" by fastforce
      from Cons(2) e n False w have "(k', v') \<in> set (fst (sanitize_entries lm px d (left - 1) es (od_set ?k w acc) n'))"
        by (simp add: Let_def)
      from Cons(1) [OF this] od_set_subset [of ?k w acc] consider "(k', v') \<in> set acc" | "k' = ?k \<and> v' = w" | "k' = TRUNCATION_KEY"
        | "\<exists>k v n. (k, v) \<in> set es \<and> k' = bounded_string k (string_limit lm) \<and> 0 < n \<and>
      (v' = JStr (bounded_string REDACTED (string_limit lm)) \<and> is_credential_key (normalize_key k) px \<or>
       v' = fst (sanitize_node lm (px \<or> py_contains ''proxy'' (normalize_key k)) (d + 1) v n))" by blast
      then show ?thesis
      proof cases
        case 2
        with w n e show ?thesis by (intro disjI2 exI [of _ k] exI [of _ v] exI [of _ n]) auto
      qed (use e in auto)
    qed
  qed
qed simp

lemma omitted_mark: "0 < n \<Longrightarrow> fst (sanitize_node default_limits px d (JStr OMITTED) n) = JStr OMITTED"
proof -
  assume "0 < n"
  then obtain m where "n = Suc m" by (cases n) auto
  moreover have "sanitize_url OMITTED = OMITTED" by code_simp
  ultimately show ?thesis by (simp add: default_limits_def bounded_string_def OMITTED_def)
qed

lemma sanitize_fields_eq:
  "\<exists>d. sanitize_json_value default_limits (JDict es) = JDict d \<and>
     (\<forall>(k', v') \<in> set d. k' = TRUNCATION_KEY \<or> (\<exists>k v n. (k, v) \<in> set es \<and> k' = bounded_string k 2048 \<and> 0 < n \<and>
        (v' = JStr (bounded_string REDACTED 2048) \<and> is_credential_key (normalize_key k) False \<or>
         v' = fst (sanitize_node default_limits (py_contains ''proxy'' (normalize_key k)) 1 v n))))"
proof -
  let ?sel = "take 100 es"
  obtain san n' where san: "sanitize_entries default_limits False 0 (length es) ?sel [] 499 = (san, n')" by fastforce
  let ?d = "if 100 < length es \<and> map_of san TRUNCATION_KEY = None
    then od_set TRUNCATION_KEY (JInt (int (length es - length ?sel))) san else san"
  have nodes: "nat (max_total_nodes default_limits) = Suc 499" by (simp add: default_limits_def)
  have "sanitize_json_value default_limits (JDict es) = JDict ?d"
  proof -
    have lims: "max_depth default_limits = 16" "max_container_entries default_limits = 100" by (simp_all add: default_limits_def)
    show ?thesis
      unfolding sanitize_json_value_def nodes sanitize_node.simps lims using san by (simp add: Let_def)
  qed
  moreover have "k' = TRUNCATION_KEY \<or> (\<exists>k v n. (k, v) \<in> set es \<and> k' = bounded_string k 2048 \<and> 0 < n \<and>
        (v' = JStr (bounded_string REDACTED 2048) \<and> is_credential_key (normalize_key k) False \<or>
         v' = fst (sanitize_node default_limits (py_contains ''proxy'' (normalize_key k)) 1 v n)))"
    if "(k', v') \<in> set ?d" for k' v'
  proof (cases "(k', v') \<in> set san")
    case True
    have lim: "string_limit default_limits = 2048" by (simp add: default_limits_def)
    from sanitize_entries_from [of k' v' default_limits False 0 "length es" ?sel "[]" 499] True san in_set_takeD [of _ 100 es]
    show ?thesis unfolding lim by (simp add: lim) blast
  next
    case False
    with that od_set_subset [of TRUNCATION_KEY "JInt (int (length es - length ?sel))" san] show ?thesis
      by (auto split: if_splits)
  qed
  ultimately show ?thesis by blast
qed

lemma mark_not_url: "\<not> py_contains ''://'' REDACTED" "\<not> py_contains ''://'' OMITTED"
  by code_simp+

subsection \<open>Properties\<close>

text \<open>
  Telemetry never fails and never leaks.  Emitting calls the sink exactly once, with a valid event
  name and with fields whose credentials are redacted at every depth and whose payload fields (bodies,
  headers and the like) are replaced by a mark; whatever exception the sink raises is swallowed, only a
  cancellation passes.
\<close>

theorem telemetry_contained:
  "\<exists>ev fs. safe_emit sink event flds env = contained (sink ev fs) env \<and>
     snd (safe_emit sink event flds env) = snd (sink ev fs env) \<and>
     (case fst (safe_emit sink event flds env) of Inr _ \<Rightarrow> True | Inl e \<Rightarrow> fst (sink ev fs env) = Inl e \<and> \<not> is_exception e) \<and>
     (event_name_ok ev \<and> length ev \<le> 128) \<and> json_redacted 2048 False (JDict fs) \<and>
     (\<forall>(k, v) \<in> set fs. length k < 2048 \<longrightarrow> telemetry_normalized_key k \<in> set omitted_field_keys \<longrightarrow>
        v = JStr OMITTED \<or> v = JStr REDACTED)"
proof -
  let ?prep = "map (\<lambda>(key, value). (key, if telemetry_normalized_key key \<in> set omitted_field_keys then JStr OMITTED else value)) flds"
  obtain d where d: "sanitize_json_value default_limits (JDict ?prep) = JDict d"
    and origin: "\<forall>(k', v') \<in> set d. k' = TRUNCATION_KEY \<or> (\<exists>k v n. (k, v) \<in> set ?prep \<and> k' = bounded_string k 2048 \<and> 0 < n \<and>
        (v' = JStr (bounded_string REDACTED 2048) \<and> is_credential_key (normalize_key k) False \<or>
         v' = fst (sanitize_node default_limits (py_contains ''proxy'' (normalize_key k)) 1 v n)))"
    using sanitize_fields_eq by blast
  let ?fs = "sanitize_fields flds" and ?ev = "safe_event event"
  have fs: "?fs = map (\<lambda>(key, item). (key, sanitize_telemetry_urls item)) d" by (simp add: sanitize_fields_def d)
  have "json_redacted 2048 False (JDict d)"
    using sanitize_default(1) [of "JDict ?prep"] d by simp
  from telemetry_urls_redacted [OF this] fs have redacted: "json_redacted 2048 False (JDict ?fs)" by simp
  have name: "event_name_ok ?ev \<and> length ?ev \<le> 128"
  proof -
    have "event_name_ok INVALID_EVENT" "length INVALID_EVENT \<le> 128" by code_simp+
    then show ?thesis by (simp add: safe_event_def)
  qed
  have omit: "v = JStr OMITTED \<or> v = JStr REDACTED"
    if kv: "(k, v) \<in> set ?fs" and k: "length k < 2048" "telemetry_normalized_key k \<in> set omitted_field_keys" for k v
  proof -
    obtain v0 where v0: "(k, v0) \<in> set d" "v = sanitize_telemetry_urls v0" using kv fs by auto
    have "telemetry_normalized_key TRUNCATION_KEY \<notin> set omitted_field_keys" by code_simp
    with k(2) have "k \<noteq> TRUNCATION_KEY" by auto
    with origin v0(1) obtain k1 v1 n where 1: "(k1, v1) \<in> set ?prep" "k = bounded_string k1 2048" "0 < n"
      "v0 = JStr (bounded_string REDACTED 2048) \<or> v0 = fst (sanitize_node default_limits (py_contains ''proxy'' (normalize_key k1)) 1 v1 n)"
      by blast
    from bounded_string_short [of k1 2048] 1(2) k(1) have "k1 = k" by simp
    with 1(1) k(2) have "v1 = JStr OMITTED" by auto
    with 1(3,4) omitted_mark have "v0 = JStr (bounded_string REDACTED 2048) \<or> v0 = JStr OMITTED" by auto
    moreover have "bounded_string REDACTED 2048 = REDACTED" by (simp add: bounded_string_def)
    ultimately show ?thesis using v0(2) mark_not_url by auto
  qed
  have run: "safe_emit sink event flds env = contained (sink ?ev ?fs) env" by (simp add: safe_emit_def)
  have "snd (contained m env) = snd (m env) \<and>
      (case fst (contained m env) of Inr _ \<Rightarrow> True | Inl e \<Rightarrow> fst (m env) = Inl e \<and> \<not> is_exception e)" for m
    by (cases "m env"; cases "fst (m env)") (auto simp: contained_def act_defs)
  with run name redacted omit show ?thesis
    by (intro exI [of _ ?ev] exI [of _ ?fs]) (auto simp: json_redacted.simps(1) split: sum.splits)
qed

text \<open>A sink that fails on every event, and an event with a payload.\<close>

definition failing_sink :: "string \<Rightarrow> (string, json) odict \<Rightarrow> (unit, unit) act" where
  "failing_sink event flds = raise (RuntimeErr ''sink'')"

theorem telemetry_contained_witness:
  "fst (safe_emit failing_sink ''Bad Event'' [(''body'', JStr ''secret'')] ()) = Inr () \<and>
   (\<exists>ev fs. safe_emit failing_sink ''Bad Event'' [(''body'', JStr ''secret'')] () = contained (failing_sink ev fs) () \<and>
     event_name_ok ev \<and> json_redacted 2048 False (JDict fs))"
proof -
  have "fst (safe_emit failing_sink ''Bad Event'' [(''body'', JStr ''secret'')] ()) = Inr ()"
    by (simp add: safe_emit_def contained_def failing_sink_def act_defs)
  with telemetry_contained [of failing_sink "''Bad Event''" "[(''body'', JStr ''secret'')]" "()"] show ?thesis by blast
qed

end
