(* ===== verification/Discovery.thy ===== *)
theory Discovery
  imports Effects Regex Urls
begin

section \<open>Sitemap discovery\<close>

text \<open>
  \<^verbatim>\<open>discovery/sitemap.py\<close>.  The transport is a parameter that may answer or raise anything; the log
  holds its calls and the locations the generator yields, newest first.  \<^verbatim>\<open>response.text()\<close> is the
  content, for ASCII documents.  The compiled \<^verbatim>\<open>product_pattern\<close> is the predicate of its \<^verbatim>\<open>search\<close>.
\<close>

text \<open>\<^verbatim>\<open><loc\b[^>]*>\s*(.*?)\s*</loc>\<close>, ignoring case, and \<^verbatim>\<open>^\s*Sitemap\s*:\s*(\S+)\s*$\<close> on each line.\<close>

definition LOC :: rx where
  "LOC = rx_seq [rx_lit ''<loc'', RxBoundary, RxMany (\<lambda>c. c \<noteq> CHR ''>''), rx_lit ''>'', RxMany is_space_char,
     RxGroup 1 (RxLazy (\<lambda>_. True)), RxMany is_space_char, rx_lit ''</loc>'']"

definition SITEMAP_DIRECTIVE :: rx where
  "SITEMAP_DIRECTIVE = rx_seq [RxLineStart, RxMany is_space_char, rx_lit ''sitemap'', RxMany is_space_char,
     rx_lit '':'', RxMany is_space_char, RxGroup 1 (rx_some (Not \<circ> is_space_char)), RxMany is_space_char, RxLineEnd]"

datatype disc_call =
    DiscRequest transport_request "exn + transport_response"
  | DiscYield string

type_synonym ('e, 'a) disc_act = "((disc_call, 'e) world, 'a) act"

definition discovery_request :: "string \<Rightarrow> request_purpose \<Rightarrow> bool \<Rightarrow> nat \<Rightarrow> transport_request" where
  "discovery_request url purpose required estimated_bytes =
     \<lparr>req_method = ''GET'', req_url = url, req_query = [], req_headers = [], req_json_body = None,
      req_body = None, req_purpose = purpose, req_priority = PriorityDiscovery, req_required = required,
      req_estimated_bytes = estimated_bytes, req_cache = CacheDefault, req_browser = BrowserNever,
      req_evaluation = None, req_trace_request_id = None, req_trace_attempt = None\<rparr>"

text \<open>The two exceptions that discovery reports as its own failure.\<close>

definition discovery_failure :: "string \<Rightarrow> exn \<Rightarrow> exn" where
  "discovery_failure prefix e =
     (case e of
        ResponseBodyTooLarge _ _ _ \<Rightarrow> DiscoveryFailure (prefix @ ''ResponseBodyTooLarge'') False
      | TransportFailure _ \<Rightarrow> DiscoveryFailure (prefix @ ''TransportFailure'') True
      | _ \<Rightarrow> e)"

text \<open>The list of \<^verbatim>\<open>urljoin(base, value)\<close>; the first failure ends it.\<close>

fun urljoin_all :: "string \<Rightarrow> string list \<Rightarrow> exn + string list" where
  "urljoin_all base [] = Inr []"
| "urljoin_all base (v # vs) =
     (case urljoin base v of Inl e \<Rightarrow> Inl e
      | Inr u \<Rightarrow> (case urljoin_all base vs of Inl e \<Rightarrow> Inl e | Inr us \<Rightarrow> Inr (u # us)))"

text \<open>\<^verbatim>\<open>dict.fromkeys\<close>: the first occurrence of each key, in order.\<close>

definition py_unique :: "'a list \<Rightarrow> 'a list" where
  "py_unique xs = rev (remdups (rev xs))"

definition advertised_sitemaps ::
  "(transport_request \<Rightarrow> ('e, transport_response) act) \<Rightarrow> string \<Rightarrow> ('e, string list) disc_act" where
  "advertised_sitemaps send base_url =
     bindA (liftA (urlsplit base_url)) (\<lambda>parsed.
       let robots_url = us_scheme parsed @ ''://'' @ us_netloc parsed @ ''/robots.txt'';
           request = discovery_request robots_url PurposeRobots False 100000 in
       bindA (catchA (call (DiscRequest request) (send request))
           (\<lambda>e. raise (discovery_failure ''robots sitemap request failed: '' e))) (\<lambda>response.
         if resp_status response \<ge> 400 then ret []
         else bindA (liftA (urljoin_all robots_url (map py_strip (re_findall SITEMAP_DIRECTIVE None (resp_content response)))))
           (\<lambda>urls. ret (py_unique urls))))"

record sitemap_discovery =
  sd_roots :: "string list"
  sd_product_pattern :: "(string \<Rightarrow> bool) option"
  sd_limit :: int

definition is_sitemap_index :: "string \<Rightarrow> bool" where
  "is_sitemap_index document \<longleftrightarrow> py_contains ''<sitemapindex'' (py_lower document)"

definition document_locations :: "string \<Rightarrow> string \<Rightarrow> exn + string list" where
  "document_locations url document = urljoin_all url (map py_strip (re_findall LOC None document))"

definition product_matches :: "sitemap_discovery \<Rightarrow> string \<Rightarrow> bool" where
  "product_matches d location = (case sd_product_pattern d of None \<Rightarrow> True | Some p \<Rightarrow> p location)"

text \<open>The inner loop: yield what is new and matches.\<close>

fun yield_locations :: "sitemap_discovery \<Rightarrow> string list \<Rightarrow> string list \<Rightarrow> ('e, string list) disc_act" where
  "yield_locations d [] emitted = ret emitted"
| "yield_locations d (location # locations) emitted =
     (if location \<notin> set emitted \<and> product_matches d location
      then thenA (record_call (DiscYield location)) (yield_locations d locations (location # emitted))
      else yield_locations d locations emitted)"

text \<open>Fetch one sitemap: its document, or the failure.\<close>

definition fetch_sitemap ::
  "(transport_request \<Rightarrow> ('e, transport_response) act) \<Rightarrow> string \<Rightarrow> ('e, string) disc_act" where
  "fetch_sitemap send url =
     (let request = discovery_request url PurposeDiscovery True 500000 in
      bindA (catchA (call (DiscRequest request) (send request))
          (\<lambda>e. raise (discovery_failure ''sitemap request failed: '' e))) (\<lambda>response.
        if resp_status response \<ge> 400
        then raise (DiscoveryFailure (''sitemap request failed with status '' @ nat_str (resp_status response)) True)
        else ret (resp_content response)))"

function discover_loop ::
  "sitemap_discovery \<Rightarrow> (transport_request \<Rightarrow> ('e, transport_response) act) \<Rightarrow> string list \<Rightarrow> string list \<Rightarrow> string list \<Rightarrow>
   ('e, unit) disc_act" where
  "discover_loop d send [] seen emitted = ret ()"
| "discover_loop d send (url # queue) seen emitted =
     (if url \<in> set seen then discover_loop d send queue seen emitted
      else if int (length seen) \<ge> sd_limit d
      then raise (DiscoveryFailure (''sitemap traversal limit '' @ int_str (sd_limit d) @ '' reached'') True)
      else bindA (fetch_sitemap send url) (\<lambda>document.
        bindA (liftA (document_locations url document)) (\<lambda>locations.
          if is_sitemap_index document then discover_loop d send (queue @ locations) (url # seen) emitted
          else bindA (yield_locations d locations emitted) (\<lambda>emitted'.
            discover_loop d send queue (url # seen) emitted'))))"
  by pat_completeness auto
termination
  by (relation "(\<lambda>(d, send, queue, seen, emitted). nat (sd_limit d - int (length seen))) <*mlex*>
      measure (\<lambda>(d, send, queue, seen, emitted). length queue)")
    (auto simp: mlex_prod_def wf_mlex)

definition discover ::
  "sitemap_discovery \<Rightarrow> (transport_request \<Rightarrow> ('e, transport_response) act) \<Rightarrow> string \<Rightarrow> ('e, unit) disc_act" where
  "discover d send base_url =
     bindA (liftA (urljoin_all base_url (sd_roots d))) (\<lambda>queue. discover_loop d send queue [] [])"

subsection \<open>What a traversal did\<close>

definition visited :: "disc_call list \<Rightarrow> string list" where
  "visited cs = concat (map (\<lambda>c. case c of DiscRequest q _ \<Rightarrow> [req_url q] | DiscYield _ \<Rightarrow> []) cs)"

definition yielded :: "disc_call list \<Rightarrow> string list" where
  "yielded cs = concat (map (\<lambda>c. case c of DiscRequest q _ \<Rightarrow> [] | DiscYield l \<Rightarrow> [l]) cs)"

lemma visited_simps [simp]:
  "visited [] = []" "visited (DiscRequest q r # cs) = req_url q # visited cs" "visited (map DiscYield ls @ cs) = visited cs"
  by (induction ls) (auto simp: visited_def)

lemma yielded_simps [simp]:
  "yielded [] = []" "yielded (DiscRequest q r # cs) = yielded cs" "yielded (map DiscYield ls @ cs) = ls @ yielded cs"
  by (induction ls) (auto simp: yielded_def)

text \<open>A document was fetched from a URL; a location stands in a sitemap index, or in a leaf sitemap.\<close>

definition fetched :: "disc_call list \<Rightarrow> string \<Rightarrow> string \<Rightarrow> bool" where
  "fetched cs u document \<longleftrightarrow> (\<exists>q resp. DiscRequest q (Inr resp) \<in> set cs \<and> req_url q = u \<and>
     resp_status resp < 400 \<and> resp_content resp = document)"

definition listed :: "disc_call list \<Rightarrow> bool \<Rightarrow> string \<Rightarrow> bool" where
  "listed cs index l \<longleftrightarrow> (\<exists>u document locations. fetched cs u document \<and> is_sitemap_index document = index \<and>
     document_locations u document = Inr locations \<and> l \<in> set locations)"

lemma fetched_mono: "fetched cs u doc \<Longrightarrow> set cs \<subseteq> set cs' \<Longrightarrow> fetched cs' u doc"
  by (auto simp: fetched_def)

lemma listed_mono: "listed cs i l \<Longrightarrow> set cs \<subseteq> set cs' \<Longrightarrow> listed cs' i l"
  unfolding listed_def using fetched_mono by blast

lemma listed_yield [simp]: "listed (map DiscYield ls @ cs) = listed cs"
  by (intro ext) (auto simp: listed_def fetched_def)

text \<open>What holds at every moment, and the invariant of the loop.\<close>

definition disc_safe :: "sitemap_discovery \<Rightarrow> string list \<Rightarrow> disc_call list \<Rightarrow> bool" where
  "disc_safe d roots cs \<longleftrightarrow> distinct (visited cs) \<and> int (length (visited cs)) \<le> max 0 (sd_limit d) \<and>
     (\<forall>u \<in> set (visited cs). u \<in> set roots \<or> listed cs True u) \<and>
     distinct (yielded cs) \<and> (\<forall>l \<in> set (yielded cs). product_matches d l \<and> listed cs False l)"

definition disc_inv ::
  "sitemap_discovery \<Rightarrow> string list \<Rightarrow> string list \<Rightarrow> string list \<Rightarrow> string list \<Rightarrow> disc_call list \<Rightarrow> bool" where
  "disc_inv d roots queue seen emitted cs \<longleftrightarrow> disc_safe d roots cs \<and> visited cs = seen \<and> yielded cs = emitted \<and>
     (\<forall>u \<in> set queue. u \<in> set roots \<or> listed cs True u) \<and> set roots \<subseteq> set seen \<union> set queue \<and>
     (\<forall>u. listed cs True u \<longrightarrow> u \<in> set seen \<union> set queue) \<and>
     (\<forall>l. listed cs False l \<longrightarrow> product_matches d l \<longrightarrow> l \<in> set emitted)"

lemma yield_locations_run:
  "distinct emitted \<Longrightarrow> \<exists>new. yield_locations d locations emitted w = (Inr (new @ emitted), w\<lparr>w_log := map DiscYield new @ w_log w\<rparr>) \<and>
     distinct (new @ emitted) \<and> (\<forall>l \<in> set new. product_matches d l \<and> l \<in> set locations) \<and>
     (\<forall>l \<in> set locations. product_matches d l \<longrightarrow> l \<in> set (new @ emitted))"
proof (induction locations arbitrary: emitted w)
  case (Cons l ls)
  show ?case
  proof (cases "l \<notin> set emitted \<and> product_matches d l")
    case True
    let ?w = "w\<lparr>w_log := DiscYield l # w_log w\<rparr>"
    from Cons(1) [of "l # emitted" ?w] Cons(2) True obtain new where
      new: "yield_locations d ls (l # emitted) ?w = (Inr (new @ l # emitted), ?w\<lparr>w_log := map DiscYield new @ w_log ?w\<rparr>)"
      "distinct (new @ l # emitted)" "\<forall>x \<in> set new. product_matches d x \<and> x \<in> set ls"
      "\<forall>x \<in> set ls. product_matches d x \<longrightarrow> x \<in> set (new @ l # emitted)" by auto
    then show ?thesis using True
      by (intro exI [of _ "new @ [l]"]) (auto simp: thenA_def bindA_def record_call_def)
  next
    case False
    from Cons(1) [OF Cons(2), of w] obtain new where
      "yield_locations d ls emitted w = (Inr (new @ emitted), w\<lparr>w_log := map DiscYield new @ w_log w\<rparr>)"
      "distinct (new @ emitted)" "\<forall>x \<in> set new. product_matches d x \<and> x \<in> set ls"
      "\<forall>x \<in> set ls. product_matches d x \<longrightarrow> x \<in> set (new @ emitted)" by blast
    with False show ?thesis by (intro exI [of _ new]) auto
  qed
qed (simp add: ret_def)

lemma listed_request:
  "listed (DiscRequest q r # cs) i l \<longleftrightarrow> listed cs i l \<or> (\<exists>resp locations. r = Inr resp \<and> resp_status resp < 400 \<and>
     is_sitemap_index (resp_content resp) = i \<and> document_locations (req_url q) (resp_content resp) = Inr locations \<and> l \<in> set locations)"
  by (auto simp: listed_def fetched_def)

lemma disc_safe_request:
  assumes "disc_inv d roots (url # queue) seen emitted cs" "url \<notin> set seen" "int (length seen) < sd_limit d" "req_url q = url"
  shows "disc_safe d roots (DiscRequest q r # cs)"
  using assms unfolding disc_inv_def disc_safe_def by (auto simp: listed_request)

lemma disc_inv_index:
  assumes "disc_inv d roots (url # queue) seen emitted cs" "url \<notin> set seen" "int (length seen) < sd_limit d" "req_url q = url"
    and "resp_status resp < 400" "document_locations url (resp_content resp) = Inr locations" "is_sitemap_index (resp_content resp)"
  shows "disc_inv d roots (queue @ locations) (url # seen) emitted (DiscRequest q (Inr resp) # cs)"
proof -
  from disc_safe_request [OF assms(1-4)] have "disc_safe d roots (DiscRequest q (Inr resp) # cs)" .
  with assms show ?thesis unfolding disc_inv_def by (auto simp: listed_request)
qed

lemma disc_inv_leaf:
  assumes "disc_inv d roots (url # queue) seen emitted cs" "url \<notin> set seen" "int (length seen) < sd_limit d" "req_url q = url"
    and "resp_status resp < 400" "document_locations url (resp_content resp) = Inr locations" "\<not> is_sitemap_index (resp_content resp)"
    and "distinct (new @ emitted)" "\<forall>l \<in> set new. product_matches d l \<and> l \<in> set locations"
    and "\<forall>l \<in> set locations. product_matches d l \<longrightarrow> l \<in> set (new @ emitted)"
  shows "disc_inv d roots queue (url # seen) (new @ emitted) (map DiscYield new @ DiscRequest q (Inr resp) # cs)"
proof -
  from disc_safe_request [OF assms(1-4)] have "disc_safe d roots (DiscRequest q (Inr resp) # cs)" .
  with assms show ?thesis unfolding disc_inv_def disc_safe_def by (auto simp: listed_request)
qed

lemma fetch_sitemap_run:
  assumes "fetch_sitemap send url w = (r, w')"
  shows "\<exists>q a. w_log w' = DiscRequest q a # w_log w \<and> req_url q = url \<and>
    (case r of Inl _ \<Rightarrow> True | Inr document \<Rightarrow> \<exists>resp. a = Inr resp \<and> resp_status resp < 400 \<and> document = resp_content resp)"
  using assms
  by (auto simp: fetch_sitemap_def discovery_request_def act_defs call_def Let_def split: prod.splits sum.splits if_splits)

lemma discover_loop_inv:
  assumes "discover_loop d send queue seen emitted w = (r, w')" "disc_inv d roots queue seen emitted (w_log w)"
  shows "disc_safe d roots (w_log w') \<and> (r = Inr () \<longrightarrow> (\<exists>seen emitted. disc_inv d roots [] seen emitted (w_log w')))"
  using assms
proof (induction d send queue seen emitted arbitrary: w rule: discover_loop.induct)
  case (1 d send seen emitted)
  then show ?case by (auto simp: ret_def disc_inv_def)
next
  case (2 d send url queue seen emitted)
  consider (seen) "url \<in> set seen" | (limit) "url \<notin> set seen" "int (length seen) \<ge> sd_limit d"
    | (fetch) "url \<notin> set seen" "int (length seen) < sd_limit d" by linarith
  then show ?case
  proof cases
    case seen
    with 2(4,5) 2(1) [OF seen, of w] show ?thesis by (auto simp: disc_inv_def)
  next
    case limit
    with 2(4,5) show ?thesis by (auto simp: raise_def disc_inv_def)
  next
    case fetch
    obtain f w1 where f: "fetch_sitemap send url w = (f, w1)" by fastforce
    from fetch_sitemap_run [OF f] obtain q a where q: "w_log w1 = DiscRequest q a # w_log w" "req_url q = url"
      "case f of Inl _ \<Rightarrow> True | Inr document \<Rightarrow> \<exists>resp. a = Inr resp \<and> resp_status resp < 400 \<and> document = resp_content resp"
      by blast
    have safe: "disc_safe d roots (w_log w1)" using disc_safe_request [OF 2(5) fetch q(2)] q(1) by simp
    show ?thesis
    proof (cases "\<exists>document locations. f = Inr document \<and> document_locations url document = Inr locations")
      case False
      with 2(4) fetch f safe show ?thesis
        by (cases f; cases "document_locations url (projr f)") (auto simp: bindA_def liftA_def)
    next
      case True
      then obtain document locations where doc: "f = Inr document" "document_locations url document = Inr locations" by blast
      with q(3) obtain resp where resp: "a = Inr resp" "resp_status resp < 400" "document = resp_content resp" by auto
      show ?thesis
      proof (cases "is_sitemap_index document")
        case idx: True
        have "disc_inv d roots (queue @ locations) (url # seen) emitted (w_log w1)"
          using disc_inv_index [OF 2(5) fetch q(2) resp(2)] doc(2) idx resp q(1) by simp
        moreover have "discover_loop d send (queue @ locations) (url # seen) emitted w1 = (r, w')"
          using 2(4) fetch f doc idx by (simp add: bindA_def liftA_def)
        ultimately show ?thesis using 2(2) [of document locations w1] fetch idx unfolding linorder_not_le by blast
      next
        case leaf: False
        have "distinct emitted" using 2(5) by (auto simp: disc_inv_def disc_safe_def)
        from yield_locations_run [OF this, of d locations w1] obtain new where
          new: "yield_locations d locations emitted w1 = (Inr (new @ emitted), w1\<lparr>w_log := map DiscYield new @ w_log w1\<rparr>)"
            "distinct (new @ emitted)" "\<forall>l \<in> set new. product_matches d l \<and> l \<in> set locations"
            "\<forall>l \<in> set locations. product_matches d l \<longrightarrow> l \<in> set (new @ emitted)" by blast
        let ?w2 = "w1\<lparr>w_log := map DiscYield new @ w_log w1\<rparr>"
        have "disc_inv d roots queue (url # seen) (new @ emitted) (w_log ?w2)"
          using disc_inv_leaf [OF 2(5) fetch q(2) resp(2) _ _ new(2-4)] doc(2) leaf resp q(1) by simp
        moreover have "discover_loop d send queue (url # seen) (new @ emitted) ?w2 = (r, w')"
          using 2(4) fetch f doc leaf new(1) by (simp add: bindA_def liftA_def)
        ultimately show ?thesis using 2(3) [of document "new @ emitted" ?w2] fetch leaf unfolding linorder_not_le by blast
      qed
    qed
  qed
qed

lemma discover_run:
  assumes "discover d send base_url w = (r, w')" "w_log w = []" "urljoin_all base_url (sd_roots d) = Inr roots"
  shows "disc_safe d roots (w_log w') \<and> (r = Inr () \<longrightarrow> (\<exists>seen emitted. disc_inv d roots [] seen emitted (w_log w')))"
proof -
  have "\<not> listed [] i l" for i l by (simp add: listed_def fetched_def)
  then have "disc_inv d roots roots [] [] (w_log w)" using assms(2) by (auto simp: disc_inv_def disc_safe_def)
  moreover have "discover_loop d send roots [] [] w = (r, w')" using assms(1,3) by (simp add: discover_def bindA_def liftA_def)
  ultimately show ?thesis by (rule discover_loop_inv [rotated])
qed

subsection \<open>Properties\<close>

text \<open>
  C26. A traversal ends and stays within its limit.  However the transport answers, even if sitemaps refer
  to each other in cycles, the traversal returns or raises after at most \<^verbatim>\<open>limit\<close> requests; it requests
  no URL twice and none that is neither a root nor listed in a fetched sitemap index, and it yields no
  location twice and only matching locations of fetched leaf sitemaps.
\<close>

theorem sitemap_traversal_ends:
  assumes "urljoin_all base_url (sd_roots d) = Inr roots"
  shows "\<exists>r cs env'. discover d send base_url \<lparr>w_env = env, w_log = []\<rparr> = (r, \<lparr>w_env = env', w_log = cs\<rparr>) \<and>
    distinct (visited cs) \<and> length (visited cs) \<le> nat (sd_limit d) \<and>
    (\<forall>u \<in> set (visited cs). u \<in> set roots \<or> listed cs True u) \<and>
    distinct (yielded cs) \<and> (\<forall>l \<in> set (yielded cs). product_matches d l \<and> listed cs False l)"
proof -
  let ?w = "\<lparr>w_env = env, w_log = []\<rparr>"
  obtain r w' where run: "discover d send base_url ?w = (r, w')" by fastforce
  from discover_run [OF run _ assms] show ?thesis
    using run by (intro exI [of _ r] exI [of _ "w_log w'"] exI [of _ "w_env w'"]) (auto simp: disc_safe_def)
qed

text \<open>
  C27. A traversal that returns is complete: every root and every location listed in a fetched sitemap
  index was requested, and the yielded locations are exactly the matching locations of the fetched leaf
  sitemaps.
\<close>

theorem sitemap_complete:
  assumes "urljoin_all base_url (sd_roots d) = Inr roots"
    and "discover d send base_url \<lparr>w_env = env, w_log = []\<rparr> = (Inr (), w')"
  shows "set (visited (w_log w')) = set roots \<union> {u. listed (w_log w') True u} \<and>
    set (yielded (w_log w')) = {l. listed (w_log w') False l \<and> product_matches d l}"
proof -
  from discover_run [OF assms(2) _ assms(1)] obtain seen emitted where
    inv: "disc_inv d roots [] seen emitted (w_log w')" by auto
  then have "visited (w_log w') = seen" "yielded (w_log w') = emitted" "set roots \<subseteq> set seen"
    "\<forall>u. listed (w_log w') True u \<longrightarrow> u \<in> set seen" "\<forall>l. listed (w_log w') False l \<longrightarrow> product_matches d l \<longrightarrow> l \<in> set emitted"
    "\<forall>u \<in> set seen. u \<in> set roots \<or> listed (w_log w') True u"
    "\<forall>l \<in> set emitted. product_matches d l \<and> listed (w_log w') False l"
    by (auto simp: disc_inv_def disc_safe_def)
  then show ?thesis by auto
qed

subsection \<open>Witnesses\<close>

definition leaf_sitemap :: string where
  "leaf_sitemap = ''<urlset><loc> /a </loc></urlset>''"

definition sample_discovery :: sitemap_discovery where
  "sample_discovery = \<lparr>sd_roots = [''/s.xml''], sd_product_pattern = None, sd_limit = 3\<rparr>"

definition leaf_transport :: "transport_request \<Rightarrow> (unit, transport_response) act" where
  "leaf_transport q = ret \<lparr>resp_status = 200, resp_headers = [], resp_content = leaf_sitemap, resp_final_url = req_url q,
     resp_route = route_default, resp_from_cache = False, resp_elapsed_seconds = 0, resp_accounting = None\<rparr>"

lemma sample_roots: "urljoin_all ''http://s.x'' (sd_roots sample_discovery) = Inr [''http://s.x/s.xml'']"
  by code_simp

lemma sample_locations:
  "document_locations ''http://s.x/s.xml'' leaf_sitemap = Inr [''http://s.x/a'']" "\<not> is_sitemap_index leaf_sitemap"
  by code_simp+

lemma sample_traversal:
  "fst (discover sample_discovery leaf_transport ''http://s.x'' \<lparr>w_env = (), w_log = []\<rparr>) = Inr () \<and>
   yielded (w_log (snd (discover sample_discovery leaf_transport ''http://s.x'' \<lparr>w_env = (), w_log = []\<rparr>))) = [''http://s.x/a'']"
  unfolding discover_def sample_roots
  by (simp add: act_defs fetch_sitemap_def call_def record_call_def sample_locations leaf_transport_def sample_discovery_def
      product_matches_def yielded_def Let_def)

theorem sitemap_traversal_ends_witness:
  "length (visited (w_log (snd (discover sample_discovery leaf_transport ''http://s.x'' \<lparr>w_env = (), w_log = []\<rparr>)))) \<le> 3"
proof -
  from sitemap_traversal_ends [OF sample_roots, of leaf_transport "()"] show ?thesis
    by (auto simp: sample_discovery_def)
qed

theorem sitemap_complete_witness:
  "{l. listed (w_log (snd (discover sample_discovery leaf_transport ''http://s.x'' \<lparr>w_env = (), w_log = []\<rparr>))) False l \<and>
     product_matches sample_discovery l} = {''http://s.x/a''}"
proof -
  obtain w' where run: "discover sample_discovery leaf_transport ''http://s.x'' \<lparr>w_env = (), w_log = []\<rparr> = (Inr (), w')"
    using sample_traversal by (metis prod.collapse)
  from sitemap_complete [OF sample_roots run] sample_traversal show ?thesis unfolding run by simp
qed

end
