(* ===== verification/Commerce_Models.thy ===== *)
theory Commerce_Models
  imports Sanitization
begin

section \<open>Commerce entities\<close>

text \<open>
  \<^verbatim>\<open>models/commerce.py\<close>: the contract models as records, their validation as functions that return the
  validated value or the \<^verbatim>\<open>ValidationError\<close> (a \<^verbatim>\<open>ValueError\<close>), and \<^verbatim>\<open>sanitize_commerce_snapshot\<close>.
  Instants are numbers, a \<^verbatim>\<open>Decimal\<close> is a finite or non-finite number.
\<close>

subsection \<open>Validation results\<close>

definition res_bind :: "exn + 'a \<Rightarrow> ('a \<Rightarrow> exn + 'b) \<Rightarrow> exn + 'b" where
  "res_bind r f = (case r of Inl e \<Rightarrow> Inl e | Inr x \<Rightarrow> f x)"

fun res_all :: "('a \<Rightarrow> exn + 'b) \<Rightarrow> 'a list \<Rightarrow> exn + 'b list" where
  "res_all f [] = Inr []"
| "res_all f (x # xs) = res_bind (f x) (\<lambda>y. res_bind (res_all f xs) (\<lambda>ys. Inr (y # ys)))"

definition res_opt :: "('a \<Rightarrow> exn + 'b) \<Rightarrow> 'a option \<Rightarrow> exn + 'b option" where
  "res_opt f x = (case x of None \<Rightarrow> Inr None | Some y \<Rightarrow> res_bind (f y) (\<lambda>z. Inr (Some z)))"

definition res_guard :: "bool \<Rightarrow> string \<Rightarrow> exn + unit" where
  "res_guard ok message = (if ok then Inr () else Inl (ValueError message))"

lemma res_bind_Inr: "res_bind r f = Inr y \<longleftrightarrow> (\<exists>x. r = Inr x \<and> f x = Inr y)"
  by (cases r) (auto simp: res_bind_def)

lemma res_guard_Inr: "res_guard ok m = Inr u \<longleftrightarrow> ok"
  by (simp add: res_guard_def)

lemma res_opt_Inr: "res_opt f x = Inr y \<longleftrightarrow> (case x of None \<Rightarrow> y = None | Some a \<Rightarrow> \<exists>b. f a = Inr b \<and> y = Some b)"
  by (auto simp: res_opt_def res_bind_def split: option.split sum.split)

lemma res_all_Inr: "res_all f xs = Inr ys \<longleftrightarrow> list_all2 (\<lambda>x y. f x = Inr y) xs ys"
  by (induction xs arbitrary: ys) (auto simp: res_bind_Inr list_all2_Cons1)

lemmas res_Inr = res_bind_Inr res_guard_Inr res_opt_Inr res_all_Inr

subsection \<open>Enumerations\<close>

datatype availability = InStock | LimitedStock | OutOfStock | Backorder | Preorder | Discontinued | UnknownAvailability

datatype stock_quantity_kind = ExactQuantity | LowerBound | UpperBound | OrderLimit | UnknownQuantity

datatype evidence_method = ByApi | ByJsonld | ByMicrodata | ByOpengraph | ByHtml | ByCartCeiling | ByBrowser

datatype confidence = Published | Verified | Derived

datatype offer_role = RegularOffer | SaleOffer | MemberOffer | QuantityTier

datatype vat_status = VatInclusive | VatExclusive | VatUnknown

subsection \<open>Constrained strings\<close>

definition non_empty :: "string \<Rightarrow> exn + string" where
  "non_empty s = (let t = py_strip s in res_bind (res_guard (t \<noteq> []) ''String should have at least 1 character'') (\<lambda>_. Inr t))"

definition currency_code :: "string \<Rightarrow> exn + string" where
  "currency_code s = res_bind (res_guard (length s = 3 \<and> list_all is_upper_char s) ''String should match pattern'') (\<lambda>_. Inr s)"

subsection \<open>Money, evidence and references\<close>

record money =
  amount :: pyfloat
  currency :: string

definition decimal_within :: "(rat \<Rightarrow> bool) \<Rightarrow> pyfloat \<Rightarrow> bool" where
  "decimal_within p d = (case d of PFin r \<Rightarrow> p r | _ \<Rightarrow> False)"

definition money_validate :: "money \<Rightarrow> exn + money" where
  "money_validate m =
     res_bind (res_guard (decimal_within (\<lambda>r. 0 \<le> r) (amount m)) ''money amount must be finite'') (\<lambda>_.
     res_bind (currency_code (currency m)) (\<lambda>_. Inr m))"

record evidence =
  ev_method :: evidence_method
  ev_source_url :: string
  ev_source_field :: "string option"
  ev_observed_at :: int
  ev_confidence :: confidence

definition evidence_validate :: "evidence \<Rightarrow> exn + evidence" where
  "evidence_validate e =
     res_bind (non_empty (ev_source_url e)) (\<lambda>url.
     res_bind (res_opt non_empty (ev_source_field e)) (\<lambda>field.
     Inr (e\<lparr>ev_source_url := url, ev_source_field := field\<rparr>)))"

definition evidence_list :: "evidence list \<Rightarrow> exn + evidence list" where
  "evidence_list es =
     res_bind (res_all evidence_validate es) (\<lambda>vs.
     res_bind (res_guard (vs \<noteq> []) ''Tuple should have at least 1 item'') (\<lambda>_. Inr vs))"

record category_ref =
  cat_name :: string
  cat_external_id :: "string option"
  cat_url :: "string option"

definition category_validate :: "category_ref \<Rightarrow> exn + category_ref" where
  "category_validate c =
     res_bind (non_empty (cat_name c)) (\<lambda>name.
     res_bind (res_opt non_empty (cat_external_id c)) (\<lambda>external_id.
     res_bind (res_opt non_empty (cat_url c)) (\<lambda>url.
     Inr (c\<lparr>cat_name := name, cat_external_id := external_id, cat_url := url\<rparr>))))"

record media_ref =
  media_url :: string
  media_type :: "string option"
  media_alt_text :: "string option"
  media_external_id :: "string option"

definition media_validate :: "media_ref \<Rightarrow> exn + media_ref" where
  "media_validate m =
     res_bind (non_empty (media_url m)) (\<lambda>url.
     res_bind (res_opt non_empty (media_type m)) (\<lambda>type.
     res_bind (res_opt non_empty (media_external_id m)) (\<lambda>external_id.
     Inr (m\<lparr>media_url := url, media_type := type, media_external_id := external_id\<rparr>))))"

record document_ref =
  doc_url :: string
  doc_observed_at :: int
  doc_evidence :: "evidence list"
  doc_title :: "string option"
  doc_media_type :: "string option"
  doc_external_id :: "string option"

definition document_validate :: "document_ref \<Rightarrow> exn + document_ref" where
  "document_validate d =
     res_bind (non_empty (doc_url d)) (\<lambda>url.
     res_bind (evidence_list (doc_evidence d)) (\<lambda>es.
     res_bind (res_opt non_empty (doc_media_type d)) (\<lambda>type.
     res_bind (res_opt non_empty (doc_external_id d)) (\<lambda>external_id.
     Inr (d\<lparr>doc_url := url, doc_evidence := es, doc_media_type := type, doc_external_id := external_id\<rparr>)))))"

subsection \<open>Stock and offers\<close>

record stock_state =
  st_availability :: availability
  st_quantity :: "int option"
  st_quantity_kind :: stock_quantity_kind
  st_observed_at :: int
  st_evidence :: "evidence list"

definition quantity_and_kind_agree :: "stock_state \<Rightarrow> bool" where
  "quantity_and_kind_agree s \<longleftrightarrow> (st_quantity s = None) = (st_quantity_kind s = UnknownQuantity)"

definition stock_validate :: "stock_state \<Rightarrow> exn + stock_state" where
  "stock_validate s =
     res_bind (res_guard (case st_quantity s of None \<Rightarrow> True | Some q \<Rightarrow> 0 \<le> q) ''Input should be greater than or equal to 0'') (\<lambda>_.
     res_bind (evidence_list (st_evidence s)) (\<lambda>es.
     res_bind (res_guard (quantity_and_kind_agree s) ''quantity is present exactly when quantity_kind is known'') (\<lambda>_.
     Inr (s\<lparr>st_evidence := es\<rparr>))))"

record commerce_offer =
  of_price :: money
  of_observed_at :: int
  of_evidence :: "evidence list"
  of_role :: offer_role
  of_vat_status :: vat_status
  of_vat_rate :: "pyfloat option"
  of_minimum_quantity :: "pyfloat option"
  of_unit :: "string option"
  of_pack_size :: "pyfloat option"
  of_valid_from :: "int option"
  of_valid_until :: "int option"
  of_seller_id :: "string option"
  of_seller_name :: "string option"
  of_availability :: "availability option"
  of_availability_evidence :: "evidence list"

definition decimal_field :: "(rat \<Rightarrow> bool) \<Rightarrow> pyfloat option \<Rightarrow> exn + unit" where
  "decimal_field p d = res_guard (case d of None \<Rightarrow> True | Some v \<Rightarrow> decimal_within p v) ''Input is out of range''"

text \<open>\<^verbatim>\<open>validate_offer\<close>.\<close>

definition validate_offer :: "commerce_offer \<Rightarrow> exn + unit" where
  "validate_offer offer =
     res_bind (res_guard (case (of_valid_from offer, of_valid_until offer) of (Some a, Some b) \<Rightarrow> a \<le> b | _ \<Rightarrow> True)
       ''offer valid_until cannot precede valid_from'') (\<lambda>_.
     res_guard (of_availability offer = None \<or> of_availability_evidence offer \<noteq> [])
       ''published offer availability requires evidence'')"

definition offer_validate :: "commerce_offer \<Rightarrow> exn + commerce_offer" where
  "offer_validate offer =
     res_bind (money_validate (of_price offer)) (\<lambda>price.
     res_bind (evidence_list (of_evidence offer)) (\<lambda>es.
     res_bind (decimal_field (\<lambda>r. 0 \<le> r \<and> r \<le> 1) (of_vat_rate offer)) (\<lambda>_.
     res_bind (decimal_field (\<lambda>r. 0 < r) (of_minimum_quantity offer)) (\<lambda>_.
     res_bind (res_opt non_empty (of_unit offer)) (\<lambda>unit.
     res_bind (decimal_field (\<lambda>r. 0 < r) (of_pack_size offer)) (\<lambda>_.
     res_bind (res_opt non_empty (of_seller_id offer)) (\<lambda>seller_id.
     res_bind (res_opt non_empty (of_seller_name offer)) (\<lambda>seller_name.
     res_bind (res_all evidence_validate (of_availability_evidence offer)) (\<lambda>aes.
     let validated = offer\<lparr>of_price := price, of_evidence := es, of_unit := unit, of_seller_id := seller_id,
       of_seller_name := seller_name, of_availability_evidence := aes\<rparr> in
     res_bind (validate_offer validated) (\<lambda>_. Inr validated))))))))))"

subsection \<open>Variants and snapshots\<close>

record commerce_variant =
  va_external_id :: string
  va_is_default :: bool
  va_canonical_url :: "string option"
  va_title :: "string option"
  va_sku :: "string option"
  va_gtin :: "string option"
  va_image :: "media_ref option"
  va_options :: "(string, string) odict"
  va_offers :: "commerce_offer list"
  va_stock :: "stock_state option"
  va_published_attributes :: "(string, json) odict"
  va_platform_extensions :: "(string, json) odict"

text \<open>
  The validator of \<^verbatim>\<open>platform_extensions\<close> runs before the field is checked to be a dictionary; the
  sanitizer of a dictionary gives a dictionary as long as the depth limit is not zero.
\<close>

definition sanitize_platform_extensions :: "(string, json) odict \<Rightarrow> exn + (string, json) odict" where
  "sanitize_platform_extensions value =
     (case sanitize_json_value default_limits (JDict value) of JDict d \<Rightarrow> Inr d
      | _ \<Rightarrow> Inl (ValueError ''Input should be a valid dictionary''))"

definition variant_validate :: "commerce_variant \<Rightarrow> exn + commerce_variant" where
  "variant_validate v =
     res_bind (non_empty (va_external_id v)) (\<lambda>external_id.
     res_bind (res_opt non_empty (va_canonical_url v)) (\<lambda>url.
     res_bind (res_opt media_validate (va_image v)) (\<lambda>image.
     res_bind (res_all offer_validate (va_offers v)) (\<lambda>offers.
     res_bind (res_opt stock_validate (va_stock v)) (\<lambda>stock.
     res_bind (sanitize_platform_extensions (va_platform_extensions v)) (\<lambda>extensions.
     Inr (v\<lparr>va_external_id := external_id, va_canonical_url := url, va_image := image, va_offers := offers,
       va_stock := stock, va_platform_extensions := extensions\<rparr>)))))))"

record commerce_snapshot =
  cs_connector :: string
  cs_source_id :: string
  cs_external_id :: string
  cs_canonical_url :: string
  cs_title :: string
  cs_observed_at :: int
  cs_description :: "string option"
  cs_vendor :: "string option"
  cs_categories :: "category_ref list"
  cs_images :: "media_ref list"
  cs_documents :: "document_ref list"
  cs_variants :: "commerce_variant list"
  cs_source_updated_at :: "int option"
  cs_published_attributes :: "(string, json) odict"
  cs_platform_extensions :: "(string, json) odict"

definition snapshot_validate :: "commerce_snapshot \<Rightarrow> exn + commerce_snapshot" where
  "snapshot_validate s =
     res_bind (non_empty (cs_connector s)) (\<lambda>connector.
     res_bind (non_empty (cs_source_id s)) (\<lambda>source_id.
     res_bind (non_empty (cs_external_id s)) (\<lambda>external_id.
     res_bind (non_empty (cs_canonical_url s)) (\<lambda>url.
     res_bind (non_empty (cs_title s)) (\<lambda>title.
     res_bind (res_all category_validate (cs_categories s)) (\<lambda>categories.
     res_bind (res_all media_validate (cs_images s)) (\<lambda>images.
     res_bind (res_all document_validate (cs_documents s)) (\<lambda>documents.
     res_bind (res_all variant_validate (cs_variants s)) (\<lambda>variants.
     res_bind (sanitize_platform_extensions (cs_platform_extensions s)) (\<lambda>extensions.
     Inr (s\<lparr>cs_connector := connector, cs_source_id := source_id, cs_external_id := external_id, cs_canonical_url := url,
       cs_title := title, cs_categories := categories, cs_images := images, cs_documents := documents,
       cs_variants := variants, cs_platform_extensions := extensions\<rparr>)))))))))))"

text \<open>
  \<^verbatim>\<open>sanitize_commerce_snapshot\<close>.  \<^verbatim>\<open>model_copy\<close> does not validate, so the sanitized extensions are taken
  as they are.
\<close>

definition sanitized_extensions :: "(string, json) odict \<Rightarrow> (string, json) odict" where
  "sanitized_extensions value = (case sanitize_json_value default_limits (JDict value) of JDict d \<Rightarrow> d | _ \<Rightarrow> [])"

definition sanitize_variant :: "commerce_variant \<Rightarrow> commerce_variant" where
  "sanitize_variant v = v\<lparr>va_platform_extensions := sanitized_extensions (va_platform_extensions v)\<rparr>"

definition sanitize_commerce_snapshot :: "commerce_snapshot \<Rightarrow> commerce_snapshot" where
  "sanitize_commerce_snapshot s =
     s\<lparr>cs_variants := map sanitize_variant (cs_variants s),
       cs_platform_extensions := sanitized_extensions (cs_platform_extensions s)\<rparr>"

subsection \<open>Well-formed entities\<close>

definition stripped :: "string \<Rightarrow> bool" where
  "stripped s \<longleftrightarrow> s \<noteq> [] \<and> py_strip s = s"

definition opt_ok :: "('a \<Rightarrow> bool) \<Rightarrow> 'a option \<Rightarrow> bool" where
  "opt_ok p x = (case x of None \<Rightarrow> True | Some y \<Rightarrow> p y)"

definition money_ok :: "money \<Rightarrow> bool" where
  "money_ok m \<longleftrightarrow> (\<exists>r \<ge> 0. amount m = PFin r) \<and> length (currency m) = 3 \<and> list_all is_upper_char (currency m)"

definition evidence_ok :: "evidence \<Rightarrow> bool" where
  "evidence_ok e \<longleftrightarrow> stripped (ev_source_url e) \<and> opt_ok stripped (ev_source_field e)"

definition evidences_ok :: "evidence list \<Rightarrow> bool" where
  "evidences_ok es \<longleftrightarrow> es \<noteq> [] \<and> list_all evidence_ok es"

definition category_ok :: "category_ref \<Rightarrow> bool" where
  "category_ok c \<longleftrightarrow> stripped (cat_name c) \<and> opt_ok stripped (cat_external_id c) \<and> opt_ok stripped (cat_url c)"

definition media_ok :: "media_ref \<Rightarrow> bool" where
  "media_ok m \<longleftrightarrow> stripped (media_url m) \<and> opt_ok stripped (media_type m) \<and> opt_ok stripped (media_external_id m)"

definition document_ok :: "document_ref \<Rightarrow> bool" where
  "document_ok d \<longleftrightarrow> stripped (doc_url d) \<and> evidences_ok (doc_evidence d) \<and> opt_ok stripped (doc_media_type d) \<and>
     opt_ok stripped (doc_external_id d)"

definition stock_ok :: "stock_state \<Rightarrow> bool" where
  "stock_ok s \<longleftrightarrow> opt_ok (\<lambda>q. 0 \<le> q) (st_quantity s) \<and> evidences_ok (st_evidence s) \<and> quantity_and_kind_agree s"

definition offer_ok :: "commerce_offer \<Rightarrow> bool" where
  "offer_ok f \<longleftrightarrow> money_ok (of_price f) \<and> evidences_ok (of_evidence f) \<and>
     opt_ok (decimal_within (\<lambda>r. 0 \<le> r \<and> r \<le> 1)) (of_vat_rate f) \<and>
     opt_ok (decimal_within (\<lambda>r. 0 < r)) (of_minimum_quantity f) \<and> opt_ok (decimal_within (\<lambda>r. 0 < r)) (of_pack_size f) \<and>
     (\<forall>a b. of_valid_from f = Some a \<longrightarrow> of_valid_until f = Some b \<longrightarrow> a \<le> b) \<and>
     (of_availability f \<noteq> None \<longrightarrow> evidences_ok (of_availability_evidence f))"

definition extensions_ok :: "(string, json) odict \<Rightarrow> bool" where
  "extensions_ok d \<longleftrightarrow> json_redacted 2048 False (JDict d) \<and> json_within 16 101 2048 (JDict d)"

definition variant_ok :: "commerce_variant \<Rightarrow> bool" where
  "variant_ok v \<longleftrightarrow> stripped (va_external_id v) \<and> opt_ok stripped (va_canonical_url v) \<and> opt_ok media_ok (va_image v) \<and>
     list_all offer_ok (va_offers v) \<and> opt_ok stock_ok (va_stock v) \<and> extensions_ok (va_platform_extensions v)"

definition snapshot_ok :: "commerce_snapshot \<Rightarrow> bool" where
  "snapshot_ok s \<longleftrightarrow> list_all stripped [cs_connector s, cs_source_id s, cs_external_id s, cs_canonical_url s, cs_title s] \<and>
     list_all category_ok (cs_categories s) \<and> list_all media_ok (cs_images s) \<and> list_all document_ok (cs_documents s) \<and>
     list_all variant_ok (cs_variants s) \<and> extensions_ok (cs_platform_extensions s)"

lemma res_opt_ok: "res_opt f x = Inr y \<Longrightarrow> (\<And>a b. f a = Inr b \<Longrightarrow> p b) \<Longrightarrow> opt_ok p y"
  by (auto simp: res_opt_Inr opt_ok_def split: option.splits)

lemma res_all_ok: "res_all f xs = Inr ys \<Longrightarrow> (\<And>a b. f a = Inr b \<Longrightarrow> p b) \<Longrightarrow> list_all p ys"
  by (auto simp: res_all_Inr list_all2_conv_all_nth list_all_length)

lemma non_empty_ok: "non_empty s = Inr t \<Longrightarrow> stripped t"
  by (auto simp: non_empty_def res_Inr stripped_def Let_def)

lemma money_typed: "money_validate m = Inr m' \<Longrightarrow> money_ok m'"
  by (auto simp: money_validate_def currency_code_def res_Inr money_ok_def decimal_within_def split: pyfloat.splits)

lemma evidence_typed: "evidence_validate e = Inr e' \<Longrightarrow> evidence_ok e'"
  by (auto simp: evidence_validate_def res_bind_Inr evidence_ok_def intro: non_empty_ok res_opt_ok)

lemma evidences_typed: "evidence_list es = Inr es' \<Longrightarrow> evidences_ok es'"
  by (auto simp: evidence_list_def res_bind_Inr res_guard_Inr evidences_ok_def intro: res_all_ok evidence_typed)

lemma category_typed: "category_validate c = Inr c' \<Longrightarrow> category_ok c'"
  by (auto simp: category_validate_def res_bind_Inr category_ok_def intro: non_empty_ok res_opt_ok)

lemma media_typed: "media_validate m = Inr m' \<Longrightarrow> media_ok m'"
  by (auto simp: media_validate_def res_bind_Inr media_ok_def intro: non_empty_ok res_opt_ok)

lemma document_typed: "document_validate d = Inr d' \<Longrightarrow> document_ok d'"
  by (auto simp: document_validate_def res_bind_Inr document_ok_def intro: non_empty_ok res_opt_ok evidences_typed)

lemma stock_typed: "stock_validate s = Inr s' \<Longrightarrow> stock_ok s'"
  by (auto simp: stock_validate_def res_bind_Inr res_guard_Inr stock_ok_def opt_ok_def quantity_and_kind_agree_def
      intro: evidences_typed)

lemma decimal_field_ok: "decimal_field p d = Inr u \<Longrightarrow> opt_ok (decimal_within p) d"
  by (auto simp: decimal_field_def res_guard_Inr opt_ok_def)

lemma offer_typed: "offer_validate f = Inr f' \<Longrightarrow> offer_ok f'"
  by (auto simp: offer_validate_def validate_offer_def res_bind_Inr res_guard_Inr offer_ok_def evidences_ok_def Let_def
      intro: money_typed evidences_typed [unfolded evidences_ok_def, THEN conjunct1] decimal_field_ok
      dest!: evidences_typed dest: res_all_ok [OF _ evidence_typed])

lemma extensions_typed: "sanitize_platform_extensions d = Inr d' \<Longrightarrow> extensions_ok d'"
  using sanitize_default [of "JDict d"] by (auto simp: sanitize_platform_extensions_def extensions_ok_def split: json.splits)

lemma variant_typed: "variant_validate v = Inr v' \<Longrightarrow> variant_ok v'"
  by (auto simp: variant_validate_def res_bind_Inr variant_ok_def
      intro: non_empty_ok res_opt_ok res_all_ok media_typed offer_typed stock_typed extensions_typed)

lemma extensions_sanitized: "extensions_ok (sanitized_extensions d)"
  using sanitize_default [of "JDict d"] sanitize_default_dict [of d] by (auto simp: sanitized_extensions_def extensions_ok_def)

subsection \<open>Properties\<close>


text \<open>
  Reapplying the sanitizer makes the extensions of any snapshot and of all its variants safe, even
  of one built without validation; it changes nothing else, and keeps a well-formed snapshot well formed.
\<close>

theorem snapshot_sanitized:
  "extensions_ok (cs_platform_extensions (sanitize_commerce_snapshot s)) \<and>
   list_all (\<lambda>v. extensions_ok (va_platform_extensions v)) (cs_variants (sanitize_commerce_snapshot s)) \<and>
   (sanitize_commerce_snapshot s)\<lparr>cs_variants := cs_variants s, cs_platform_extensions := cs_platform_extensions s\<rparr> = s \<and>
   map (\<lambda>v. v\<lparr>va_platform_extensions := []\<rparr>) (cs_variants (sanitize_commerce_snapshot s)) =
     map (\<lambda>v. v\<lparr>va_platform_extensions := []\<rparr>) (cs_variants s) \<and>
   (snapshot_ok s \<longrightarrow> snapshot_ok (sanitize_commerce_snapshot s))"
  by (auto simp: sanitize_commerce_snapshot_def sanitize_variant_def snapshot_ok_def variant_ok_def list_all_iff extensions_sanitized)

subsection \<open>Witnesses\<close>

definition sample_evidence :: evidence where
  "sample_evidence = \<lparr>ev_method = ByApi, ev_source_url = '' https://shop.example/p '', ev_source_field = None, ev_observed_at = 0,
     ev_confidence = Published\<rparr>"

definition sample_snapshot :: commerce_snapshot where
  "sample_snapshot = \<lparr>cs_connector = ''shopify'', cs_source_id = ''s'', cs_external_id = ''1'', cs_canonical_url = ''https://shop.example/p'',
     cs_title = '' Clay '', cs_observed_at = 0, cs_description = None, cs_vendor = None, cs_categories = [], cs_images = [],
     cs_documents = [\<lparr>doc_url = ''d'', doc_observed_at = 0, doc_evidence = [sample_evidence], doc_title = None, doc_media_type = None,
       doc_external_id = None\<rparr>],
     cs_variants = [], cs_source_updated_at = None, cs_published_attributes = [], cs_platform_extensions = []\<rparr>"

lemma sample_snapshot_valid: "\<exists>s. snapshot_validate sample_snapshot = Inr s \<and> cs_title s = ''Clay''"
proof -
  obtain d where "sanitize_platform_extensions [] = Inr d"
    using sanitize_default_dict [of "[]"] by (auto simp: sanitize_platform_extensions_def)
  moreover have "py_strip '' Clay '' = ''Clay''" "py_strip ''shopify'' = ''shopify''" "py_strip ''s'' = ''s''" "py_strip ''1'' = ''1''"
    "py_strip ''d'' = ''d''" "py_strip ''https://shop.example/p'' = ''https://shop.example/p''"
    "py_strip '' https://shop.example/p '' = ''https://shop.example/p''" by code_simp+
  ultimately show ?thesis
    by (simp add: snapshot_validate_def sample_snapshot_def sample_evidence_def res_bind_def non_empty_def res_guard_def Let_def
        document_validate_def evidence_list_def evidence_validate_def res_opt_def)
qed


theorem snapshot_sanitized_witness:
  "\<exists>s. snapshot_validate sample_snapshot = Inr s \<and> snapshot_ok (sanitize_commerce_snapshot s)"
proof -
  obtain s where s: "snapshot_validate sample_snapshot = Inr s" using sample_snapshot_valid by blast
  then have "snapshot_ok s"
    by (auto simp: snapshot_validate_def res_bind_Inr snapshot_ok_def
        intro: non_empty_ok res_all_ok category_typed media_typed document_typed variant_typed extensions_typed)
  with s snapshot_sanitized [of s] show ?thesis by blast
qed

end
