(* ===== verification/Collection_Models.thy ===== *)
theory Collection_Models
  imports Commerce_Models
begin

section \<open>Collections, pages and diagnostics\<close>

text \<open>
  \<^verbatim>\<open>models/collection.py\<close>, \<^verbatim>\<open>models/diagnostics.py\<close>, \<^verbatim>\<open>connectors/planning.py\<close> and the capabilities of
  \<^verbatim>\<open>connectors/base.py\<close>.  A frozen set is a set, a deadline is an instant.
\<close>

datatype snapshot_field =
  FieldIdentity | FieldDescription | FieldCategories | FieldImages | FieldVariants | FieldOffers | FieldStock | FieldDocuments
  | FieldPublishedAttributes | FieldPlatformExtensions

fun snapshot_field_value :: "snapshot_field \<Rightarrow> string" where
  "snapshot_field_value FieldIdentity = ''identity''"
| "snapshot_field_value FieldDescription = ''description''"
| "snapshot_field_value FieldCategories = ''categories''"
| "snapshot_field_value FieldImages = ''images''"
| "snapshot_field_value FieldVariants = ''variants''"
| "snapshot_field_value FieldOffers = ''offers''"
| "snapshot_field_value FieldStock = ''stock''"
| "snapshot_field_value FieldDocuments = ''documents''"
| "snapshot_field_value FieldPublishedAttributes = ''published_attributes''"
| "snapshot_field_value FieldPlatformExtensions = ''platform_extensions''"

datatype refresh_mode = FullRefresh | IncrementalRefresh

fun refresh_mode_value :: "refresh_mode \<Rightarrow> string" where
  "refresh_mode_value FullRefresh = ''full''"
| "refresh_mode_value IncrementalRefresh = ''incremental''"

record source_definition =
  sd_id :: string
  sd_label :: string
  sd_base_url :: string
  sd_connector :: string
  sd_connector_options :: "(string, json) odict"

definition http_url :: "string \<Rightarrow> bool" where
  "http_url s \<longleftrightarrow> py_startswith s ''http://'' \<or> py_startswith s ''https://''"

definition source_validate :: "source_definition \<Rightarrow> exn + source_definition" where
  "source_validate s =
     res_bind (res_guard (sd_id s \<noteq> [] \<and> sd_label s \<noteq> [] \<and> sd_connector s \<noteq> []) ''String should have at least 1 character'') (\<lambda>_.
     res_bind (res_guard (http_url (sd_base_url s)) ''String should match pattern'') (\<lambda>_. Inr s))"

record collection_request =
  cq_source_id :: string
  cq_base_url :: string
  cq_refresh_mode :: refresh_mode
  cq_requested_fields :: "snapshot_field set"
  cq_result_limit :: "int option"
  cq_partitions :: "string list"
  cq_deadline :: "int option"

definition collection_request_validate :: "collection_request \<Rightarrow> exn + collection_request" where
  "collection_request_validate r =
     res_bind (res_guard (cq_source_id r \<noteq> []) ''String should have at least 1 character'') (\<lambda>_.
     res_bind (res_guard (http_url (cq_base_url r)) ''String should match pattern'') (\<lambda>_.
     res_bind (res_guard (case cq_result_limit r of None \<Rightarrow> True | Some n \<Rightarrow> 1 \<le> n) ''Input should be greater than or equal to 1'')
       (\<lambda>_. Inr r)))"

subsection \<open>Diagnostics\<close>

datatype diagnostic_code =
  ResultLimitReached | RequestBudgetExhausted | EnumerationIncomplete | EntityFetchFailed | ParserUnsupported | BrowserIsRequired
  | RateLimitedCode | ProxyBudgetExhaustedCode | OptionalEnrichmentSkipped | SchemaChanged | CheckpointInvalid

datatype diagnostic_severity = SeverityInfo | SeverityWarning | SeverityError

record diagnostic =
  dg_code :: diagnostic_code
  dg_severity :: diagnostic_severity
  dg_message :: string
  dg_retryable :: bool
  dg_affects_completeness :: bool
  dg_url :: "string option"
  dg_entity_id :: "string option"
  dg_metadata :: "(string, json) odict"

definition sanitize_message :: "string \<Rightarrow> exn + string" where
  "sanitize_message value = sanitize_diagnostic_text value 2048"

definition sanitize_diagnostic_url :: "string \<Rightarrow> exn + string" where
  "sanitize_diagnostic_url value = sanitize_diagnostic_text (sanitize_url value) 2048"

text \<open>The sanitizing validators run before the fields are checked.\<close>

definition diagnostic_validate :: "diagnostic \<Rightarrow> exn + diagnostic" where
  "diagnostic_validate d =
     res_bind (sanitize_message (dg_message d)) (\<lambda>message.
     res_bind (res_guard (message \<noteq> [] \<and> length message \<le> 2048) ''String should have at least 1 character'') (\<lambda>_.
     res_bind (res_opt sanitize_diagnostic_url (dg_url d)) (\<lambda>url.
     res_bind (res_opt sanitize_message (dg_entity_id d)) (\<lambda>entity_id.
     res_bind (sanitize_platform_extensions (dg_metadata d)) (\<lambda>metadata.
     Inr (d\<lparr>dg_message := message, dg_url := url, dg_entity_id := entity_id, dg_metadata := metadata\<rparr>))))))"

definition sanitize_diagnostic :: "diagnostic \<Rightarrow> exn + diagnostic" where
  "sanitize_diagnostic d = diagnostic_validate d"

definition result_limit_diagnostic :: "int \<Rightarrow> string \<Rightarrow> exn + diagnostic" where
  "result_limit_diagnostic maximum url = diagnostic_validate
     \<lparr>dg_code = ResultLimitReached, dg_severity = SeverityInfo, dg_message = ''caller result limit '' @ int_str maximum @ '' reached'',
      dg_retryable = True, dg_affects_completeness = True, dg_url = Some url, dg_entity_id = None, dg_metadata = []\<rparr>"

fun priority_name :: "request_priority \<Rightarrow> string" where
  "priority_name PriorityDiscovery = ''discovery''"
| "priority_name PriorityIdentity = ''identity''"
| "priority_name PriorityDatasetRequired = ''dataset_required''"
| "priority_name PriorityDetail = ''detail''"
| "priority_name PriorityOptional = ''optional''"

definition budget_diagnostic :: "request_priority \<Rightarrow> string \<Rightarrow> exn + diagnostic" where
  "budget_diagnostic priority url = diagnostic_validate
     \<lparr>dg_code = RequestBudgetExhausted, dg_severity = SeverityError,
      dg_message = ''request budget cannot fund required '' @ priority_name priority @ '' work'',
      dg_retryable = True, dg_affects_completeness = True, dg_url = Some url, dg_entity_id = None, dg_metadata = []\<rparr>"

definition required_detail_priority :: "snapshot_field set \<Rightarrow> snapshot_field set \<Rightarrow> request_priority" where
  "required_detail_priority requested supplied =
     (if requested \<inter> supplied \<noteq> {} then PriorityDatasetRequired else PriorityDetail)"

subsection \<open>Pages\<close>

record 'i entity_page =
  pg_page_id :: string
  pg_partition_key :: string
  pg_sequence :: int
  pg_items :: "'i list"
  pg_resume_after :: "json option"
  pg_terminal :: bool
  pg_partition_terminal :: bool
  pg_enumeration_intact :: bool
  pg_discovered :: int
  pg_diagnostics :: "diagnostic list"

text \<open>\<^verbatim>\<open>EntityPage.valid_state\<close>.\<close>

definition page_valid_state :: "'i entity_page \<Rightarrow> exn + 'i entity_page" where
  "page_valid_state p =
     (if pg_terminal p \<and> pg_enumeration_intact p \<and> pg_resume_after p \<noteq> None
        then Inl (ValueError ''a successful terminal page cannot have a resume cursor'')
      else if pg_partition_terminal p \<and> \<not> pg_terminal p \<and> pg_resume_after p = None
        then Inl (ValueError ''an intermediate partition terminal requires a resume cursor'')
      else if \<not> pg_enumeration_intact p \<and> \<not> pg_terminal p
        then Inl (ValueError ''an incomplete enumeration must be terminal'')
      else if \<not> pg_enumeration_intact p \<and> \<not> list_ex dg_affects_completeness (pg_diagnostics p)
        then Inl (ValueError ''an incomplete enumeration requires a completeness diagnostic'')
      else if pg_discovered p < int (length (pg_items p))
        then Inl (ValueError ''discovered cannot be smaller than emitted items'')
      else Inr p)"

definition page_validate :: "'i entity_page \<Rightarrow> exn + 'i entity_page" where
  "page_validate p =
     res_bind (res_guard (pg_page_id p \<noteq> [] \<and> pg_partition_key p \<noteq> []) ''String should have at least 1 character'') (\<lambda>_.
     res_bind (res_guard (0 \<le> pg_sequence p \<and> 0 \<le> pg_discovered p) ''Input should be greater than or equal to 0'') (\<lambda>_.
     page_valid_state p))"

subsection \<open>Capabilities\<close>

datatype browser_requirement = RequirementNever | RequirementOptional | RequirementRequired

record connector_capabilities =
  cc_snapshot_fields :: "snapshot_field set"
  cc_refresh_modes :: "refresh_mode set"
  cc_stock_kinds :: "stock_quantity_kind set"
  cc_supports_incremental_cursor :: bool
  cc_supports_category_filter :: bool
  cc_supports_documents :: bool
  cc_browser :: browser_requirement
  cc_shared_edge :: "string option"

definition capabilities_consistent :: "connector_capabilities \<Rightarrow> exn + connector_capabilities" where
  "capabilities_consistent c =
     (if cc_supports_incremental_cursor c \<and> IncrementalRefresh \<notin> cc_refresh_modes c
        then Inl (ValueError ''incremental cursor support requires incremental refresh mode'')
      else if cc_supports_documents c \<and> FieldDocuments \<notin> cc_snapshot_fields c
        then Inl (ValueError ''document support requires the documents field'')
      else if cc_stock_kinds c \<noteq> {} \<and> FieldStock \<notin> cc_snapshot_fields c
        then Inl (ValueError ''stock kinds require the stock field'')
      else (case cc_shared_edge c of None \<Rightarrow> Inr c
        | Some edge \<Rightarrow> if py_strip edge = [] \<or> edge \<noteq> py_strip edge
            then Inl (ValueError ''shared edge must be a non-empty normalized name'') else Inr c))"

definition capabilities_support :: "connector_capabilities \<Rightarrow> snapshot_field set \<Rightarrow> refresh_mode \<Rightarrow> bool" where
  "capabilities_support c flds mode \<longleftrightarrow> flds \<subseteq> cc_snapshot_fields c \<and> mode \<in> cc_refresh_modes c"

fun stock_kind_value :: "stock_quantity_kind \<Rightarrow> string" where
  "stock_kind_value ExactQuantity = ''exact''"
| "stock_kind_value LowerBound = ''lower_bound''"
| "stock_kind_value UpperBound = ''upper_bound''"
| "stock_kind_value OrderLimit = ''order_limit''"
| "stock_kind_value UnknownQuantity = ''unknown''"

definition named_capabilities :: "connector_capabilities \<Rightarrow> string set" where
  "named_capabilities c =
     (if cc_supports_incremental_cursor c then {''incremental_cursor''} else {}) \<union>
     (if cc_supports_category_filter c then {''category_filter''} else {}) \<union>
     (if cc_supports_documents c then {''documents''} else {}) \<union>
     (\<lambda>k. ''stock:'' @ stock_kind_value k) ` cc_stock_kinds c \<union>
     (case cc_shared_edge c of None \<Rightarrow> {} | Some edge \<Rightarrow> if edge = [] then {} else {''shared_edge:'' @ edge})"

subsection \<open>Properties\<close>

text \<open>What a page means for a consumer: it goes on, it is done, or it stopped early.\<close>

datatype page_state = PageContinues | PageDone | PageIncomplete

definition page_state :: "'i entity_page \<Rightarrow> page_state" where
  "page_state p =
     (if \<not> pg_terminal p then PageContinues else if pg_enumeration_intact p then PageDone else PageIncomplete)"

text \<open>
  A valid page has an unambiguous state.  A page that is done has no cursor to resume from; a page
  that ends a partition but not the collection has one; an incomplete enumeration ends the collection and
  carries a diagnostic that says so; and no page counts fewer discovered entities than it emits.  Exactly
  these pages, with their identifiers and counters in range, are accepted.
\<close>

theorem page_states:
  "page_validate p = Inr p' \<longleftrightarrow> p' = p \<and> pg_page_id p \<noteq> [] \<and> pg_partition_key p \<noteq> [] \<and> 0 \<le> pg_sequence p \<and>
     int (length (pg_items p)) \<le> pg_discovered p \<and>
     (case page_state p of
        PageContinues \<Rightarrow> pg_enumeration_intact p \<and> (pg_partition_terminal p \<longrightarrow> pg_resume_after p \<noteq> None)
      | PageDone \<Rightarrow> pg_resume_after p = None
      | PageIncomplete \<Rightarrow> (\<exists>d \<in> set (pg_diagnostics p). dg_affects_completeness d))"
  by (auto simp: page_validate_def res_bind_Inr res_guard_Inr page_valid_state_def page_state_def list_ex_iff
      split: if_splits)

theorem page_states_witness:
  "page_validate \<lparr>pg_page_id = ''a'', pg_partition_key = ''main'', pg_sequence = 0, pg_items = [True], pg_resume_after = None,
     pg_terminal = True, pg_partition_terminal = False, pg_enumeration_intact = True, pg_discovered = 1, pg_diagnostics = []\<rparr> =
   Inr \<lparr>pg_page_id = ''a'', pg_partition_key = ''main'', pg_sequence = 0, pg_items = [True], pg_resume_after = None,
     pg_terminal = True, pg_partition_terminal = False, pg_enumeration_intact = True, pg_discovered = 1, pg_diagnostics = []\<rparr>"
  unfolding page_states by (simp add: page_state_def)

text \<open>
  Diagnostics are bounded and hold no credentials in their metadata: a validated diagnostic has a
  non-empty message of at most 2048 characters, a URL and an entity identifier within the same bound, and
  sanitized metadata; its code, severity and flags are those that were given.
\<close>

theorem diagnostic_safe:
  assumes "diagnostic_validate d = Inr d'"
  shows "dg_message d' \<noteq> [] \<and> length (dg_message d') \<le> 2048 \<and> opt_ok (\<lambda>u. length u \<le> 2048) (dg_url d') \<and>
    opt_ok (\<lambda>u. length u \<le> 2048) (dg_entity_id d') \<and> extensions_ok (dg_metadata d') \<and>
    dg_code d' = dg_code d \<and> dg_severity d' = dg_severity d \<and> dg_retryable d' = dg_retryable d \<and>
    dg_affects_completeness d' = dg_affects_completeness d"
proof -
  have msg: "sanitize_message s = Inr t \<Longrightarrow> length t \<le> 2048" for s t
    by (auto simp: sanitize_message_def sanitize_diagnostic_text_def bounded_string_length Let_def)
  then have "sanitize_diagnostic_url s = Inr t \<Longrightarrow> length t \<le> 2048" for s t
    by (simp add: sanitize_message_def sanitize_diagnostic_url_def)
  with msg show ?thesis
    using assms
    by (auto simp: diagnostic_validate_def res_bind_Inr res_guard_Inr intro: res_opt_ok extensions_typed)
qed

theorem diagnostic_safe_witness:
  "\<exists>d. diagnostic_validate \<lparr>dg_code = SchemaChanged, dg_severity = SeverityInfo, dg_message = ''m'', dg_retryable = True,
     dg_affects_completeness = False, dg_url = None, dg_entity_id = None, dg_metadata = []\<rparr> = Inr d \<and> length (dg_message d) \<le> 2048"
proof -
  obtain e where e: "sanitize_platform_extensions [] = Inr e"
    using sanitize_default_dict [of "[]"] by (auto simp: sanitize_platform_extensions_def)
  have m: "sanitize_message ''m'' = Inr ''m''" by code_simp
  let ?d = "\<lparr>dg_code = SchemaChanged, dg_severity = SeverityInfo, dg_message = ''m'', dg_retryable = True,
     dg_affects_completeness = False, dg_url = None, dg_entity_id = None, dg_metadata = []\<rparr>"
  have "diagnostic_validate ?d = Inr (?d\<lparr>dg_metadata := e\<rparr>)"
    by (simp add: diagnostic_validate_def m e res_bind_def res_guard_def res_opt_def)
  with diagnostic_safe [OF this] show ?thesis by blast
qed

end
