(* ===== verification/Sha256.thy ===== *)
theory Sha256
  imports Prelude "HOL-Library.Word"
begin

section \<open>SHA-256\<close>

text \<open>
  \<^verbatim>\<open>hashlib.sha256(data).hexdigest()\<close> of the standard library (FIPS 180-4), on bytes as characters.
  The cache keys and the fingerprints of collections are such digests.
\<close>

unbundle bit_operations_syntax

type_synonym word32 = "32 word"

definition sha_constants :: "word32 list" where
  "sha_constants = [
     1116352408, 1899447441, 3049323471, 3921009573, 961987163, 1508970993, 2453635748, 2870763221,
     3624381080, 310598401, 607225278, 1426881987, 1925078388, 2162078206, 2614888103, 3248222580,
     3835390401, 4022224774, 264347078, 604807628, 770255983, 1249150122, 1555081692, 1996064986,
     2554220882, 2821834349, 2952996808, 3210313671, 3336571891, 3584528711, 113926993, 338241895,
     666307205, 773529912, 1294757372, 1396182291, 1695183700, 1986661051, 2177026350, 2456956037,
     2730485921, 2820302411, 3259730800, 3345764771, 3516065817, 3600352804, 4094571909, 275423344,
     430227734, 506948616, 659060556, 883997877, 958139571, 1322822218, 1537002063, 1747873779,
     1955562222, 2024104815, 2227730452, 2361852424, 2428436474, 2756734187, 3204031479, 3329325298]"

definition sha_initial :: "word32 list" where
  "sha_initial = [1779033703, 3144134277, 1013904242, 2773480762, 1359893119, 2600822924, 528734635, 1541459225]"

definition rotr32 :: "nat \<Rightarrow> word32 \<Rightarrow> word32" where
  "rotr32 n w = drop_bit n w OR push_bit (32 - n) w"

text \<open>The message, a one bit, zeros and the length in bits as eight bytes fill whole blocks.\<close>

definition length_bytes :: "nat \<Rightarrow> word32 list" where
  "length_bytes n = map (\<lambda>k. of_nat (n div 256 ^ k mod 256)) (rev [0..<8])"

definition sha_padding :: "string \<Rightarrow> word32 list" where
  "sha_padding s =
     map (\<lambda>c. of_nat (code_of c)) s @ [0x80] @ replicate ((119 - length s mod 64) mod 64) 0 @ length_bytes (8 * length s)"

fun sha_words :: "word32 list \<Rightarrow> word32 list" where
  "sha_words (a # b # c # d # bs) =
     (push_bit 24 a OR push_bit 16 b OR push_bit 8 c OR d) # sha_words bs"
| "sha_words _ = []"

text \<open>The schedule, newest word first, and one round.\<close>

definition sha_next :: "word32 list \<Rightarrow> word32" where
  "sha_next ws =
     (let x = ws ! 14; y = ws ! 1;
          s0 = rotr32 7 x XOR rotr32 18 x XOR drop_bit 3 x;
          s1 = rotr32 17 y XOR rotr32 19 y XOR drop_bit 10 y
      in ws ! 15 + s0 + ws ! 6 + s1)"

definition sha_schedule :: "word32 list \<Rightarrow> word32 list" where
  "sha_schedule block = rev (((\<lambda>ws. sha_next ws # ws) ^^ 48) (rev block))"

fun sha_round :: "word32 list \<Rightarrow> word32 \<times> word32 \<Rightarrow> word32 list" where
  "sha_round [a, b, c, d, e, f, g, h] (k, w) =
     (let s1 = rotr32 6 e XOR rotr32 11 e XOR rotr32 25 e;
          ch = (e AND f) XOR (NOT e AND g);
          t1 = h + s1 + ch + k + w;
          s0 = rotr32 2 a XOR rotr32 13 a XOR rotr32 22 a;
          maj = (a AND b) XOR (a AND c) XOR (b AND c)
      in [t1 + (s0 + maj), a, b, c, d + t1, e, f, g])"
| "sha_round hs _ = hs"

definition sha_block :: "word32 list \<Rightarrow> word32 list \<Rightarrow> word32 list" where
  "sha_block hs block = map2 (+) hs (foldl sha_round hs (zip sha_constants (sha_schedule block)))"

function sha_blocks :: "word32 list \<Rightarrow> word32 list \<Rightarrow> word32 list" where
  "sha_blocks hs ws = (if ws = [] then hs else sha_blocks (sha_block hs (take 16 ws)) (drop 16 ws))"
  by auto
termination by (relation "measure (length \<circ> snd)") auto

declare sha_blocks.simps [simp del]

definition hex_lower :: "nat \<Rightarrow> char" where
  "hex_lower v = char_of (if v < 10 then 48 + v else 87 + v)"

definition hex_word :: "word32 \<Rightarrow> string" where
  "hex_word w = map (\<lambda>k. hex_lower (unat (drop_bit (4 * k) w AND 15))) (rev [0..<8])"

definition sha256_hex :: "string \<Rightarrow> string" where
  "sha256_hex s = concat (map hex_word (sha_blocks sha_initial (sha_words (sha_padding s))))"

subsection \<open>The form of a digest\<close>

definition is_lower_hex :: "char \<Rightarrow> bool" where
  "is_lower_hex c \<longleftrightarrow> is_digit_char c \<or> 97 \<le> code_of c \<and> code_of c \<le> 102"

definition is_digest :: "string \<Rightarrow> bool" where
  "is_digest s \<longleftrightarrow> length s = 64 \<and> list_all is_lower_hex s"

lemma sha_round_length: "length (sha_round hs kw) = length hs"
  by (induction hs kw rule: sha_round.induct) (auto simp: Let_def)

lemma sha_rounds_length: "length (foldl sha_round hs kws) = length hs"
  by (induction kws arbitrary: hs) (auto simp: sha_round_length)

lemma sha_blocks_length: "length (sha_blocks hs ws) = length hs"
proof (induction hs ws rule: sha_blocks.induct)
  case (1 hs ws)
  then show ?case by (subst sha_blocks.simps) (simp add: sha_block_def sha_rounds_length)
qed

lemma hex_lower_hex: "v < 16 \<Longrightarrow> is_lower_hex (hex_lower v)"
  by (auto simp: hex_lower_def is_lower_hex_def is_digit_char_def code_of_def)

lemma hex_word_digest: "length (hex_word w) = 8" "list_all is_lower_hex (hex_word w)"
proof -
  have "unat (v AND 15) < 16" for v :: word32
  proof -
    have "v AND 15 \<le> 15" by (rule word_and_le1)
    then have "unat (v AND 15) \<le> unat (15 :: word32)" by (rule word_le_nat_alt [THEN iffD1])
    then show ?thesis by simp
  qed
  then show "length (hex_word w) = 8" "list_all is_lower_hex (hex_word w)"
    by (auto simp: hex_word_def list_all_iff intro!: hex_lower_hex)
qed

lemma sha256_digest: "is_digest (sha256_hex s)"
proof -
  let ?ws = "sha_blocks sha_initial (sha_words (sha_padding s))"
  have "length (concat (map hex_word ws)) = 8 * length ws" "list_all is_lower_hex (concat (map hex_word ws))" for ws
    by (induction ws) (auto simp: hex_word_digest)
  moreover have "length ?ws = 8" by (simp add: sha_blocks_length sha_initial_def)
  ultimately show ?thesis by (simp add: is_digest_def sha256_hex_def)
qed

end
