(* ===== verification/Json_Text.thy ===== *)
theory Json_Text
  imports Request_Size Sha256 "HOL-Library.List_Lexorder" "HOL-Library.Char_ord" "HOL-Library.Product_Lexorder"
begin

section \<open>Canonical JSON text\<close>

text \<open>
  \<^verbatim>\<open>json.dumps(value, sort_keys=True, separators=(",", ":"))\<close> and \<^verbatim>\<open>json.loads\<close> of the standard library,
  on ASCII strings.  A float is its \<^verbatim>\<open>repr\<close>; reading a number with a fraction or an exponent gives the
  \<^verbatim>\<open>repr\<close> of the float it denotes, which is the parameter \<open>fl\<close>.
\<close>

subsection \<open>Writing\<close>

definition json_escape_ascii :: "char \<Rightarrow> string" where
  "json_escape_ascii c =
     (if c = CHR 0x22 then [CHR 0x5C, CHR 0x22]
      else if c = CHR 0x5C then [CHR 0x5C, CHR 0x5C]
      else if code_of c = 10 then [CHR 0x5C, CHR ''n'']
      else if code_of c = 13 then [CHR 0x5C, CHR ''r'']
      else if code_of c = 9 then [CHR 0x5C, CHR ''t'']
      else if code_of c = 12 then [CHR 0x5C, CHR ''f'']
      else if code_of c = 8 then [CHR 0x5C, CHR ''b'']
      else if code_of c < 32 \<or> 126 < code_of c
      then [CHR 0x5C, CHR ''u'', CHR ''0'', CHR ''0'', hex_lower (code_of c div 16), hex_lower (code_of c mod 16)]
      else [c])"

definition json_text :: "string \<Rightarrow> string" where
  "json_text s = CHR 0x22 # concat (map json_escape_ascii s) @ [CHR 0x22]"

fun dumps_ascii :: "json \<Rightarrow> string" where
  "dumps_ascii JNull = ''null''"
| "dumps_ascii (JBool b) = (if b then ''true'' else ''false'')"
| "dumps_ascii (JInt i) = int_str i"
| "dumps_ascii (JFloat r) = json_float r"
| "dumps_ascii (JStr s) = json_text s"
| "dumps_ascii (JList xs) = ''['' @ py_join '','' (map dumps_ascii xs) @ '']''"
| "dumps_ascii (JDict kvs) =
     ''{'' @ py_join '','' (map (\<lambda>(k, v). json_text k @ '':'' @ dumps_ascii v) kvs) @ ''}''"

lemma json_entry_smaller: "(k, v) \<in> set kvs \<Longrightarrow> size v < Suc (size_list (size_prod (\<lambda>_. 0) size) kvs)"
  by (induction kvs) auto

text \<open>\<^verbatim>\<open>sort_keys=True\<close>: every dictionary in the order of its keys.\<close>

function sort_keys :: "json \<Rightarrow> json" where
  "sort_keys (JDict kvs) = JDict (sort_key fst (map (\<lambda>(k, v). (k, sort_keys v)) kvs))"
| "sort_keys (JList xs) = JList (map sort_keys xs)"
| "sort_keys JNull = JNull"
| "sort_keys (JBool b) = JBool b"
| "sort_keys (JInt i) = JInt i"
| "sort_keys (JFloat r) = JFloat r"
| "sort_keys (JStr s) = JStr s"
  by pat_completeness auto

termination
  by (relation "measure size") (auto simp: json_entry_smaller less_Suc_eq_le size_list_estimation')

definition json_canonical :: "json \<Rightarrow> string" where
  "json_canonical v = dumps_ascii (sort_keys v)"

subsection \<open>Reading\<close>

definition is_json_space :: "char \<Rightarrow> bool" where
  "is_json_space c \<longleftrightarrow> code_of c \<in> {32, 9, 10, 13}"

definition skip_ws :: "string \<Rightarrow> string" where
  "skip_ws s = dropWhile is_json_space s"

definition json_escapes :: "(char \<times> char) list" where
  "json_escapes = [(CHR 0x22, CHR 0x22), (CHR 0x5C, CHR 0x5C), (CHR ''/'', CHR ''/''), (CHR ''b'', CHR 8), (CHR ''f'', CHR 12),
     (CHR ''n'', CHR 10), (CHR ''r'', CHR 13), (CHR ''t'', CHR 9)]"

definition hex_digit_value :: "char \<Rightarrow> nat option" where
  "hex_digit_value c = (let n = code_of c in
     if 48 \<le> n \<and> n \<le> 57 then Some (n - 48) else if 97 \<le> n \<and> n \<le> 102 then Some (n - 87)
     else if 65 \<le> n \<and> n \<le> 70 then Some (n - 55) else None)"

text \<open>The rest of a string literal; an escape beyond ASCII is outside the model.\<close>

fun scan_string :: "string \<Rightarrow> (string \<times> string) option" where
  "scan_string [] = None"
| "scan_string (c # s) =
     (if c = CHR 0x22 then Some ([], s)
      else if c = CHR 0x5C
      then (case s of
          x # a # b # p # q # s' \<Rightarrow>
            if x = CHR ''u''
            then (case (hex_digit_value a, hex_digit_value b, hex_digit_value p, hex_digit_value q) of
                (Some 0, Some 0, Some h, Some l) \<Rightarrow>
                  if h < 8 then map_option (apfst (Cons (char_of (h * 16 + l)))) (scan_string s') else None
              | _ \<Rightarrow> None)
            else (case map_of json_escapes x of None \<Rightarrow> None
                | Some y \<Rightarrow> map_option (apfst (Cons y)) (scan_string (a # b # p # q # s')))
        | x # s' \<Rightarrow> (case map_of json_escapes x of None \<Rightarrow> None
                | Some y \<Rightarrow> map_option (apfst (Cons y)) (scan_string s'))
        | [] \<Rightarrow> None)
      else if code_of c < 32 then None
      else map_option (apfst (Cons c)) (scan_string s))"

text \<open>\<^verbatim>\<open>(-?(?:0|[1-9]\d*))(\.\d+)?([eE][-+]?\d+)?\<close>: the integer part, the rest of the number and what follows it.\<close>

definition scan_int :: "string \<Rightarrow> (string \<times> string) option" where
  "scan_int s = (case s of [] \<Rightarrow> None
     | c # s' \<Rightarrow> if c = CHR ''0'' then Some (''0'', s')
         else if is_digit_char c then Some (takeWhile is_digit_char s, dropWhile is_digit_char s) else None)"

definition scan_frac :: "string \<Rightarrow> string \<times> string" where
  "scan_frac s = (case s of [] \<Rightarrow> ([], [])
     | c # s' \<Rightarrow> if c = CHR ''.'' \<and> takeWhile is_digit_char s' \<noteq> []
         then (c # takeWhile is_digit_char s', dropWhile is_digit_char s') else ([], s))"

definition scan_sign :: "string \<Rightarrow> string \<times> string" where
  "scan_sign s = (case s of [] \<Rightarrow> ([], [])
     | c # s' \<Rightarrow> if c = CHR ''+'' \<or> c = CHR ''-'' then ([c], s') else ([], s))"

definition scan_exp :: "string \<Rightarrow> string \<times> string" where
  "scan_exp s = (case s of [] \<Rightarrow> ([], [])
     | c # s' \<Rightarrow> (case scan_sign s' of (sg, t) \<Rightarrow>
         if (c = CHR ''e'' \<or> c = CHR ''E'') \<and> takeWhile is_digit_char t \<noteq> []
         then (c # sg @ takeWhile is_digit_char t, dropWhile is_digit_char t) else ([], s)))"

definition scan_minus :: "string \<Rightarrow> string \<times> string" where
  "scan_minus s = (case s of [] \<Rightarrow> ([], []) | c # s' \<Rightarrow> if c = CHR ''-'' then ([c], s') else ([], s))"

definition scan_number :: "string \<Rightarrow> (string \<times> string \<times> string) option" where
  "scan_number s = (case scan_minus s of (m, s1) \<Rightarrow>
     (case scan_int s1 of None \<Rightarrow> None
      | Some (i, s2) \<Rightarrow> (case scan_frac s2 of (f, s3) \<Rightarrow> (case scan_exp s3 of (e, s4) \<Rightarrow> Some (m @ i, f @ e, s4)))))"

definition int_value :: "string \<Rightarrow> int" where
  "int_value s = (case s of [] \<Rightarrow> 0
     | c # s' \<Rightarrow> if c = CHR ''-'' then - int (digits_value s') else int (digits_value s))"

definition json_constants :: "(string \<times> json) list" where
  "json_constants = [(''null'', JNull), (''true'', JBool True), (''false'', JBool False)]"

definition json_float_constants :: "(string \<times> json) list" where
  "json_float_constants = [(''NaN'', JFloat ''nan''), (''Infinity'', JFloat ''inf''), (''-Infinity'', JFloat ''-inf'')]"

definition scan_constant :: "(string \<times> json) list \<Rightarrow> string \<Rightarrow> (json \<times> string) option" where
  "scan_constant cs s = map_option (\<lambda>(w, v). (v, drop (length w) s)) (find (\<lambda>(w, v). py_startswith s w) cs)"

definition parse_scalar :: "(string \<Rightarrow> string) \<Rightarrow> string \<Rightarrow> (json \<times> string) option" where
  "parse_scalar fl s =
     (case scan_constant json_constants s of Some r \<Rightarrow> Some r
      | None \<Rightarrow> (case scan_number s of
          Some (i, x, t) \<Rightarrow> Some (if x = [] then JInt (int_value i) else JFloat (fl (i @ x)), t)
        | None \<Rightarrow> scan_constant json_float_constants s))"

definition dict_of :: "(string \<times> json) list \<Rightarrow> (string, json) odict" where
  "dict_of kvs = fold (\<lambda>(k, v). od_set k v) kvs []"

text \<open>
  The fuel counts nested calls; a value of \<open>n\<close> characters needs at most \<open>n\<close> of them, because every
  container has two delimiters and every element one.
\<close>

fun parse_value :: "(string \<Rightarrow> string) \<Rightarrow> nat \<Rightarrow> string \<Rightarrow> (json \<times> string) option"
  and parse_elements :: "(string \<Rightarrow> string) \<Rightarrow> nat \<Rightarrow> string \<Rightarrow> (json list \<times> string) option"
  and parse_members :: "(string \<Rightarrow> string) \<Rightarrow> nat \<Rightarrow> string \<Rightarrow> ((string \<times> json) list \<times> string) option" where
  "parse_value fl 0 s = None"
| "parse_value fl (Suc n) s =
     (case s of [] \<Rightarrow> None
      | c # s' \<Rightarrow>
          if c = CHR 0x22 then map_option (apfst JStr) (scan_string s')
          else if c = CHR ''{''
          then (case skip_ws s' of [] \<Rightarrow> None
              | d # t \<Rightarrow> if d = CHR ''}'' then Some (JDict [], t)
                  else map_option (apfst (JDict \<circ> dict_of)) (parse_members fl n (d # t)))
          else if c = CHR ''[''
          then (case skip_ws s' of [] \<Rightarrow> None
              | d # t \<Rightarrow> if d = CHR '']'' then Some (JList [], t)
                  else map_option (apfst JList) (parse_elements fl n (d # t)))
          else parse_scalar fl s)"
| "parse_elements fl 0 s = None"
| "parse_elements fl (Suc n) s =
     (case parse_value fl n s of None \<Rightarrow> None
      | Some (v, t) \<Rightarrow> (case skip_ws t of [] \<Rightarrow> None
          | d # u \<Rightarrow> if d = CHR '','' then map_option (apfst (Cons v)) (parse_elements fl n (skip_ws u))
              else if d = CHR '']'' then Some ([v], u) else None))"
| "parse_members fl 0 s = None"
| "parse_members fl (Suc n) s =
     (case s of [] \<Rightarrow> None
      | c # s' \<Rightarrow> if c \<noteq> CHR 0x22 then None
          else (case scan_string s' of None \<Rightarrow> None
              | Some (k, t) \<Rightarrow> (case skip_ws t of [] \<Rightarrow> None
                  | d # u \<Rightarrow> if d \<noteq> CHR '':'' then None
                      else (case parse_value fl n (skip_ws u) of None \<Rightarrow> None
                          | Some (v, x) \<Rightarrow> (case skip_ws x of [] \<Rightarrow> None
                              | e # y \<Rightarrow> if e = CHR '','' then map_option (apfst (Cons (k, v))) (parse_members fl n (skip_ws y))
                                  else if e = CHR ''}'' then Some ([(k, v)], y) else None)))))"

definition json_loads :: "(string \<Rightarrow> string) \<Rightarrow> string \<Rightarrow> json option" where
  "json_loads fl s =
     (case parse_value fl (Suc (length s)) (skip_ws s) of None \<Rightarrow> None
      | Some (v, t) \<Rightarrow> if skip_ws t = [] then Some v else None)"

subsection \<open>Reading what was written\<close>

text \<open>Values whose strings are ASCII, whose floats are written as Python writes them, with distinct keys.\<close>

definition ascii :: "string \<Rightarrow> bool" where
  "ascii s \<longleftrightarrow> list_all (\<lambda>c. code_of c < 128) s"

definition float_repr_ok :: "(string \<Rightarrow> string) \<Rightarrow> string \<Rightarrow> bool" where
  "float_repr_ok fl r \<longleftrightarrow> \<not> float_repr_finite r \<or> fl r = r \<and> (\<exists>i x. scan_number r = Some (i, x, []) \<and> x \<noteq> [])"

function json_ok :: "(string \<Rightarrow> string) \<Rightarrow> json \<Rightarrow> bool" where
  "json_ok fl (JDict kvs) \<longleftrightarrow> distinct (map fst kvs) \<and> (\<forall>(k, v) \<in> set kvs. ascii k \<and> json_ok fl v)"
| "json_ok fl (JList xs) \<longleftrightarrow> (\<forall>v \<in> set xs. json_ok fl v)"
| "json_ok fl (JStr s) \<longleftrightarrow> ascii s"
| "json_ok fl (JFloat r) \<longleftrightarrow> float_repr_ok fl r"
| "json_ok fl JNull \<longleftrightarrow> True"
| "json_ok fl (JBool b) \<longleftrightarrow> True"
| "json_ok fl (JInt i) \<longleftrightarrow> True"
  by pat_completeness auto
termination
  by (relation "measure (size \<circ> snd)") (auto simp: json_entry_smaller less_Suc_eq_le size_list_estimation')

lemma char_eq_code: "c = d \<longleftrightarrow> code_of c = code_of d"
  by (simp add: code_of_def)

lemma hex_lower_value: "v < 16 \<Longrightarrow> hex_digit_value (hex_lower v) = Some v"
  by (auto simp: hex_digit_value_def hex_lower_def Let_def)

lemma scan_escape:
  "map_of json_escapes x = Some y \<Longrightarrow> x \<noteq> CHR ''u'' \<Longrightarrow>
   scan_string (CHR 0x5C # x # s) = map_option (apfst (Cons y)) (scan_string s)"
  unfolding scan_string.simps(2) [of _ "x # s"] by (simp del: scan_string.simps split: list.split)

lemma json_escapes_get:
  "map_of json_escapes (CHR 0x22) = Some (CHR 0x22)" "map_of json_escapes (CHR 0x5C) = Some (CHR 0x5C)"
  "map_of json_escapes (CHR ''b'') = Some (CHR 8)" "map_of json_escapes (CHR ''f'') = Some (CHR 12)"
  "map_of json_escapes (CHR ''n'') = Some (CHR 10)" "map_of json_escapes (CHR ''r'') = Some (CHR 13)"
  "map_of json_escapes (CHR ''t'') = Some (CHR 9)"
  by (simp_all add: json_escapes_def)

lemma scan_string_Cons:
  assumes "code_of c < 128"
  shows "scan_string (json_escape_ascii c @ s) = map_option (apfst (Cons c)) (scan_string s)"
proof -
  let ?n = "code_of c"
  have c: "c = char_of ?n" by (simp add: code_of_def)
  have h: "hex_digit_value (CHR ''0'') = Some 0" by (simp add: hex_digit_value_def code_of_def)
  consider "c = CHR 0x22" | "c = CHR 0x5C" | "?n \<in> {8, 9, 10, 12, 13}"
    | "?n < 32 \<or> 126 < ?n" "?n \<notin> {8, 9, 10, 12, 13}" "c \<noteq> CHR 0x22" "c \<noteq> CHR 0x5C"
    | "32 \<le> ?n" "?n \<le> 126" "c \<noteq> CHR 0x22" "c \<noteq> CHR 0x5C" by force
  then show ?thesis
  proof cases
    case 3
    then have "c = CHR 8 \<or> c = CHR 9 \<or> c = CHR 10 \<or> c = CHR 12 \<or> c = CHR 13"
      by (auto simp: char_eq_code) (simp_all add: code_of_def)
    then show ?thesis
      by (elim disjE) (simp_all add: json_escape_ascii_def scan_escape json_escapes_get code_of_def del: scan_string.simps)
  next
    case 4
    have "?n div 16 < 8" using assms by simp
    with 4 c show ?thesis by (auto simp: json_escape_ascii_def h hex_lower_value)
  next
    case 5
    then show ?thesis by (simp add: json_escape_ascii_def)
  qed (simp_all add: json_escape_ascii_def scan_escape json_escapes_get del: scan_string.simps)
qed

lemma scan_string_text: "ascii s \<Longrightarrow> scan_string (concat (map json_escape_ascii s) @ CHR 0x22 # rest) = Some (s, rest)"
  by (induction s) (auto simp: ascii_def scan_string_Cons)

text \<open>A number ends at a delimiter.\<close>

definition json_delim :: "string \<Rightarrow> bool" where
  "json_delim s \<longleftrightarrow> (case s of [] \<Rightarrow> True | c # _ \<Rightarrow> c \<in> set '',]}'')"

lemma json_delim_not:
  "json_delim (c # s) \<Longrightarrow> \<not> is_digit_char c \<and> c \<notin> set ''.eE+-'' \<and> \<not> is_json_space c"
  by (auto simp: json_delim_def is_digit_char_def is_json_space_def code_of_def)

lemma digits_append:
  assumes "json_delim rest"
  shows "takeWhile is_digit_char (s @ rest) = takeWhile is_digit_char s" "dropWhile is_digit_char (s @ rest) = dropWhile is_digit_char s @ rest"
  using assms by (induction s) (cases rest, auto dest: json_delim_not)+

lemma scan_append:
  assumes "json_delim rest"
  shows "scan_minus (s @ rest) = apsnd (\<lambda>t. t @ rest) (scan_minus s)"
    "scan_int (s @ rest) = map_option (apsnd (\<lambda>t. t @ rest)) (scan_int s)"
    "scan_frac (s @ rest) = apsnd (\<lambda>t. t @ rest) (scan_frac s)"
    "scan_sign (s @ rest) = apsnd (\<lambda>t. t @ rest) (scan_sign s)"
    "scan_exp (s @ rest) = apsnd (\<lambda>t. t @ rest) (scan_exp s)"
proof -
  have sign: "scan_sign (s @ rest) = apsnd (\<lambda>t. t @ rest) (scan_sign s)" for s
    using assms by (cases s; cases rest) (auto simp: scan_sign_def dest: json_delim_not)
  then show "scan_sign (s @ rest) = apsnd (\<lambda>t. t @ rest) (scan_sign s)" .
  have d: "takeWhile is_digit_char (c # s @ rest) = takeWhile is_digit_char (c # s)"
    "dropWhile is_digit_char (c # s @ rest) = dropWhile is_digit_char (c # s) @ rest" for c s
    using digits_append [OF assms, of "c # s"] by simp_all
  show "scan_minus (s @ rest) = apsnd (\<lambda>t. t @ rest) (scan_minus s)"
    using assms by (cases s; cases rest) (auto simp: scan_minus_def dest: json_delim_not)
  show "scan_int (s @ rest) = map_option (apsnd (\<lambda>t. t @ rest)) (scan_int s)"
    using assms d digits_append by (cases s; cases rest) (auto simp: scan_int_def is_digit_char_def code_of_def json_delim_def)
  show "scan_frac (s @ rest) = apsnd (\<lambda>t. t @ rest) (scan_frac s)"
    using assms digits_append by (cases s; cases rest) (auto simp: scan_frac_def dest: json_delim_not)
  show "scan_exp (s @ rest) = apsnd (\<lambda>t. t @ rest) (scan_exp s)"
  proof (cases s)
    case Nil
    then show ?thesis using assms by (cases rest) (auto simp: scan_exp_def dest: json_delim_not split: prod.split)
  next
    case (Cons c s')
    obtain sg u where "scan_sign s' = (sg, u)" by fastforce
    then show ?thesis using Cons sign [of s'] digits_append [OF assms] by (auto simp: scan_exp_def)
  qed
qed

lemma scan_number_append:
  "json_delim rest \<Longrightarrow> scan_number s = Some (i, x, t) \<Longrightarrow> scan_number (s @ rest) = Some (i, x, t @ rest)"
  by (auto simp: scan_number_def scan_append split: prod.splits option.splits)

lemma scan_splits:
  "scan_minus s = (a, b) \<Longrightarrow> s = a @ b" "scan_int s = Some (a, b) \<Longrightarrow> s = a @ b" "scan_frac s = (a, b) \<Longrightarrow> s = a @ b"
  "scan_exp s = (a, b) \<Longrightarrow> s = a @ b"
proof -
  have sign: "scan_sign s = (a, b) \<Longrightarrow> s = a @ b" for s a b
    by (cases s) (auto simp: scan_sign_def split: if_splits)
  show "scan_minus s = (a, b) \<Longrightarrow> s = a @ b" by (cases s) (auto simp: scan_minus_def split: if_splits)
  show "scan_int s = Some (a, b) \<Longrightarrow> s = a @ b"
    by (cases s) (auto simp: scan_int_def simp del: takeWhile.simps dropWhile.simps split: if_splits)
  show "scan_frac s = (a, b) \<Longrightarrow> s = a @ b" by (cases s) (auto simp: scan_frac_def split: if_splits)
  show "scan_exp s = (a, b) \<Longrightarrow> s = a @ b"
    by (cases s) (auto simp: scan_exp_def dest!: sign split: prod.splits if_splits)
qed

lemma scan_number_split: "scan_number s = Some (i, x, t) \<Longrightarrow> s = i @ x @ t"
  unfolding scan_number_def by (auto dest!: scan_splits split: prod.splits option.splits)

lemma nat_str_hd: "nat_str n = c # s \<Longrightarrow> is_digit_char c \<and> (c = CHR ''0'' \<longrightarrow> n = 0)"
proof (induction n arbitrary: c s rule: nat_str.induct)
  case (1 n)
  show ?case
  proof (cases "n < 10")
    case True
    with 1(2) have c: "code_of c = 48 + n" by (auto simp: nat_str.simps [of n] code_of_def)
    moreover have "code_of (CHR ''0'') = 48" by (simp add: code_of_def)
    ultimately show ?thesis using True by (auto simp: is_digit_char_def)
  next
    case False
    with 1(2) obtain u where "nat_str (n div 10) = c # u"
      by (cases "nat_str (n div 10)") (auto simp: nat_str.simps [of n])
    from 1(1) [OF False this] False show ?thesis by auto
  qed
qed

lemma nat_str_0: "nat_str 0 = ''0''"
  by (simp add: nat_str.simps char_eq_code) (simp add: code_of_def)

lemma scan_int_nat: "json_delim rest \<Longrightarrow> scan_int (nat_str n @ rest) = Some (nat_str n, rest)"
proof -
  assume rest: "json_delim rest"
  obtain c s where n: "nat_str n = c # s" by (cases "nat_str n") auto
  have all: "\<forall>x \<in> set (nat_str n). is_digit_char x" using nat_str_digits by blast
  then have "takeWhile is_digit_char (nat_str n) = nat_str n" "dropWhile is_digit_char (nat_str n) = []" by simp_all
  then have t: "takeWhile is_digit_char (nat_str n @ rest) = nat_str n" "dropWhile is_digit_char (nat_str n @ rest) = rest"
    using digits_append [OF rest, of "nat_str n"] by simp_all
  show ?thesis
  proof (cases "c = CHR ''0''")
    case True
    then show ?thesis using nat_str_hd [OF n] nat_str_0 by (simp add: scan_int_def)
  next
    case False
    then show ?thesis using n t nat_str_hd [OF n] by (simp add: scan_int_def)
  qed
qed

lemma scan_delim: "json_delim rest \<Longrightarrow> scan_frac rest = ([], rest)" "json_delim rest \<Longrightarrow> scan_exp rest = ([], rest)"
  by (cases rest; auto simp: scan_frac_def scan_exp_def dest: json_delim_not split: prod.split)+

lemma scan_number_int: "json_delim rest \<Longrightarrow> scan_number (int_str i @ rest) = Some (int_str i, [], rest)"
proof -
  assume rest: "json_delim rest"
  have "scan_minus (nat_str n @ rest) = ([], nat_str n @ rest)" for n
    using nat_str_hd [of n] by (cases "nat_str n") (auto simp: scan_minus_def is_digit_char_def code_of_def)
  then show ?thesis
    using rest by (simp add: int_str_def scan_number_def scan_int_nat scan_delim) (simp add: scan_minus_def scan_int_nat scan_delim)
qed

lemma int_value_str: "int_value (int_str i) = i"
proof (cases "i < 0")
  case False
  obtain c s where n: "nat_str (nat i) = c # s" by (cases "nat_str (nat i)") auto
  from nat_str_hd [OF n] have "c \<noteq> CHR ''-''" by (auto simp: is_digit_char_def code_of_def)
  with False n show ?thesis
    using nat_str_decode [of "nat i"] by (simp add: int_value_def int_str_def digits_value_def)
next
  case True
  then show ?thesis using nat_str_decode [of "nat (- i)"] by (simp add: int_value_def int_str_def digits_value_def)
qed

lemma scan_number_hd: "scan_number s = Some r \<Longrightarrow> \<exists>c t. s = c # t \<and> (c = CHR ''-'' \<or> is_digit_char c)"
  by (cases s) (auto simp: scan_number_def scan_minus_def scan_int_def is_digit_char_def code_of_def split: if_splits)

definition number_start :: "char \<Rightarrow> bool" where
  "number_start c \<longleftrightarrow> c = CHR ''-'' \<or> is_digit_char c"

lemma number_start_not:
  "number_start c \<Longrightarrow> c \<noteq> CHR 0x22 \<and> c \<noteq> CHR ''{'' \<and> c \<noteq> CHR ''['' \<and> c \<noteq> CHR '']'' \<and> c \<noteq> CHR ''}'' \<and>
     c \<noteq> CHR ''n'' \<and> c \<noteq> CHR ''t'' \<and> c \<noteq> CHR ''f'' \<and> c \<noteq> CHR ''N'' \<and> c \<noteq> CHR ''I'' \<and> \<not> is_json_space c"
  by (auto simp: number_start_def is_digit_char_def is_json_space_def code_of_def)

lemma parse_number:
  assumes "scan_number s = Some (i, x, t)"
  shows "parse_value fl (Suc n) s = Some (if x = [] then JInt (int_value i) else JFloat (fl (i @ x)), t)"
proof -
  from scan_number_hd [OF assms] obtain c u where s: "s = c # u" "number_start c" by (auto simp: number_start_def)
  then have "scan_constant json_constants s = None"
    using number_start_not [OF s(2)] by (auto simp: scan_constant_def json_constants_def py_startswith_def)
  then show ?thesis using s number_start_not [OF s(2)] assms by (simp add: parse_scalar_def)
qed

lemma parse_nonfinite:
  assumes "\<not> float_repr_finite r"
  shows "parse_value fl (Suc n) (json_float r @ rest) = Some (JFloat r, rest)"
proof -
  have "\<not> is_digit_char (CHR ''N'')" "\<not> is_digit_char (CHR ''I'')" by (simp_all add: is_digit_char_def code_of_def)
  with assms show ?thesis
    by (auto simp: float_repr_finite_def json_float_def parse_scalar_def scan_constant_def json_constants_def
        json_float_constants_def py_startswith_def scan_number_def scan_minus_def scan_int_def)
qed

lemma dumps_hd: "json_ok fl v \<Longrightarrow> \<exists>c s. dumps_ascii v = c # s \<and> \<not> is_json_space c \<and> c \<notin> set '']}''"
proof (cases v)
  case (JInt i)
  have "scan_number (int_str i) = Some (int_str i, [], [])" using scan_number_int [of "[]" i] by (simp add: json_delim_def)
  from scan_number_hd [OF this] obtain c s where "int_str i = c # s" "number_start c" by (auto simp: number_start_def)
  with number_start_not [of c] JInt show ?thesis by simp
next
  case (JFloat r)
  assume "json_ok fl v"
  show ?thesis
  proof (cases "float_repr_finite r")
    case True
    with \<open>json_ok fl v\<close> JFloat obtain i x where "scan_number r = Some (i, x, [])" by (auto simp: float_repr_ok_def)
    from scan_number_hd [OF this] obtain c s where "r = c # s" "number_start c" by (auto simp: number_start_def)
    moreover have "json_float r = r" using True by (simp add: json_float_def float_repr_finite_def)
    ultimately show ?thesis using number_start_not [of c] JFloat by simp
  next
    case False
    then show ?thesis using JFloat
      by (auto simp: float_repr_finite_def json_float_def is_json_space_def code_of_def)
  qed
qed (auto simp: json_text_def is_json_space_def code_of_def)

lemma skip_ws_start: "\<not> is_json_space c \<Longrightarrow> skip_ws (c # s) = c # s"
  by (simp add: skip_ws_def)

lemma dict_of_snoc: "dict_of (kvs @ [(k, v)]) = od_set k v (dict_of kvs)"
  by (simp add: dict_of_def)

lemma od_set_new: "k \<notin> fst ` set d \<Longrightarrow> od_set k v d = d @ [(k, v)]"
  by (induction d) (auto simp: od_set_def)

lemma dict_of_distinct: "distinct (map fst kvs) \<Longrightarrow> dict_of kvs = kvs"
proof (induction kvs rule: rev_induct)
  case (snoc e kvs)
  then show ?case by (cases e) (auto simp: dict_of_snoc od_set_new)
qed (simp add: dict_of_def)

text \<open>The value that a text represents, followed by a delimiter, is read back.\<close>

definition reads :: "(string \<Rightarrow> string) \<Rightarrow> json \<Rightarrow> bool" where
  "reads fl v \<longleftrightarrow> (\<forall>n rest. length (dumps_ascii v) \<le> n \<longrightarrow> json_delim rest \<longrightarrow> parse_value fl n (dumps_ascii v @ rest) = Some (v, rest))"

lemma py_join_append_Cons: "ws \<noteq> [] \<Longrightarrow> py_join sep (w # ws) @ r = w @ sep @ py_join sep ws @ r"
  by (simp add: py_join_Cons)

lemma parse_elements_dumps:
  assumes "xs \<noteq> []" "\<forall>v \<in> set xs. reads fl v \<and> json_ok fl v" "length (py_join '','' (map dumps_ascii xs)) < n"
  shows "parse_elements fl n (py_join '','' (map dumps_ascii xs) @ CHR '']'' # rest) = Some (xs, rest)"
  using assms
proof (induction xs arbitrary: n)
  case (Cons x xs)
  then obtain m where n: "n = Suc m" by (cases n) auto
  show ?case
  proof (cases xs)
    case Nil
    with Cons n have "parse_value fl m (dumps_ascii x @ CHR '']'' # rest) = Some (x, CHR '']'' # rest)"
      by (auto simp: reads_def json_delim_def)
    with Nil n show ?thesis by (simp add: skip_ws_start is_json_space_def code_of_def)
  next
    case (Cons y ys)
    let ?tl = "py_join '','' (map dumps_ascii xs) @ CHR '']'' # rest"
    have ok: "reads fl x" "json_ok fl y" "dumps_ascii x \<noteq> []" using Cons.prems(2) local.Cons dumps_hd [of fl x] by auto
    from ok(1) Cons.prems(3) local.Cons n have
      v: "parse_value fl m (dumps_ascii x @ CHR '','' # ?tl) = Some (x, CHR '','' # ?tl)"
      by (auto simp: reads_def json_delim_def)
    obtain c s where c: "dumps_ascii y = c # s" "\<not> is_json_space c" using dumps_hd [OF ok(2)] by blast
    have "skip_ws ?tl = ?tl"
      using c local.Cons by (cases ys) (simp_all add: skip_ws_start)
    moreover have "parse_elements fl m ?tl = Some (xs, rest)"
      using Cons.prems local.Cons n ok(3) by (intro Cons.IH) auto
    ultimately show ?thesis
      using v n local.Cons by (simp add: skip_ws_start is_json_space_def code_of_def)
  qed
qed simp

definition dumps_member :: "string \<times> json \<Rightarrow> string" where
  "dumps_member e = json_text (fst e) @ '':'' @ dumps_ascii (snd e)"

lemma parse_members_dumps:
  assumes "kvs \<noteq> []" "\<forall>(k, v) \<in> set kvs. reads fl v \<and> json_ok fl v \<and> ascii k"
    "length (py_join '','' (map dumps_member kvs)) < n"
  shows "parse_members fl n (py_join '','' (map dumps_member kvs) @ CHR ''}'' # rest) = Some (kvs, rest)"
  using assms
proof (induction kvs arbitrary: n)
  case (Cons e kvs)
  obtain k v where e: "e = (k, v)" by fastforce
  from Cons obtain m where n: "n = Suc m" by (cases n) auto
  have ok: "reads fl v" "ascii k" "json_ok fl v" using Cons.prems(2) e by auto
  obtain c s where c: "dumps_ascii v = c # s" "\<not> is_json_space c" using dumps_hd [OF ok(3)] by blast
  have colon: "\<not> is_json_space (CHR '':'')" "\<not> is_json_space (CHR '','')" "\<not> is_json_space (CHR ''}'')" "\<not> is_json_space (CHR 0x22)"
    by (simp_all add: is_json_space_def code_of_def)
  have key: "scan_string (concat (map json_escape_ascii k) @ CHR 0x22 # CHR '':'' # dumps_ascii v @ r) =
      Some (k, CHR '':'' # dumps_ascii v @ r)" for r
    using scan_string_text [OF ok(2)] .
  have skip: "skip_ws (dumps_ascii v @ r) = dumps_ascii v @ r" for r using c by (simp add: skip_ws_start)
  show ?case
  proof (cases kvs)
    case Nil
    with Cons.prems(3) e n ok(1) have "parse_value fl m (dumps_ascii v @ CHR ''}'' # rest) = Some (v, CHR ''}'' # rest)"
      by (auto simp: reads_def json_delim_def dumps_member_def)
    with Nil n e key skip show ?thesis by (simp add: dumps_member_def json_text_def skip_ws_start colon)
  next
    case (Cons y ys)
    define u where "u = py_join '','' (map dumps_member kvs) @ CHR ''}'' # rest"
    from ok(1) Cons.prems(3) local.Cons n e have
      v: "parse_value fl m (dumps_ascii v @ CHR '','' # u) = Some (v, CHR '','' # u)"
      by (auto simp: reads_def json_delim_def dumps_member_def)
    have "skip_ws u = u"
      using local.Cons colon by (cases ys) (simp_all add: u_def dumps_member_def json_text_def skip_ws_start)
    moreover have "parse_members fl m u = Some (kvs, rest)"
      unfolding u_def using Cons.prems local.Cons n by (intro Cons.IH) (auto simp: dumps_member_def)
    moreover have "py_join '','' (map dumps_member (e # kvs)) @ CHR ''}'' # rest =
        CHR 0x22 # concat (map json_escape_ascii k) @ CHR 0x22 # CHR '':'' # dumps_ascii v @ CHR '','' # u"
      using local.Cons by (simp add: u_def e dumps_member_def [of "(k, v)"] json_text_def)
    ultimately show ?thesis
      using v n e key [of "CHR '','' # u"] skip colon by (simp add: skip_ws_start)
  qed
qed simp

lemma dumps_dict: "dumps_ascii (JDict kvs) = ''{'' @ py_join '','' (map dumps_member kvs) @ ''}''"
proof -
  have "dumps_member = (\<lambda>(k, v). json_text k @ '':'' @ dumps_ascii v)" by (auto simp: dumps_member_def)
  then show ?thesis by simp
qed

lemma reads_ok: "json_ok fl v \<Longrightarrow> reads fl v"
proof (induction fl v rule: json_ok.induct)
  case (1 fl kvs)
  have colon: "\<not> is_json_space (CHR 0x22)" by (simp add: is_json_space_def code_of_def)
  have "parse_value fl n (dumps_ascii (JDict kvs) @ rest) = Some (JDict kvs, rest)"
    if "length (dumps_ascii (JDict kvs)) \<le> n" for n rest
  proof -
    from that obtain m where n: "n = Suc m" by (cases n) (auto simp: dumps_dict)
    show ?thesis
    proof (cases kvs)
      case Nil
      with n show ?thesis by (simp add: skip_ws_start is_json_space_def code_of_def)
    next
      case (Cons e es)
      obtain u where hd: "py_join '','' (map dumps_member kvs) @ CHR ''}'' # rest = CHR 0x22 # u"
        using Cons by (cases es) (simp_all add: dumps_member_def json_text_def)
      have "parse_members fl m (py_join '','' (map dumps_member kvs) @ CHR ''}'' # rest) = Some (kvs, rest)"
        using 1 that n Cons by (intro parse_members_dumps) (fastforce simp: dumps_dict simp del: dumps_ascii.simps)+
      with n hd 1(2) show ?thesis
        by (simp add: dumps_dict dict_of_distinct skip_ws_start colon del: dumps_ascii.simps)
    qed
  qed
  then show ?case by (simp add: reads_def)
next
  case (2 fl xs)
  have "parse_value fl n (dumps_ascii (JList xs) @ rest) = Some (JList xs, rest)"
    if "length (dumps_ascii (JList xs)) \<le> n" for n rest
  proof -
    from that obtain m where n: "n = Suc m" by (cases n) auto
    show ?thesis
    proof (cases xs)
      case Nil
      with n show ?thesis by (simp add: skip_ws_start is_json_space_def code_of_def)
    next
      case (Cons y ys)
      obtain c s where c: "dumps_ascii y = c # s" "\<not> is_json_space c" "c \<noteq> CHR '']''"
        using dumps_hd [of fl y] 2(2) Cons by auto
      obtain u where hd: "py_join '','' (map dumps_ascii xs) @ CHR '']'' # rest = c # u"
        using Cons c(1) by (cases ys) simp_all
      have "parse_elements fl m (py_join '','' (map dumps_ascii xs) @ CHR '']'' # rest) = Some (xs, rest)"
        using 2 that n Cons by (intro parse_elements_dumps) auto
      with n hd c show ?thesis by (simp add: skip_ws_start)
    qed
  qed
  then show ?case by (simp add: reads_def)
next
  case (3 fl s)
  have "parse_value fl n (dumps_ascii (JStr s) @ rest) = Some (JStr s, rest)"
    if "length (dumps_ascii (JStr s)) \<le> n" for n rest
    using that scan_string_text 3 by (cases n) (auto simp: json_text_def)
  then show ?case by (simp add: reads_def)
next
  case (4 fl r)
  have "parse_value fl n (json_float r @ rest) = Some (JFloat r, rest)"
    if "length (json_float r) \<le> n" "json_delim rest" for n rest
  proof (cases n)
    case 0
    with that 4 show ?thesis using dumps_hd [of fl "JFloat r"] by auto
  next
    case (Suc m)
    show ?thesis
    proof (cases "float_repr_finite r")
      case True
      with 4 obtain i x where s: "scan_number r = Some (i, x, [])" "x \<noteq> []" "fl r = r" by (auto simp: float_repr_ok_def)
      from True have "json_float r = r" by (simp add: json_float_def float_repr_finite_def)
      then show ?thesis
        using Suc s parse_number [OF scan_number_append [OF that(2) s(1)], of fl m] scan_number_split [OF s(1)] by simp
    qed (simp add: Suc parse_nonfinite del: parse_value.simps)
  qed
  then show ?case by (simp add: reads_def)
next
  case (7 fl i)
  have "parse_value fl n (int_str i @ rest) = Some (JInt i, rest)" if "length (int_str i) \<le> n" "json_delim rest" for n rest
  proof (cases n)
    case 0
    with that 7 show ?thesis using dumps_hd [of fl "JInt i"] by auto
  next
    case (Suc m)
    then show ?thesis using parse_number [OF scan_number_int [OF that(2)], of fl m i] by (simp add: int_value_str)
  qed
  then show ?case by (simp add: reads_def)
next
  case (5 fl)
  have "parse_value fl n (''null'' @ rest) = Some (JNull, rest)" if "length ''null'' \<le> n" for n rest
    using that by (cases n) (simp_all add: parse_scalar_def scan_constant_def json_constants_def py_startswith_def)
  then show ?case by (simp add: reads_def)
next
  case (6 fl b)
  have "parse_value fl n (dumps_ascii (JBool b) @ rest) = Some (JBool b, rest)" if "length (dumps_ascii (JBool b)) \<le> n" for n rest
    using that by (cases n; cases b) (simp_all add: parse_scalar_def scan_constant_def json_constants_def py_startswith_def)
  then show ?case by (simp add: reads_def)
qed

lemma json_loads_dumps: "json_ok fl v \<Longrightarrow> json_loads fl (dumps_ascii v) = Some v"
proof -
  assume ok: "json_ok fl v"
  obtain c s where c: "dumps_ascii v = c # s" "\<not> is_json_space c" using dumps_hd [OF ok] by blast
  have "parse_value fl (Suc (length (dumps_ascii v))) (dumps_ascii v @ []) = Some (v, [])"
  proof -
    have "json_delim []" by (simp add: json_delim_def)
    then show ?thesis using reads_ok [OF ok] le_SucI [OF order_refl] unfolding reads_def by blast
  qed
  with c show ?thesis by (simp add: json_loads_def skip_ws_def del: parse_value.simps)
qed

lemma dumps_inject: "json_ok fl v \<Longrightarrow> json_ok fl w \<Longrightarrow> dumps_ascii v = dumps_ascii w \<Longrightarrow> v = w"
  using json_loads_dumps by (metis option.inject)

end
