(* ===== verification/Checkpoints.thy ===== *)
theory Checkpoints
  imports Collection_Models Json_Text
begin

section \<open>Checkpoints\<close>

text \<open>
  \<^verbatim>\<open>models/checkpoints.py\<close> and the request validation of \<^verbatim>\<open>connectors/base.py\<close>.  A checkpoint names the
  collection it belongs to by the digest of a canonical text, so that a cursor is only resumed by the
  same connector, version, source and collection.
\<close>

record connector_checkpoint =
  ck_connector :: string
  ck_connector_version :: string
  ck_source_id :: string
  ck_lineage :: string
  ck_collection_fingerprint :: string
  ck_resume_after :: json

text \<open>
  Python's \<^verbatim>\<open>==\<close> of JSON values: dictionaries compare without regard to the order of their keys, and
  booleans, integers and integral floats compare as numbers.
\<close>

definition number_value :: "json \<Rightarrow> json" where
  "number_value v = (case v of
     JBool b \<Rightarrow> JInt (if b then 1 else 0)
   | JFloat r \<Rightarrow> if py_endswith r ''.0'' \<and> CHR ''e'' \<notin> set r then JInt (int_value (take (length r - 2) r)) else v
   | _ \<Rightarrow> v)"

function json_equal :: "json \<Rightarrow> json \<Rightarrow> bool" where
  "json_equal (JDict a) w = (case w of
     JDict b \<Rightarrow> length a = length b \<and>
       list_all (\<lambda>(k, v). case map_of b k of None \<Rightarrow> False | Some u \<Rightarrow> json_equal v u) a
   | _ \<Rightarrow> False)"
| "json_equal (JList a) w = (case w of
     JList b \<Rightarrow> length a = length b \<and> list_all (\<lambda>(u, v). json_equal u v) (zip a b)
   | _ \<Rightarrow> False)"
| "json_equal (JStr s) w = (w = JStr s)"
| "json_equal JNull w = (w = JNull)"
| "json_equal (JBool b) w = (number_value (JBool b) = number_value w)"
| "json_equal (JInt i) w = (JInt i = number_value w)"
| "json_equal (JFloat r) w = (number_value (JFloat r) = number_value w)"
  by pat_completeness auto
termination
  by (relation "measure (size \<circ> fst)") (auto simp: json_entry_smaller less_Suc_eq_le size_list_estimation' dest: set_zip_leftD)

text \<open>\<^verbatim>\<open>_CredentialSafeCheckpoint.__init__\<close>, the field constraints and \<^verbatim>\<open>cursor_present\<close>.\<close>

definition checkpoint_validate :: "connector_checkpoint \<Rightarrow> exn + connector_checkpoint" where
  "checkpoint_validate c =
     res_bind (res_guard (json_equal (sanitize_json_value default_limits (ck_resume_after c)) (ck_resume_after c))
       ''checkpoint cursor contains credential-bearing or unsafe data'') (\<lambda>_.
     res_bind (res_guard (ck_connector c \<noteq> [] \<and> ck_connector_version c \<noteq> [] \<and> ck_source_id c \<noteq> [] \<and> ck_lineage c \<noteq> [])
       ''String should have at least 1 character'') (\<lambda>_.
     res_bind (res_guard (is_digest (ck_collection_fingerprint c)) ''String should match pattern'') (\<lambda>_.
     res_bind (res_guard (ck_resume_after c \<noteq> JNull) ''a checkpoint must contain a resume cursor'') (\<lambda>_. Inr c))))"

definition py_rstrip_slash :: "string \<Rightarrow> string" where
  "py_rstrip_slash s = rev (dropWhile (\<lambda>c. c = CHR ''/'') (rev s))"

definition normalized_base_url :: "string \<Rightarrow> exn + string" where
  "normalized_base_url url =
     (case urlsplit url of Inl e \<Rightarrow> Inl e
      | Inr parsed \<Rightarrow> Inr (urlunsplit (py_lower (us_scheme parsed)) (py_lower (us_netloc parsed))
          (py_rstrip_slash (us_path parsed)) [] []))"

definition collection_identity :: "collection_request \<Rightarrow> string \<Rightarrow> (string, json) odict \<Rightarrow> string \<Rightarrow> json" where
  "collection_identity request connector options base =
     JDict [(''base_url'', JStr base), (''connector'', JStr connector), (''options'', JDict options),
       (''partitions'', JList (map JStr (cq_partitions request))),
       (''refresh_mode'', JStr (refresh_mode_value (cq_refresh_mode request))),
       (''requested_fields'', JList (map JStr (sorted_list_of_set (snapshot_field_value ` cq_requested_fields request))))]"

definition collection_fingerprint :: "collection_request \<Rightarrow> string \<Rightarrow> (string, json) odict \<Rightarrow> exn + string" where
  "collection_fingerprint request connector options =
     res_bind (normalized_base_url (cq_base_url request)) (\<lambda>base.
       Inr (sha256_hex (json_canonical (collection_identity request connector options base))))"

definition build_checkpoint ::
  "string \<Rightarrow> string \<Rightarrow> collection_request \<Rightarrow> string \<Rightarrow> json \<Rightarrow> (string, json) odict \<Rightarrow> exn + connector_checkpoint" where
  "build_checkpoint connector connector_version request lineage resume_after options =
     res_bind (collection_fingerprint request connector options) (\<lambda>fingerprint.
       checkpoint_validate \<lparr>ck_connector = connector, ck_connector_version = connector_version,
         ck_source_id = cq_source_id request, ck_lineage = lineage, ck_collection_fingerprint = fingerprint,
         ck_resume_after = resume_after\<rparr>)"

definition validate_checkpoint ::
  "connector_checkpoint option \<Rightarrow> string \<Rightarrow> string \<Rightarrow> collection_request \<Rightarrow> (string, json) odict \<Rightarrow> exn + unit" where
  "validate_checkpoint checkpoint connector connector_version request options =
     (case checkpoint of None \<Rightarrow> Inr ()
      | Some c \<Rightarrow> res_bind (collection_fingerprint request connector options) (\<lambda>expected.
          res_guard (\<not> (ck_connector c \<noteq> connector \<or> ck_connector_version c \<noteq> connector_version \<or>
              ck_source_id c \<noteq> cq_source_id request \<or> ck_collection_fingerprint c \<noteq> expected))
            ''CHECKPOINT_INVALID: checkpoint does not belong to this collection''))"

definition validate_connector_request ::
  "connector_capabilities \<Rightarrow> string \<Rightarrow> string \<Rightarrow> string \<Rightarrow> collection_request \<Rightarrow> connector_checkpoint option \<Rightarrow>
   (string, json) odict \<Rightarrow> string option \<Rightarrow> bool \<Rightarrow> exn + unit" where
  "validate_connector_request capabilities unsupported_message connector connector_version request checkpoint options
       pre_checkpoint_error capabilities_checked =
     (if \<not> capabilities_checked \<and> \<not> capabilities_support capabilities (cq_requested_fields request) (cq_refresh_mode request)
      then Inl (ValueError unsupported_message)
      else (case pre_checkpoint_error of Some message \<Rightarrow> Inl (ValueError message)
        | None \<Rightarrow> validate_checkpoint checkpoint connector connector_version request options))"

subsection \<open>Identity of a collection\<close>

lemma sort_keys_ok: "json_ok fl v \<Longrightarrow> json_ok fl (sort_keys v)"
proof (induction v rule: sort_keys.induct)
  case (1 kvs)
  let ?s = "map (\<lambda>(k, v). (k, sort_keys v)) kvs"
  have keys: "map fst ?s = map fst kvs" by (simp add: case_prod_beta)
  have "distinct (map fst ?s)" unfolding keys using 1(2) by simp
  then have "distinct (map fst (sort_key fst ?s))"
    by (metis distinct_map distinct_sort set_sort)
  moreover have "ascii k \<and> json_ok fl (sort_keys v)" if "(k, v) \<in> set kvs" for k v
    using that 1 by fastforce
  ultimately show ?case by auto
qed auto

lemma identity_sorted:
  "sort_keys (collection_identity r c opts b) =
     JDict [(''base_url'', JStr b), (''connector'', JStr c), (''options'', sort_keys (JDict opts)),
       (''partitions'', JList (map JStr (cq_partitions r))), (''refresh_mode'', JStr (refresh_mode_value (cq_refresh_mode r))),
       (''requested_fields'', JList (map JStr (sorted_list_of_set (snapshot_field_value ` cq_requested_fields r))))]"
proof -
  let ?kvs = "[(''base_url'', JStr b), (''connector'', JStr c), (''options'', sort_keys (JDict opts)),
       (''partitions'', JList (map JStr (cq_partitions r))), (''refresh_mode'', JStr (refresh_mode_value (cq_refresh_mode r))),
       (''requested_fields'', JList (map JStr (sorted_list_of_set (snapshot_field_value ` cq_requested_fields r))))]"
  have "sorted [''base_url'', ''connector'', ''options'', ''partitions'', ''refresh_mode'', ''requested_fields'']" by code_simp
  then have "sorted (map fst ?kvs)" by simp
  then have "sort_key fst ?kvs = ?kvs" by (rule sort_key_id_if_sorted)
  then show ?thesis by (simp add: collection_identity_def comp_def)
qed

lemma field_value_inj: "inj snapshot_field_value"
proof (rule injI)
  fix a b
  show "snapshot_field_value a = snapshot_field_value b \<Longrightarrow> a = b"
    by (cases a; cases b) auto
qed

lemma snapshot_fields_finite: "finite (S :: snapshot_field set)"
proof -
  have "(UNIV :: snapshot_field set) = {FieldIdentity, FieldDescription, FieldCategories, FieldImages, FieldVariants, FieldOffers,
    FieldStock, FieldDocuments, FieldPublishedAttributes, FieldPlatformExtensions}"
    using snapshot_field.exhaust by blast
  then show ?thesis by (metis finite.emptyI finite.insertI finite_subset subset_UNIV)
qed

lemma field_list_inject:
  assumes "sorted_list_of_set (snapshot_field_value ` S) = sorted_list_of_set (snapshot_field_value ` T)"
  shows "S = T"
proof -
  have "snapshot_field_value ` S = snapshot_field_value ` T"
    using assms snapshot_fields_finite by (metis finite_imageI set_sorted_list_of_set)
  then show ?thesis using field_value_inj by (simp add: inj_image_eq_iff)
qed

lemma map_JStr_inject: "map JStr a = map JStr b \<Longrightarrow> a = b"
  by (rule map_injective) (auto simp: inj_def)

lemma identity_inject:
  assumes "json_ok fl (collection_identity r c opts b)" "json_ok fl (collection_identity r' c' opts' b')"
    and "json_canonical (collection_identity r c opts b) = json_canonical (collection_identity r' c' opts' b')"
  shows "b = b' \<and> c = c' \<and> sort_keys (JDict opts) = sort_keys (JDict opts') \<and> cq_partitions r = cq_partitions r' \<and>
    cq_refresh_mode r = cq_refresh_mode r' \<and> cq_requested_fields r = cq_requested_fields r'"
proof -
  have "sort_keys (collection_identity r c opts b) = sort_keys (collection_identity r' c' opts' b')"
    using assms dumps_inject [OF sort_keys_ok sort_keys_ok] by (simp add: json_canonical_def)
  moreover have "refresh_mode_value m = refresh_mode_value m' \<Longrightarrow> m = m'" for m m' by (cases m; cases m') auto
  ultimately show ?thesis
    unfolding identity_sorted using map_JStr_inject field_list_inject by simp
qed

subsection \<open>Properties\<close>

text \<open>
  A checkpoint can be resumed by its own collection: with named connector, version, source and lineage,
  a parsable base URL and a cursor that the sanitizer leaves alone and that is not null, a checkpoint is
  built, it holds the cursor, and the same collection accepts it.
\<close>

theorem checkpoint_resumes:
  assumes "normalized_base_url (cq_base_url request) = Inr base"
    and "connector \<noteq> []" "version \<noteq> []" "cq_source_id request \<noteq> []" "lineage \<noteq> []"
    and "json_equal (sanitize_json_value default_limits cursor) cursor" "cursor \<noteq> JNull"
  shows "\<exists>c. build_checkpoint connector version request lineage cursor options = Inr c \<and> ck_resume_after c = cursor \<and>
    validate_checkpoint (Some c) connector version request options = Inr ()"
  using assms sha256_digest
  by (simp add: build_checkpoint_def collection_fingerprint_def checkpoint_validate_def validate_checkpoint_def res_bind_def res_guard_def)

text \<open>
  C29. A checkpoint is not resumed by another collection.  If a collection accepts a checkpoint that was
  built for another one, connector, version and source are the same, and so are the normalized base URL,
  the options up to the order of keys, the partitions, the refresh mode and the requested fields,
  unless the two canonical texts are a collision of SHA-256.
\<close>

theorem checkpoint_identity:
  assumes "build_checkpoint connector version request lineage cursor options = Inr c"
    and "validate_checkpoint (Some c) connector' version' request' options' = Inr ()"
    and "normalized_base_url (cq_base_url request) = Inr base" and "normalized_base_url (cq_base_url request') = Inr base'"
    and "json_ok fl (collection_identity request connector options base)"
    and "json_ok fl (collection_identity request' connector' options' base')"
  shows "connector = connector' \<and> version = version' \<and> cq_source_id request = cq_source_id request' \<and>
    (base = base' \<and> sort_keys (JDict options) = sort_keys (JDict options') \<and> cq_partitions request = cq_partitions request' \<and>
      cq_refresh_mode request = cq_refresh_mode request' \<and> cq_requested_fields request = cq_requested_fields request' \<or>
     (let t = json_canonical (collection_identity request connector options base);
          t' = json_canonical (collection_identity request' connector' options' base')
      in t \<noteq> t' \<and> sha256_hex t = sha256_hex t'))"
proof -
  let ?t = "json_canonical (collection_identity request connector options base)"
  let ?t' = "json_canonical (collection_identity request' connector' options' base')"
  have "connector = connector'" "version = version'" "cq_source_id request = cq_source_id request'" "sha256_hex ?t = sha256_hex ?t'"
    using assms(1-4)
    by (auto simp: build_checkpoint_def collection_fingerprint_def checkpoint_validate_def validate_checkpoint_def res_bind_Inr
        res_guard_Inr)
  with identity_inject [OF assms(5,6)] show ?thesis by (auto simp: Let_def)
qed

subsection \<open>Witnesses\<close>

definition sample_collection :: collection_request where
  "sample_collection = \<lparr>cq_source_id = ''s'', cq_base_url = ''HTTPS://Shop.x/'', cq_refresh_mode = FullRefresh,
     cq_requested_fields = {FieldStock}, cq_result_limit = None, cq_partitions = [''p''], cq_deadline = None\<rparr>"

lemma sample_base: "normalized_base_url (cq_base_url sample_collection) = Inr ''https://shop.x''"
  by code_simp

lemma int_cursor: "json_equal (sanitize_json_value default_limits (JInt 3)) (JInt 3)"
proof -
  have nodes: "nat (max_total_nodes default_limits) = Suc 499" by (simp add: default_limits_def)
  show ?thesis unfolding sanitize_json_value_def nodes sanitize_node.simps by (simp add: number_value_def)
qed

theorem checkpoint_resumes_witness:
  "\<exists>c. build_checkpoint ''c'' ''1'' sample_collection ''l'' (JInt 3) [] = Inr c \<and>
     validate_checkpoint (Some c) ''c'' ''1'' sample_collection [] = Inr ()"
proof -
  have "cq_source_id sample_collection \<noteq> []" by (simp add: sample_collection_def)
  from checkpoint_resumes [of sample_collection, OF sample_base _ _ this _ int_cursor, of "''c''" "''1''" "''l''" "[]"]
  show ?thesis by auto
qed

theorem checkpoint_identity_witness:
  "\<exists>c. build_checkpoint ''c'' ''1'' sample_collection ''l'' (JInt 3) [] = Inr c \<and>
     validate_checkpoint (Some c) ''c'' ''1'' sample_collection [] = Inr () \<and> ck_connector c = ''c''"
proof -
  have src: "cq_source_id sample_collection \<noteq> []" by (simp add: sample_collection_def)
  have ok: "json_ok id (collection_identity sample_collection ''c'' [] ''https://shop.x'')"
    by (simp add: collection_identity_def sample_collection_def ascii_def code_of_def sorted_list_of_set_insert_remove)
  obtain c where c: "build_checkpoint ''c'' ''1'' sample_collection ''l'' (JInt 3) [] = Inr c"
    "validate_checkpoint (Some c) ''c'' ''1'' sample_collection [] = Inr ()"
    using sample_base src int_cursor sha256_digest
    by (simp add: build_checkpoint_def collection_fingerprint_def checkpoint_validate_def validate_checkpoint_def res_bind_def res_guard_def)
  from checkpoint_identity [OF c sample_base sample_base ok ok] c show ?thesis
    by (auto simp: validate_checkpoint_def res_bind_Inr res_guard_Inr)
qed

end
