(* ===== verification/Browser_Dispatch.thy ===== *)
theory Browser_Dispatch
  imports Effects Urls Weighted_Selection
begin

section \<open>Browser dispatch\<close>

text \<open>
  \<^verbatim>\<open>transports/browser.py\<close>: \<^verbatim>\<open>BrowserDispatchTransport\<close> chooses between the HTTP transport and the
  browser by the browser policy and the hint of the request.  Both backends are arbitrary; the log holds
  the calls of the backends and the telemetry events with their fields.  The telemetry sink is the
  contained one, which never raises.
\<close>

fun browser_hint_value :: "browser_hint \<Rightarrow> string" where
  "browser_hint_value BrowserNever = ''never''"
| "browser_hint_value BrowserOptional = ''optional''"
| "browser_hint_value BrowserRequired = ''required''"

fun browser_policy_value :: "browser_policy \<Rightarrow> string" where
  "browser_policy_value BrowserPolicyNever = ''never''"
| "browser_policy_value BrowserPolicyAllow = ''allow''"
| "browser_policy_value BrowserPolicyRequire = ''require''"

fun purpose_value :: "request_purpose \<Rightarrow> string" where
  "purpose_value PurposeRobots = ''robots''"
| "purpose_value PurposeDiscovery = ''discovery''"
| "purpose_value PurposeEntity = ''entity''"
| "purpose_value PurposeEnrichment = ''enrichment''"

definition transport_trace_fields :: "transport_request \<Rightarrow> (string, json) odict" where
  "transport_trace_fields request =
     (case req_trace_request_id request of None \<Rightarrow> [] | Some i \<Rightarrow> [(''request_id'', JStr i)]) @
     (case req_trace_attempt request of None \<Rightarrow> [] | Some n \<Rightarrow> [(''attempt'', JInt (int n))])"

text \<open>The dictionary display \<^verbatim>\<open>{**a, **b}\<close>.\<close>

definition od_merge :: "('k, 'v) odict \<Rightarrow> ('k, 'v) odict \<Rightarrow> ('k, 'v) odict" where
  "od_merge a b = fold (\<lambda>(k, v). od_set k v) b a"

datatype bd_call =
    BdHttp transport_request "exn + transport_response"
  | BdBrowser transport_request "exn + transport_response"
  | BdRotateHttp rotation_reason "exn + unit"
  | BdRotateBrowser rotation_reason "exn + unit"
  | BdEmit string "(string, json) odict"

record bd_config =
  bd_policy :: browser_policy
  bd_proxy_browser_supported :: bool
  bd_telemetry :: bool
  bd_telemetry_context :: "(string, json) odict"
  bd_maximum_response_bytes :: nat

text \<open>The browser is optional; \<open>bd_same\<close> tells that it is the HTTP transport itself.\<close>

record 'e bd_backend =
  bk_request :: "transport_request \<Rightarrow> ('e, transport_response) act"
  bk_rotate :: "rotation_reason \<Rightarrow> ('e, unit) act"

record 'e bd_ops =
  bd_http :: "'e bd_backend"
  bd_browser :: "'e bd_backend option"
  bd_same :: bool

type_synonym ('e, 'a) bd_act = "((bd_call, 'e) world, 'a) act"

definition bd_init ::
  "browser_policy \<Rightarrow> bool \<Rightarrow> bool \<Rightarrow> (string, json) odict \<Rightarrow> int \<Rightarrow> exn + bd_config" where
  "bd_init policy proxy_browser_supported telemetry context maximum_response_bytes =
     (if maximum_response_bytes < 1 then Inl (ValueError ''maximum_response_bytes must be positive'')
      else Inr \<lparr>bd_policy = policy, bd_proxy_browser_supported = proxy_browser_supported, bd_telemetry = telemetry,
        bd_telemetry_context = context, bd_maximum_response_bytes = nat maximum_response_bytes\<rparr>)"

definition bd_emit ::
  "bd_config \<Rightarrow> string \<Rightarrow> transport_request \<Rightarrow> (string, json) odict \<Rightarrow> ('e, unit) bd_act" where
  "bd_emit cfg event request flds =
     whenA (bd_telemetry cfg) (record_call (BdEmit event
       (od_merge (od_merge (od_merge (bd_telemetry_context cfg) (transport_trace_fields request))
         [(''level'', JStr ''debug''), (''url'', JStr (req_url request)),
          (''purpose'', JStr (purpose_value (req_purpose request)))]) flds)))"

definition bd_bounded :: "bd_config \<Rightarrow> transport_response \<Rightarrow> ('e, transport_response) bd_act" where
  "bd_bounded cfg response = liftA (enforce_response_body_limit response (bd_maximum_response_bytes cfg))"

text \<open>The telemetry of a dispatch and of a denial.\<close>

definition bd_dispatched ::
  "bd_config \<Rightarrow> transport_request \<Rightarrow> transport_request \<Rightarrow> string \<Rightarrow> (string, json) odict \<Rightarrow> ('e, unit) bd_act" where
  "bd_dispatched cfg sent original selected extra =
     bd_emit cfg ''browser.dispatch'' sent
       ([(''selected'', JStr selected), (''requested'', JStr (browser_hint_value (req_browser original))),
         (''policy'', JStr (browser_policy_value (bd_policy cfg)))] @ extra)"

definition bd_denied ::
  "bd_config \<Rightarrow> transport_request \<Rightarrow> transport_request \<Rightarrow> string \<Rightarrow> exn \<Rightarrow> ('e, transport_response) bd_act" where
  "bd_denied cfg sent original reason e =
     thenA (bd_emit cfg ''browser.denied'' sent
       [(''reason'', JStr reason), (''requested'', JStr (browser_hint_value (req_browser original))), (''level'', JStr ''warning'')])
     (raise e)"

definition bd_send_http ::
  "bd_config \<Rightarrow> 'e bd_ops \<Rightarrow> transport_request \<Rightarrow> transport_request \<Rightarrow> ('e, transport_response) bd_act" where
  "bd_send_http cfg ops sent original =
     thenA (bd_dispatched cfg sent original ''http'' [])
       (bindA (call (BdHttp sent) (bk_request (bd_http ops) sent)) (bd_bounded cfg))"

definition browser_route :: "route_metadata \<Rightarrow> route_metadata" where
  "browser_route route = route\<lparr>route_kind := RouteBrowser\<rparr>"

definition bd_send_browser ::
  "bd_config \<Rightarrow> 'e bd_backend \<Rightarrow> transport_request \<Rightarrow> transport_request \<Rightarrow> ('e, transport_response) bd_act" where
  "bd_send_browser cfg browser sent original =
     thenA (bd_dispatched cfg sent original ''browser''
         [(''promoted'', JBool (req_browser sent \<noteq> req_browser original))])
       (bindA (call (BdBrowser sent) (bk_request browser sent)) (\<lambda>response.
         bd_bounded cfg (response\<lparr>resp_route := browser_route (resp_route response)\<rparr>)))"

definition browser_request_of :: "bd_config \<Rightarrow> transport_request \<Rightarrow> transport_request" where
  "browser_request_of cfg request =
     (if bd_policy cfg = BrowserPolicyRequire \<and> req_browser request = BrowserOptional
      then request\<lparr>req_browser := BrowserRequired\<rparr> else request)"

definition bd_request ::
  "bd_config \<Rightarrow> 'e bd_ops \<Rightarrow> transport_request \<Rightarrow> ('e, transport_response) bd_act" where
  "bd_request cfg ops request =
     (if bd_policy cfg = BrowserPolicyNever
      then if req_browser request = BrowserRequired
        then bd_denied cfg request request ''policy_never'' BrowserBackendUnavailable
        else bd_send_http cfg ops request request
      else let browser_request = browser_request_of cfg request in
        if req_browser browser_request \<noteq> BrowserRequired then bd_send_http cfg ops browser_request request
        else (case bd_browser ops of
            None \<Rightarrow> bd_denied cfg browser_request request ''backend_unavailable'' BrowserBackendUnavailable
          | Some browser \<Rightarrow>
              if \<not> bd_proxy_browser_supported cfg
              then bd_denied cfg browser_request request ''proxy_browser_unsupported'' ProxyBrowserRoutingUnsupported
              else bd_send_browser cfg browser browser_request request))"

definition bd_rotate_identity :: "'e bd_ops \<Rightarrow> rotation_reason \<Rightarrow> ('e, unit) bd_act" where
  "bd_rotate_identity ops reason =
     thenA (call (BdRotateHttp reason) (bk_rotate (bd_http ops) reason))
       (case bd_browser ops of
          None \<Rightarrow> ret ()
        | Some browser \<Rightarrow> whenA (\<not> bd_same ops) (call (BdRotateBrowser reason) (bk_rotate browser reason)))"

subsection \<open>The proxy of a lease\<close>

text \<open>\<^verbatim>\<open>HttpxProxyTransportFactory\<close>: the URL that projects a lease into the HTTP client.\<close>

record httpx_proxy_factory =
  hf_allowed_origins :: "string list"
  hf_maximum_response_bytes :: nat

definition httpx_proxy_factory_init :: "string list \<Rightarrow> int \<Rightarrow> exn + httpx_proxy_factory" where
  "httpx_proxy_factory_init allowed_origins maximum_response_bytes =
     (if maximum_response_bytes < 1 then Inl (ValueError ''maximum_response_bytes must be positive'')
      else Inr \<lparr>hf_allowed_origins = allowed_origins, hf_maximum_response_bytes = nat maximum_response_bytes\<rparr>)"

fun protocol_value :: "proxy_protocol \<Rightarrow> string" where
  "protocol_value ProtoHttp = ''http''"
| "protocol_value ProtoHttps = ''https''"
| "protocol_value ProtoSocks5 = ''socks5''"

definition lease_proxy_url :: "proxy_credentials \<Rightarrow> proxy_endpoint \<Rightarrow> string" where
  "lease_proxy_url credentials route =
     protocol_value (ep_protocol route) @ ''://'' @ quote (cred_username credentials) @ '':'' @
       quote (cred_password credentials) @ ''@'' @ ep_host route @ '':'' @ nat_str (ep_port route)"

subsection \<open>Percent encoding of credentials\<close>

lemma unquote_quote [simp]: "unquote (quote s) = s"
  by (induction s) (auto simp: quote_def unquote_Cons dest: always_safe_not_special)

text \<open>What \<^verbatim>\<open>quote\<close> writes, and the characters of a host name.\<close>

definition url_plain :: "char \<Rightarrow> bool" where
  "url_plain c \<longleftrightarrow> always_safe c \<or> c = CHR ''%''"

lemma quote_plain: "c \<in> set (quote s) \<Longrightarrow> url_plain c"
proof (induction s)
  case (Cons a s)
  have "code_of a div 16 < 16" using char_code_lt [of a] by simp
  then have "always_safe (hex_digit (code_of a div 16))" "always_safe (hex_digit (code_of a mod 16))"
    by (simp_all add: hex_digit_safe)
  with Cons show ?case by (auto simp: quote_def quote_char_def url_plain_def split: if_splits)
qed (simp add: quote_def)

lemma url_plain_not:
  "\<not> url_plain (CHR ''@'')" "\<not> url_plain (CHR '':'')" "\<not> url_plain (CHR ''['')" "\<not> url_plain (CHR '']'')"
  "\<not> url_plain (CHR ''/'')" "\<not> url_plain (CHR ''?'')" "\<not> url_plain (CHR ''#'')" "url_plain c \<Longrightarrow> 32 < code_of c"
  by (auto simp: url_plain_def char_class_defs code_of_def)

lemma quote_chars:
  "CHR ''@'' \<notin> set (quote s)" "CHR '':'' \<notin> set (quote s)" "CHR ''['' \<notin> set (quote s)" "CHR '']'' \<notin> set (quote s)"
  using quote_plain url_plain_not by blast+

lemma py_rpartition_last: "c \<notin> set b \<Longrightarrow> py_rpartition c (a @ c # b) = (a, True, b)"
  using py_partition_first [of c "rev b" "rev a"] by (simp add: py_rpartition_def)

lemma port_digits: "digits_value (nat_str n) = n" "list_all is_digit_char (nat_str n)"
  using nat_str_digits by (auto simp: digits_value_def nat_str_decode list_all_iff)

lemma digit_plain: "is_digit_char c \<Longrightarrow> url_plain c"
  by (simp add: url_plain_def char_class_defs)

text \<open>A text without control characters, query, path or fragment delimiters is all netloc.\<close>

lemma urlsplit_netloc:
  assumes "scheme \<in> {''http'', ''https'', ''socks5''}"
    and "list_all (\<lambda>c. url_plain c \<or> c = CHR ''@'' \<or> c = CHR '':'') netloc"
  shows "urlsplit (scheme @ ''://'' @ netloc) =
    Inr \<lparr>us_scheme = scheme, us_netloc = netloc, us_path = [], us_query = [], us_fragment = []\<rparr>"
proof -
  have ok: "32 < code_of c" "\<not> is_netloc_end c" "c \<noteq> CHR ''[''" "c \<noteq> CHR '']''" if "c \<in> set netloc" for c
    using assms(2) that url_plain_not by (auto simp: list_all_iff is_netloc_end_def code_of_def)
  then have netloc: "filter (\<lambda>c. code_of c \<notin> {9, 10, 13}) netloc = netloc" "takeWhile (Not \<circ> is_netloc_end) netloc = netloc"
    "dropWhile (Not \<circ> is_netloc_end) netloc = []"
    by (fastforce simp: filter_id_conv takeWhile_eq_all_conv)+
  have "bracketed_netloc_ok netloc" using ok(3,4) by (auto simp: bracketed_netloc_ok_def)
  moreover have "url_clean (scheme @ ''://'' @ netloc) = scheme @ ''://'' @ netloc"
    using assms(1) netloc(1) by (auto simp: url_clean_def code_of_def)
  moreover have "split_scheme [] (scheme @ ''://'' @ netloc) = (scheme, ''//'' @ netloc)"
    using assms(1)
    by (auto simp: split_scheme_def is_scheme_char_def char_class_defs code_of_def py_lower_def lower_char_def is_upper_char_def)
  ultimately show ?thesis
    by (simp add: urlsplit_def urlsplit_default_def py_startswith_def netloc del: o_apply)
qed

subsection \<open>Properties\<close>

definition backend_call :: "bd_call \<Rightarrow> bool" where
  "backend_call c = (case c of BdEmit _ _ \<Rightarrow> False | _ \<Rightarrow> True)"

definition bounded_answer :: "bd_config \<Rightarrow> exn + transport_response \<Rightarrow> exn + transport_response" where
  "bounded_answer cfg a = (case a of Inl e \<Rightarrow> Inl e
     | Inr response \<Rightarrow> enforce_response_body_limit response (bd_maximum_response_bytes cfg))"

text \<open>
  C24. Browser work is never downgraded.  A request makes at most one backend call.  The HTTP transport
  gets only requests that do not require a browser, unchanged, and under the policy that requires the
  browser only requests that refuse one; the browser is called only if the policy allows it and the
  route supports it, with a request that requires it.  The result is the bounded answer of that call,
  marked as a browser route if the browser gave it; without a call it is the denial.
\<close>

theorem browser_dispatch:
  assumes "bd_request cfg ops request w = (r, w')"
  shows "\<exists>calls. w_log w' = calls @ w_log w \<and> (case filter backend_call calls of
      [] \<Rightarrow> req_browser (browser_request_of cfg request) = BrowserRequired \<and>
        r = Inl (if bd_policy cfg = BrowserPolicyNever \<or> bd_browser ops = None then BrowserBackendUnavailable
          else ProxyBrowserRoutingUnsupported)
    | [BdHttp q a] \<Rightarrow> q = request \<and> req_browser q \<noteq> BrowserRequired \<and>
        (bd_policy cfg = BrowserPolicyRequire \<longrightarrow> req_browser q = BrowserNever) \<and> r = bounded_answer cfg a
    | [BdBrowser q a] \<Rightarrow> bd_policy cfg \<noteq> BrowserPolicyNever \<and> bd_proxy_browser_supported cfg \<and>
        q = request\<lparr>req_browser := BrowserRequired\<rparr> \<and>
        r = bounded_answer cfg (map_sum id (\<lambda>p. p\<lparr>resp_route := (resp_route p)\<lparr>route_kind := RouteBrowser\<rparr>\<rparr>) a)
    | _ \<Rightarrow> False)"
  using assms
  by (cases "req_browser request"; cases "bd_policy cfg"; cases "bd_telemetry cfg")
    (auto simp: bd_request_def browser_request_of_def bd_denied_def bd_send_http_def bd_send_browser_def bd_dispatched_def
      bd_emit_def bd_bounded_def act_defs call_def record_call_def backend_call_def bounded_answer_def browser_route_def Let_def
      split: option.splits prod.splits sum.splits if_splits)


subsection \<open>Witnesses\<close>

definition page_request :: transport_request where
  "page_request = \<lparr>req_method = ''GET'', req_url = ''https://shop.example/p'', req_query = [], req_headers = [],
     req_json_body = None, req_body = None, req_purpose = PurposeEntity, req_priority = PriorityDetail, req_required = True,
     req_estimated_bytes = 0, req_cache = CacheDefault, req_browser = BrowserOptional, req_evaluation = None,
     req_trace_request_id = None, req_trace_attempt = None\<rparr>"

definition ok_response :: transport_response where
  "ok_response = \<lparr>resp_status = 200, resp_headers = [], resp_content = ''ok'', resp_final_url = ''https://shop.example/p'',
     resp_route = route_default, resp_from_cache = False, resp_elapsed_seconds = 0, resp_accounting = None\<rparr>"

definition answering_backend :: "unit bd_backend" where
  "answering_backend = \<lparr>bk_request = (\<lambda>_. ret ok_response), bk_rotate = (\<lambda>_. ret ())\<rparr>"

theorem browser_dispatch_witness:
  "\<exists>calls. w_log (snd (bd_request \<lparr>bd_policy = BrowserPolicyRequire, bd_proxy_browser_supported = True, bd_telemetry = False,
       bd_telemetry_context = [], bd_maximum_response_bytes = 10\<rparr>
       \<lparr>bd_http = answering_backend, bd_browser = Some answering_backend, bd_same = False\<rparr>
       page_request \<lparr>w_env = (), w_log = []\<rparr>)) = calls \<and>
     filter backend_call calls = [BdBrowser (page_request\<lparr>req_browser := BrowserRequired\<rparr>) (Inr ok_response)]"
proof -
  let ?cfg = "\<lparr>bd_policy = BrowserPolicyRequire, bd_proxy_browser_supported = True, bd_telemetry = False,
       bd_telemetry_context = [], bd_maximum_response_bytes = 10\<rparr>"
  let ?ops = "\<lparr>bd_http = answering_backend, bd_browser = Some answering_backend, bd_same = False\<rparr>"
  let ?w = "\<lparr>w_env = (), w_log = []\<rparr> :: (bd_call, unit) world"
  have run: "bd_request ?cfg ?ops page_request ?w =
     (Inr (ok_response\<lparr>resp_route := \<lparr>route_kind = RouteBrowser, route_provider = None, route_endpoint_id = None,
        route_lease_id = None\<rparr>\<rparr>),
      \<lparr>w_env = (), w_log = [BdBrowser (page_request\<lparr>req_browser := BrowserRequired\<rparr>) (Inr ok_response)]\<rparr>)"
    by (simp add: bd_request_def browser_request_of_def bd_send_browser_def bd_dispatched_def bd_emit_def bd_bounded_def act_defs
        call_def browser_route_def enforce_response_body_limit_def answering_backend_def ok_response_def page_request_def
        route_default_def)
  from browser_dispatch [OF run] run show ?thesis by (simp add: backend_call_def)
qed


end
