(* ===== verification/Response_Cache.thy ===== *)
theory Response_Cache
  imports Checkpoints Browser_Dispatch Rate_Limit
begin

section \<open>Response caches\<close>

text \<open>
  \<^verbatim>\<open>transports/cache.py\<close>: which requests may be cached and under which key, the bounded cache in memory
  and the cache in files.
\<close>

subsection \<open>The identity of a request\<close>

definition keyed_request_headers :: "string list" where
  "keyed_request_headers = [''accept'', ''accept-language'', ''content-type'']"

definition cache_credential_markers :: "string list" where
  "cache_credential_markers = [''authorization'', ''cookie'', ''password'', ''passwd'', ''passphrase'', ''secret'', ''apikey'',
     ''accesskey'', ''privatekey'', ''clientkey'', ''credential'', ''signature'', ''token'', ''proxyuser'']"

definition normalized_name :: "string \<Rightarrow> string" where
  "normalized_name value = filter is_alnum_char (py_lower value)"

definition credential_name :: "string \<Rightarrow> bool" where
  "credential_name value =
     (let normalized = normalized_name value in
      normalized \<in> {''auth'', ''key'', ''sig''} \<or> list_ex (\<lambda>marker. py_contains marker normalized) cache_credential_markers)"

text \<open>The query of the URL and of the request; a boolean is written in lower case.\<close>

definition request_pairs :: "split_result \<Rightarrow> transport_request \<Rightarrow> (string \<times> string) list" where
  "request_pairs parsed request =
     parse_qsl (us_query parsed) @ map (\<lambda>(k, v). (k, query_accounting_value v)) (req_query request)"

definition cache_authority :: "string \<Rightarrow> string \<Rightarrow> nat option \<Rightarrow> string" where
  "cache_authority scheme host port =
     (let host' = (if CHR '':'' \<in> set host then ''['' @ host @ '']'' else host) in
      case port of None \<Rightarrow> host'
      | Some p \<Rightarrow> if p = (if scheme = ''http'' then 80 else 443) then host' else host' @ '':'' @ nat_str p)"

definition normalized_url_and_query :: "transport_request \<Rightarrow> (string \<times> (string \<times> string) list) option" where
  "normalized_url_and_query request =
     (case urlsplit (req_url request) of Inl _ \<Rightarrow> None
      | Inr parsed \<Rightarrow> (case us_port parsed of Inl _ \<Rightarrow> None
        | Inr port \<Rightarrow>
            (let scheme = py_lower (us_scheme parsed) in
             case us_hostname parsed of None \<Rightarrow> None
             | Some host \<Rightarrow>
                 if scheme \<notin> {''http'', ''https''} \<or> fst (us_userinfo parsed) \<noteq> None \<or> snd (us_userinfo parsed) \<noteq> None then None
                 else (case idna_ascii host of Inl _ \<Rightarrow> None
                   | Inr encoded \<Rightarrow>
                       (let query = request_pairs parsed request in
                        if list_ex (\<lambda>(k, v). credential_name k) query then None
                        else (let normalized_query = sort query in
                          Some (urlunsplit scheme (cache_authority scheme (py_lower encoded) port)
                              (if us_path parsed = [] then ''/'' else us_path parsed) (urlencode normalized_query) [],
                            normalized_query)))))))"

definition relevant_headers :: "(string, string) odict \<Rightarrow> (string, string) odict" where
  "relevant_headers headers =
     fold (\<lambda>(name, value) d. if py_lower name \<in> set keyed_request_headers then od_set (py_lower name) value d else d) headers []"

definition cache_body :: "transport_request \<Rightarrow> string" where
  "cache_body request =
     (case req_json_body request of Some v \<Rightarrow> json_canonical v
      | None \<Rightarrow> (case req_body request of None \<Rightarrow> [] | Some b \<Rightarrow> b))"

definition evaluation_identity :: "browser_evaluation option \<Rightarrow> json" where
  "evaluation_identity evaluation =
     (case evaluation of None \<Rightarrow> JNull
      | Some e \<Rightarrow> JDict [(''action_id'', JStr (action_id e)), (''script_sha256'', JStr (sha256_hex (script e))),
          (''wait_for'', case wait_for e of None \<Rightarrow> JNull | Some w \<Rightarrow> JStr w),
          (''wait_milliseconds'', JInt (int (wait_milliseconds e)))])"

definition request_identity :: "transport_request \<Rightarrow> json" where
  "request_identity request =
     (let (url, query) = (case normalized_url_and_query request of None \<Rightarrow> (''[ineligible]'', []) | Some n \<Rightarrow> n) in
      JDict [(''schema'', JInt 3), (''method'', JStr (py_upper (req_method request))), (''url'', JStr url),
        (''query'', JList (map (\<lambda>(k, v). JList [JStr k, JStr v]) query)),
        (''headers'', JDict (map (\<lambda>(k, v). (k, JStr v)) (relevant_headers (req_headers request)))),
        (''body'', JStr (sha256_hex (cache_body request))), (''browser'', JStr (browser_hint_value (req_browser request))),
        (''evaluation'', evaluation_identity (req_evaluation request))])"

record cache_identity =
  ci_key :: string
  ci_eligible :: bool

definition request_cache_identity :: "transport_request \<Rightarrow> cache_identity" where
  "request_cache_identity request =
     \<lparr>ci_key = sha256_hex (json_canonical (request_identity request)),
      ci_eligible = (normalized_url_and_query request \<noteq> None \<and> \<not> list_ex (\<lambda>(name, _). credential_name name) (req_headers request))\<rparr>"

subsection \<open>Lookups\<close>

record cache_lookup =
  cl_fresh :: "transport_response option"
  cl_stale :: "transport_response option"
  cl_identity :: cache_identity
  cl_writable :: bool

definition cached_response :: "transport_response \<Rightarrow> transport_response" where
  "cached_response response =
     response\<lparr>resp_route := route_cache, resp_from_cache := True, resp_elapsed_seconds := 0, resp_accounting := None\<rparr>"

subsection \<open>The cache in memory\<close>

record memory_cache =
  mc_maximum_entries :: nat
  mc_maximum_response_bytes :: nat
  mc_entries :: "(string, transport_response) odict"

definition memory_cache_init :: "int \<Rightarrow> int \<Rightarrow> exn + memory_cache" where
  "memory_cache_init maximum_entries maximum_response_bytes =
     (if maximum_entries < 1 then Inl (ValueError ''maximum_entries must be positive'')
      else if maximum_response_bytes < 1 then Inl (ValueError ''maximum_response_bytes must be positive'')
      else Inr \<lparr>mc_maximum_entries = nat maximum_entries, mc_maximum_response_bytes = nat maximum_response_bytes, mc_entries = []\<rparr>)"

definition mc_get_with_stale :: "memory_cache \<Rightarrow> transport_request \<Rightarrow> cache_lookup" where
  "mc_get_with_stale c request =
     (let identity = request_cache_identity request in
      if \<not> ci_eligible identity \<or> req_cache request \<noteq> CacheDefault
      then \<lparr>cl_fresh = None, cl_stale = None, cl_identity = identity,
             cl_writable = (ci_eligible identity \<and> req_cache request \<noteq> CacheBypass)\<rparr>
      else \<lparr>cl_fresh = map_option cached_response (map_of (mc_entries c) (ci_key identity)), cl_stale = None,
             cl_identity = identity, cl_writable = True\<rparr>)"

definition mc_get :: "memory_cache \<Rightarrow> transport_request \<Rightarrow> transport_response option" where
  "mc_get c request = cl_fresh (mc_get_with_stale c request)"

text \<open>\<^verbatim>\<open>_put\<close>: the oldest entry makes room for a new key.\<close>

definition mc_store :: "string \<Rightarrow> transport_response \<Rightarrow> memory_cache \<Rightarrow> memory_cache" where
  "mc_store key response c =
     (let entries = (if map_of (mc_entries c) key = None \<and> length (mc_entries c) \<ge> mc_maximum_entries c
                     then tl (mc_entries c) else mc_entries c)
      in c\<lparr>mc_entries := od_set key response entries\<rparr>)"

definition mc_put_identity :: "cache_identity \<Rightarrow> transport_response \<Rightarrow> memory_cache \<Rightarrow> (exn + unit) \<times> memory_cache" where
  "mc_put_identity identity response c =
     (case enforce_response_body_limit response (mc_maximum_response_bytes c) of
        Inl e \<Rightarrow> (Inl e, c) | Inr _ \<Rightarrow> (Inr (), mc_store (ci_key identity) response c))"

definition mc_put :: "transport_request \<Rightarrow> transport_response \<Rightarrow> memory_cache \<Rightarrow> (exn + unit) \<times> memory_cache" where
  "mc_put request response c =
     (let identity = request_cache_identity request in
      if \<not> ci_eligible identity \<or> req_cache request = CacheBypass then (Inr (), c)
      else mc_put_identity identity response c)"

definition mc_lookup_put :: "cache_lookup \<Rightarrow> transport_response \<Rightarrow> memory_cache \<Rightarrow> (exn + unit) \<times> memory_cache" where
  "mc_lookup_put lookup response c =
     (if cl_writable lookup then mc_put_identity (cl_identity lookup) response c else (Inr (), c))"

subsection \<open>A cache as a map\<close>

text \<open>
  What a cache promises: an unbounded map from keys to the responses stored last.  An implementation may
  forget entries, but answers only what the map holds.
\<close>

definition spec_put :: "nat \<Rightarrow> transport_request \<Rightarrow> transport_response \<Rightarrow> (string \<rightharpoonup> transport_response) \<Rightarrow> (string \<rightharpoonup> transport_response)" where
  "spec_put maximum request response a =
     (let identity = request_cache_identity request in
      if ci_eligible identity \<and> req_cache request \<noteq> CacheBypass \<and> length (resp_content response) \<le> maximum
      then a(ci_key identity \<mapsto> response) else a)"

definition spec_get :: "(string \<rightharpoonup> transport_response) \<Rightarrow> transport_request \<Rightarrow> transport_response option" where
  "spec_get a request =
     (let identity = request_cache_identity request in
      if ci_eligible identity \<and> req_cache request = CacheDefault then map_option cached_response (a (ci_key identity)) else None)"

locale forgetful_map =
  fixes view :: "'s \<Rightarrow> 'k \<Rightarrow> 'v option"
    and store :: "'k \<Rightarrow> 'v \<Rightarrow> 's \<Rightarrow> 's"
    and ok :: "'s \<Rightarrow> bool"
  assumes store_ok: "ok s \<Longrightarrow> ok (store k v s)"
    and view_stored: "ok s \<Longrightarrow> view (store k v s) k = Some v"
    and view_kept: "ok s \<Longrightarrow> j \<noteq> k \<Longrightarrow> view (store k v s) j = Some w \<Longrightarrow> view s j = Some w"
begin

lemma store_below: "ok s \<Longrightarrow> view s \<subseteq>\<^sub>m a \<Longrightarrow> view (store k v s) \<subseteq>\<^sub>m a(k \<mapsto> v)"
proof (unfold map_le_def, intro ballI)
  fix j
  assume s: "ok s" and below: "\<forall>j \<in> dom (view s). view s j = a j" and j: "j \<in> dom (view (store k v s))"
  then obtain w where w: "view (store k v s) j = Some w" by blast
  show "view (store k v s) j = (a(k \<mapsto> v)) j"
  proof (cases "j = k")
    case True
    with view_stored [OF s] show ?thesis by simp
  next
    case False
    with view_kept [OF s False w] below w show ?thesis by (metis domI fun_upd_other)
  qed
qed

end

definition mc_ok :: "memory_cache \<Rightarrow> bool" where
  "mc_ok c \<longleftrightarrow> od_wf (mc_entries c) \<and> 0 < mc_maximum_entries c \<and> length (mc_entries c) \<le> mc_maximum_entries c"

lemma mc_store_length:
  assumes "mc_ok c"
  shows "length (mc_entries (mc_store k v c)) \<le> mc_maximum_entries c"
proof (cases "map_of (mc_entries c) k")
  case None
  with assms od_length_set_le [of k v "tl (mc_entries c)"] od_length_set_le [of k v "mc_entries c"] show ?thesis
    by (auto simp: mc_store_def mc_ok_def Let_def)
next
  case (Some w)
  then have "k \<in> fst ` set (mc_entries c)" by (intro od_keys_iff [THEN iffD2]) simp
  with Some assms show ?thesis by (simp add: mc_store_def mc_ok_def od_length_set)
qed

lemma mc_store_view:
  assumes "mc_ok c" "j \<noteq> k" "map_of (mc_entries (mc_store k v c)) j = Some w"
  shows "map_of (mc_entries c) j = Some w"
proof (cases "map_of (mc_entries c) k = None \<and> length (mc_entries c) \<ge> mc_maximum_entries c")
  case True
  with assms have "map_of (tl (mc_entries c)) j = Some w" by (simp add: mc_store_def Let_def od_get_set)
  with assms(1) show ?thesis using map_of_tlD by (metis mc_ok_def)
next
  case False
  with assms(2,3) show ?thesis by (auto simp: mc_store_def Let_def od_get_set)
qed

interpretation memory_map: forgetful_map "\<lambda>c. map_of (mc_entries c)" mc_store mc_ok
proof
  show "mc_ok (mc_store k v c)" if "mc_ok c" for c k v
    using that mc_store_length [OF that, of k v] by (auto simp: mc_ok_def mc_store_def Let_def)
  show "map_of (mc_entries (mc_store k v c)) k = Some v" for c k v
    by (simp add: mc_store_def od_simps)
qed (rule mc_store_view)

lemma mc_put_cases:
  "mc_put q r c = (if ci_eligible (request_cache_identity q) \<and> req_cache q \<noteq> CacheBypass
     then if length (resp_content r) \<le> mc_maximum_response_bytes c then (Inr (), mc_store (ci_key (request_cache_identity q)) r c)
       else (Inl (ResponseBodyTooLarge (mc_maximum_response_bytes c) (length (resp_content r)) (resp_accounting r)), c)
     else (Inr (), c))"
  by (auto simp: mc_put_def mc_put_identity_def enforce_response_body_limit_def Let_def)

lemma mc_store_limits [simp]:
  "mc_maximum_entries (mc_store k v c) = mc_maximum_entries c" "mc_maximum_response_bytes (mc_store k v c) = mc_maximum_response_bytes c"
  by (simp_all add: mc_store_def Let_def)

lemma mc_get_view:
  "mc_get c q = (if ci_eligible (request_cache_identity q) \<and> req_cache q = CacheDefault
     then map_option cached_response (map_of (mc_entries c) (ci_key (request_cache_identity q))) else None)"
  by (simp add: mc_get_def mc_get_with_stale_def Let_def)

lemma mc_run_refines:
  assumes "mc_ok c" "map_of (mc_entries c) \<subseteq>\<^sub>m a"
  shows "let c' = foldl (\<lambda>c (q, r). snd (mc_put q r c)) c puts; a' = foldl (\<lambda>a (q, r). spec_put (mc_maximum_response_bytes c) q r a) a puts
    in mc_ok c' \<and> map_of (mc_entries c') \<subseteq>\<^sub>m a' \<and> mc_maximum_entries c' = mc_maximum_entries c \<and>
       mc_maximum_response_bytes c' = mc_maximum_response_bytes c"
proof (induction puts rule: rev_induct)
  case (snoc p puts)
  obtain q r where p: "p = (q, r)" by fastforce
  show ?case
    using snoc memory_map.store_below memory_map.store_ok
    by (auto simp: p mc_put_cases spec_put_def Let_def)
qed (use assms in simp)

text \<open>While no more keys were stored than there is room for, nothing is forgotten.\<close>

lemma mc_store_exact:
  assumes "mc_ok c" "card (dom ((map_of (mc_entries c))(k \<mapsto> v))) \<le> mc_maximum_entries c"
  shows "map_of (mc_entries (mc_store k v c)) = (map_of (mc_entries c))(k \<mapsto> v)"
proof (cases "map_of (mc_entries c) k")
  case None
  have "card (dom (map_of (mc_entries c))) = length (mc_entries c)"
    using assms(1) by (metis distinct_card dom_map_of_conv_image_fst length_map list.set_map mc_ok_def)
  moreover have "card (insert k (dom (map_of (mc_entries c)))) = Suc (card (dom (map_of (mc_entries c))))"
    using None by (intro card_insert_disjoint) (auto simp: finite_dom_map_of domIff)
  ultimately have "length (mc_entries c) < mc_maximum_entries c" using assms(2) by simp
  then show ?thesis by (simp add: mc_store_def Let_def od_get_set)
qed (simp add: mc_store_def Let_def od_get_set)

lemma mc_run_exact:
  assumes "mc_ok c" "map_of (mc_entries c) = a"
    and "card (dom (foldl (\<lambda>a (q, r). spec_put (mc_maximum_response_bytes c) q r a) a puts)) \<le> mc_maximum_entries c"
  shows "map_of (mc_entries (foldl (\<lambda>c (q, r). snd (mc_put q r c)) c puts)) =
    foldl (\<lambda>a (q, r). spec_put (mc_maximum_response_bytes c) q r a) a puts"
  using assms(3)
proof (induction puts rule: rev_induct)
  case (snoc p puts)
  obtain q r where p: "p = (q, r)" by fastforce
  let ?c = "foldl (\<lambda>c (q, r). snd (mc_put q r c)) c puts"
  let ?a = "foldl (\<lambda>a (q, r). spec_put (mc_maximum_response_bytes c) q r a) a puts"
  have run: "mc_ok ?c" "mc_maximum_entries ?c = mc_maximum_entries c" "mc_maximum_response_bytes ?c = mc_maximum_response_bytes c"
    using mc_run_refines [OF assms(1), of a puts] assms(2) by (simp_all add: Let_def)
  have "finite (dom ?a)"
    using assms(2) by (induction puts rule: rev_induct) (auto simp: spec_put_def Let_def finite_dom_map_of split: prod.splits)
  then have "card (dom ?a) \<le> card (dom (spec_put (mc_maximum_response_bytes c) q r ?a))"
    by (intro card_mono) (auto simp: spec_put_def Let_def)
  with snoc p have same: "map_of (mc_entries ?c) = ?a" by simp
  show ?case
    using snoc.prems mc_store_exact [OF run(1), of "ci_key (request_cache_identity q)" r] same
    by (auto simp: p mc_put_cases [of q r ?c] spec_put_def [of _ q r ?a] Let_def run split: if_splits)
qed (use assms in simp)

subsection \<open>Equal keys\<close>

lemma sort_keys_lookup:
  assumes "distinct (map fst kvs)" "distinct (map fst kvs')" "sort_keys (JDict kvs) = sort_keys (JDict kvs')"
  shows "map_option sort_keys (map_of kvs k) = map_option sort_keys (map_of kvs' k)"
proof -
  let ?f = "map (\<lambda>(k, v). (k, sort_keys v))"
  have look: "map_of (?f xs) k = map_option sort_keys (map_of xs k)" for xs :: "(string \<times> json) list"
    by (induction xs) auto
  have dist: "distinct (map fst (?f xs)) = distinct (map fst xs)" for xs :: "(string \<times> json) list"
    by (simp add: comp_def case_prod_beta)
  from assms(3) have "sort_key fst (?f kvs) = sort_key fst (?f kvs')" by simp
  from arg_cong [OF this, of set] have "set (?f kvs) = set (?f kvs')" by (simp only: set_sort)
  then have "map_of (?f kvs) = map_of (?f kvs')"
    using assms(1,2) dist map_of_inject_set by blast
  then show ?thesis by (simp flip: look)
qed

definition request_entries :: "transport_request \<Rightarrow> string \<Rightarrow> (string \<times> string) list \<Rightarrow> (string \<times> json) list" where
  "request_entries q url query = [(''schema'', JInt 3), (''method'', JStr (py_upper (req_method q))), (''url'', JStr url),
     (''query'', JList (map (\<lambda>(k, v). JList [JStr k, JStr v]) query)),
     (''headers'', JDict (map (\<lambda>(k, v). (k, JStr v)) (relevant_headers (req_headers q)))),
     (''body'', JStr (sha256_hex (cache_body q))), (''browser'', JStr (browser_hint_value (req_browser q))),
     (''evaluation'', evaluation_identity (req_evaluation q))]"

lemma request_identity_entries:
  "normalized_url_and_query q = Some (url, query) \<Longrightarrow> request_identity q = JDict (request_entries q url query)"
  by (simp add: request_identity_def request_entries_def)

lemma request_entries_distinct: "distinct (map fst (request_entries q url query))"
  by (simp add: request_entries_def)

lemma entries_agree:
  assumes "sort_keys (JDict (request_entries q url query)) = sort_keys (JDict (request_entries q' url' query'))"
  shows "py_upper (req_method q) = py_upper (req_method q')" "url = url'"
    "map (\<lambda>(k, v). JList [JStr k, JStr v]) query = map (\<lambda>(k, v). JList [JStr k, JStr v]) query'"
    "sort_keys (JDict (map (\<lambda>(k, v). (k, JStr v)) (relevant_headers (req_headers q)))) =
     sort_keys (JDict (map (\<lambda>(k, v). (k, JStr v)) (relevant_headers (req_headers q'))))"
    "sha256_hex (cache_body q) = sha256_hex (cache_body q')" "browser_hint_value (req_browser q) = browser_hint_value (req_browser q')"
    "sort_keys (evaluation_identity (req_evaluation q)) = sort_keys (evaluation_identity (req_evaluation q'))"
proof -
  note look = sort_keys_lookup [OF request_entries_distinct request_entries_distinct assms]
  show "py_upper (req_method q) = py_upper (req_method q')" using look [of "''method''"] by (simp add: request_entries_def)
  show "url = url'" using look [of "''url''"] by (simp add: request_entries_def)
  show "sha256_hex (cache_body q) = sha256_hex (cache_body q')" using look [of "''body''"] by (simp add: request_entries_def)
  show "browser_hint_value (req_browser q) = browser_hint_value (req_browser q')"
    using look [of "''browser''"] by (simp add: request_entries_def)
  show "sort_keys (evaluation_identity (req_evaluation q)) = sort_keys (evaluation_identity (req_evaluation q'))"
    using look [of "''evaluation''"] by (simp add: request_entries_def)
  show "sort_keys (JDict (map (\<lambda>(k, v). (k, JStr v)) (relevant_headers (req_headers q)))) =
     sort_keys (JDict (map (\<lambda>(k, v). (k, JStr v)) (relevant_headers (req_headers q'))))"
    using look [of "''headers''"] by (simp add: request_entries_def del: sort_keys.simps)
  have "map sort_keys (map (\<lambda>(k, v). JList [JStr k, JStr v]) xs) = map (\<lambda>(k, v). JList [JStr k, JStr v]) xs" for xs
    by (simp add: comp_def case_prod_beta)
  then show "map (\<lambda>(k, v). JList [JStr k, JStr v]) query = map (\<lambda>(k, v). JList [JStr k, JStr v]) query'"
    using look [of "''query''"] by (simp add: request_entries_def del: map_map)
qed

lemma pair_list_inject:
  "map (\<lambda>(k, v). JList [JStr k, JStr v]) xs = map (\<lambda>(k, v). JList [JStr k, JStr v]) ys \<Longrightarrow> xs = ys"
  by (induction xs ys rule: list_induct2') auto

lemma relevant_headers_wf: "od_wf (relevant_headers headers)"
proof -
  have "od_wf (fold (\<lambda>(name, value) d. if py_lower name \<in> set keyed_request_headers then od_set (py_lower name) value d else d) headers d)"
    if "od_wf d" for d :: "(string, string) odict"
    using that by (induction headers arbitrary: d) auto
  then show ?thesis by (simp add: relevant_headers_def)
qed

lemma header_json_inject:
  assumes "od_wf (h :: (string, string) odict)" "od_wf (h' :: (string, string) odict)"
    and "sort_keys (JDict (map (\<lambda>(k, v). (k, JStr v)) h)) = sort_keys (JDict (map (\<lambda>(k, v). (k, JStr v)) h'))"
  shows "map_of h = map_of h'"
proof (rule ext)
  fix k
  have look: "map_option sort_keys (map_of (map (\<lambda>(k, v). (k, JStr v)) xs) k) = map_option JStr (map_of xs k)" for xs :: "(string, string) odict"
    by (induction xs) auto
  have "distinct (map fst (map (\<lambda>(k, v). (k, JStr v)) xs)) = od_wf xs" for xs :: "(string, string) odict"
    by (simp add: comp_def case_prod_beta)
  with assms sort_keys_lookup [OF _ _ assms(3), of k] have "map_option JStr (map_of h k) = map_option JStr (map_of h' k)"
    by (simp only: look)
  then show "map_of h k = map_of h' k" by (cases "map_of h k"; cases "map_of h' k") auto
qed

text \<open>What the key tells of a browser evaluation: the script by its digest only.\<close>

definition evaluation_view :: "browser_evaluation \<Rightarrow> string \<times> string \<times> string option \<times> nat" where
  "evaluation_view e = (action_id e, sha256_hex (script e), wait_for e, wait_milliseconds e)"

lemma evaluation_inject:
  assumes "sort_keys (evaluation_identity e) = sort_keys (evaluation_identity e')"
  shows "map_option evaluation_view e = map_option evaluation_view e'"
proof (cases e; cases e')
  fix x y
  assume xy: "e = Some x" "e' = Some y"
  let ?kvs = "\<lambda>e. [(''action_id'', JStr (action_id e)), (''script_sha256'', JStr (sha256_hex (script e))),
          (''wait_for'', case wait_for e of None \<Rightarrow> JNull | Some w \<Rightarrow> JStr w),
          (''wait_milliseconds'', JInt (int (wait_milliseconds e)))]"
  have d: "distinct (map fst (?kvs e))" for e by simp
  from assms xy have "sort_keys (JDict (?kvs x)) = sort_keys (JDict (?kvs y))" by (simp only: evaluation_identity_def option.case)
  note look = sort_keys_lookup [OF d d this]
  have "action_id x = action_id y" using look [of "''action_id''"] by simp
  moreover have "sha256_hex (script x) = sha256_hex (script y)" using look [of "''script_sha256''"] by simp
  moreover have "wait_milliseconds x = wait_milliseconds y" using look [of "''wait_milliseconds''"] by simp
  moreover have "wait_for x = wait_for y" using look [of "''wait_for''"] by (simp split: option.splits)
  ultimately show ?thesis using xy by (simp add: evaluation_view_def)
qed (use assms in \<open>auto simp: evaluation_identity_def\<close>)

subsection \<open>Properties\<close>

text \<open>
  C30. Two cacheable requests share a cache key only if they agree on the upper-case method, the normalized
  URL with its sorted query, the headers that select a representation, the digest of the body, the browser
  hint and the evaluation with the digest of its script, unless their canonical texts are a collision of
  SHA-256.
\<close>

theorem cache_key_identity:
  assumes "ci_eligible (request_cache_identity q)" "ci_eligible (request_cache_identity q')"
    and "json_ok fl (request_identity q)" "json_ok fl (request_identity q')"
    and "ci_key (request_cache_identity q) = ci_key (request_cache_identity q')"
  shows "py_upper (req_method q) = py_upper (req_method q') \<and> normalized_url_and_query q = normalized_url_and_query q' \<and>
      map_of (relevant_headers (req_headers q)) = map_of (relevant_headers (req_headers q')) \<and>
      sha256_hex (cache_body q) = sha256_hex (cache_body q') \<and> req_browser q = req_browser q' \<and>
      map_option evaluation_view (req_evaluation q) = map_option evaluation_view (req_evaluation q') \<or>
    json_canonical (request_identity q) \<noteq> json_canonical (request_identity q') \<and>
      sha256_hex (json_canonical (request_identity q)) = sha256_hex (json_canonical (request_identity q'))"
proof (cases "json_canonical (request_identity q) = json_canonical (request_identity q')")
  case True
  obtain u r u' r' where n: "normalized_url_and_query q = Some (u, r)" "normalized_url_and_query q' = Some (u', r')"
    using assms(1,2) by (auto simp: request_cache_identity_def)
  have "sort_keys (request_identity q) = sort_keys (request_identity q')"
    using True assms(3,4) dumps_inject [OF sort_keys_ok sort_keys_ok] by (simp add: json_canonical_def)
  then have agree: "sort_keys (JDict (request_entries q u r)) = sort_keys (JDict (request_entries q' u' r'))"
    using n by (simp only: request_identity_entries)
  have "browser_hint_value b = browser_hint_value b' \<Longrightarrow> b = b'" for b b' by (cases b; cases b') auto
  with entries_agree(6) [OF agree] have "req_browser q = req_browser q'" by blast
  moreover have "normalized_url_and_query q = normalized_url_and_query q'"
    using n entries_agree(2) [OF agree] pair_list_inject [OF entries_agree(3) [OF agree]] by simp
  ultimately show ?thesis
    using entries_agree(1,5) [OF agree] header_json_inject [OF relevant_headers_wf relevant_headers_wf entries_agree(4) [OF agree]]
      evaluation_inject [OF entries_agree(7) [OF agree]] by blast
next
  case False
  with assms(5) show ?thesis by (simp add: request_cache_identity_def)
qed

text \<open>
  C31. The cache in memory refines the map from keys to the responses stored last, whatever responses are put
  under whatever requests: it never holds more entries than its maximum, answers nothing that the map does
  not answer, answers a response that was just accepted, and answers exactly as the map as long as the map
  holds no more keys than the maximum.
\<close>

theorem memory_cache_refines:
  assumes "memory_cache_init entries bytes = Inr c0"
    and "c = foldl (\<lambda>c (q, r). snd (mc_put q r c)) c0 puts"
    and "a = foldl (\<lambda>a (q, r). spec_put (nat bytes) q r a) Map.empty puts"
  shows "length (mc_entries c) \<le> nat entries \<and>
    (\<forall>q r. mc_get c q = Some r \<longrightarrow> spec_get a q = Some r) \<and>
    (card (dom a) \<le> nat entries \<longrightarrow> mc_get c = spec_get a) \<and>
    (\<forall>q r. ci_eligible (request_cache_identity q) \<and> req_cache q = CacheDefault \<and> length (resp_content r) \<le> nat bytes \<longrightarrow>
      fst (mc_put q r c) = Inr () \<and> mc_get (snd (mc_put q r c)) q = Some (cached_response r))"
proof -
  from assms(1) have c0: "mc_ok c0" "mc_entries c0 = []" "mc_maximum_entries c0 = nat entries" "mc_maximum_response_bytes c0 = nat bytes"
    by (auto simp: memory_cache_init_def mc_ok_def split: if_splits)
  have run: "mc_ok c" "map_of (mc_entries c) \<subseteq>\<^sub>m a" "mc_maximum_entries c = nat entries" "mc_maximum_response_bytes c = nat bytes"
    using mc_run_refines [OF c0(1), of Map.empty puts] c0 assms(2,3) by (simp_all add: Let_def)
  have "spec_get a q = Some r" if "mc_get c q = Some r" for q r
    using that run(2) by (auto simp: mc_get_view spec_get_def Let_def map_le_def dom_def split: if_splits)
  moreover have "mc_get c = spec_get a" if "card (dom a) \<le> nat entries"
  proof -
    have "map_of (mc_entries c) = a" using mc_run_exact [OF c0(1), of Map.empty puts] c0 assms(2,3) that by simp
    then show ?thesis by (auto simp: fun_eq_iff mc_get_view spec_get_def Let_def)
  qed
  moreover have "mc_get (snd (mc_put q r c)) q = Some (cached_response r)" "fst (mc_put q r c) = Inr ()"
    if "ci_eligible (request_cache_identity q) \<and> req_cache q = CacheDefault \<and> length (resp_content r) \<le> nat bytes" for q r
    using that memory_map.view_stored [OF run(1)] by (simp_all add: mc_put_cases mc_get_view run)
  ultimately show ?thesis using run(1,3) by (auto simp: mc_ok_def)
qed

subsection \<open>Witnesses\<close>

definition cached_get :: "string \<Rightarrow> string \<Rightarrow> transport_request" where
  "cached_get m url = page_request\<lparr>req_method := m, req_url := url, req_headers := [(''Accept'', ''*'')]\<rparr>"

lemma shop_urls:
  "(urlsplit ''HTTP://Shop.x?a=2'' = Inr \<lparr>us_scheme = ''http'', us_netloc = ''Shop.x'', us_path = [], us_query = ''a=2'', us_fragment = []\<rparr>) \<and>
   (urlsplit ''http://shop.x/?a=2'' = Inr \<lparr>us_scheme = ''http'', us_netloc = ''shop.x'', us_path = ''/'', us_query = ''a=2'', us_fragment = []\<rparr>)"
  by code_simp

lemma shop_parts:
  "(us_port \<lparr>us_scheme = ''http'', us_netloc = ''Shop.x'', us_path = [], us_query = ''a=2'', us_fragment = []\<rparr> = Inr None) \<and>
   (us_port \<lparr>us_scheme = ''http'', us_netloc = ''shop.x'', us_path = ''/'', us_query = ''a=2'', us_fragment = []\<rparr> = Inr None) \<and>
   (us_hostname \<lparr>us_scheme = ''http'', us_netloc = ''Shop.x'', us_path = [], us_query = ''a=2'', us_fragment = []\<rparr> = Some ''shop.x'') \<and>
   (us_hostname \<lparr>us_scheme = ''http'', us_netloc = ''shop.x'', us_path = ''/'', us_query = ''a=2'', us_fragment = []\<rparr> = Some ''shop.x'') \<and>
   (us_userinfo \<lparr>us_scheme = ''http'', us_netloc = ''Shop.x'', us_path = [], us_query = ''a=2'', us_fragment = []\<rparr> = (None, None)) \<and>
   (us_userinfo \<lparr>us_scheme = ''http'', us_netloc = ''shop.x'', us_path = ''/'', us_query = ''a=2'', us_fragment = []\<rparr> = (None, None)) \<and>
   (idna_ascii ''shop.x'' = Inr ''shop.x'') \<and>
   (py_lower ''http'' = ''http'') \<and>
   (py_lower ''shop.x'' = ''shop.x'') \<and>
   (parse_qsl ''a=2'' = [(''a'', ''2'')]) \<and>
   \<not> credential_name ''a'' \<and>
   (urlencode [(''a'', ''2'')] = ''a=2'') \<and>
   (urlunsplit ''http'' ''shop.x'' ''/'' ''a=2'' [] = ''http://shop.x/?a=2'')"
  by code_simp

lemma cached_get_normalized:
  "normalized_url_and_query (cached_get ''get'' ''HTTP://Shop.x?a=2'') = Some (''http://shop.x/?a=2'', [(''a'', ''2'')])"
  "normalized_url_and_query (cached_get ''GET'' ''http://shop.x/?a=2'') = Some (''http://shop.x/?a=2'', [(''a'', ''2'')])"
  by (simp_all add: normalized_url_and_query_def cached_get_def page_request_def shop_urls shop_parts request_pairs_def
      cache_authority_def)

lemma accept_ordinary:
  "\<not> credential_name ''Accept'' \<and>
   (relevant_headers [(''Accept'', ''*'')] = [(''accept'', ''*'')]) \<and>
   (py_upper ''get'' = ''GET'') \<and>
   (py_upper ''GET'' = ''GET'')"
  by code_simp

lemma cached_get_identity:
  "request_identity (cached_get ''get'' ''HTTP://Shop.x?a=2'') = request_identity (cached_get ''GET'' ''http://shop.x/?a=2'')"
  by (simp add: request_identity_def cached_get_normalized) (simp add: cached_get_def page_request_def accept_ordinary cache_body_def)

lemma cached_get_eligible:
  "ci_eligible (request_cache_identity (cached_get ''get'' ''HTTP://Shop.x?a=2''))"
  "ci_eligible (request_cache_identity (cached_get ''GET'' ''http://shop.x/?a=2''))"
  by (simp_all add: request_cache_identity_def cached_get_normalized) (simp_all add: cached_get_def accept_ordinary)

lemma digest_ascii: "ascii (sha256_hex s)"
  using sha256_digest [of s] by (fastforce simp: is_digest_def is_lower_hex_def is_digit_char_def ascii_def list_all_iff)

lemma cached_get_ok: "json_ok id (request_identity (cached_get ''GET'' ''http://shop.x/?a=2''))"
  by (simp add: request_identity_def cached_get_normalized digest_ascii)
    (simp add: cached_get_def page_request_def accept_ordinary evaluation_identity_def ascii_def code_of_def)

theorem cache_key_identity_witness:
  "py_upper (req_method (cached_get ''get'' ''HTTP://Shop.x?a=2'')) = py_upper (req_method (cached_get ''GET'' ''http://shop.x/?a=2''))"
proof -
  have key: "ci_key (request_cache_identity (cached_get ''get'' ''HTTP://Shop.x?a=2'')) =
      ci_key (request_cache_identity (cached_get ''GET'' ''http://shop.x/?a=2''))"
    by (simp add: request_cache_identity_def cached_get_identity)
  have ok: "json_ok id (request_identity (cached_get ''get'' ''HTTP://Shop.x?a=2''))"
    using cached_get_ok by (simp add: cached_get_identity)
  from cache_key_identity [OF cached_get_eligible ok cached_get_ok key] show ?thesis by (simp add: cached_get_identity)
qed

theorem memory_cache_refines_witness:
  "\<exists>c. memory_cache_init 2 10 = Inr c \<and>
     (let q = cached_get ''GET'' ''http://shop.x/?a=2'' in mc_get (snd (mc_put q ok_response c)) q = Some (cached_response ok_response))"
proof -
  let ?q = "cached_get ''GET'' ''http://shop.x/?a=2''"
  obtain c where c: "memory_cache_init 2 10 = Inr c" by (simp add: memory_cache_init_def)
  have "req_cache ?q = CacheDefault" "length (resp_content ok_response) \<le> nat 10"
    by (simp_all add: cached_get_def page_request_def ok_response_def)
  with memory_cache_refines [OF c, of c "[]" Map.empty] cached_get_eligible(2)
  have "mc_get (snd (mc_put ?q ok_response c)) ?q = Some (cached_response ok_response)" by simp
  with c show ?thesis by (simp add: Let_def)
qed

end
