(* ===== verification/Base64.thy ===== *)
theory Base64
  imports Prelude
begin

section \<open>Base64\<close>

text \<open>\<^verbatim>\<open>base64.b64encode\<close> and \<^verbatim>\<open>base64.b64decode(validate=True)\<close> of the standard library.\<close>

definition b64_char :: "nat \<Rightarrow> char" where
  "b64_char n = char_of (if n < 26 then 65 + n else if n < 52 then 71 + n else if n < 62 then n - 4 else if n = 62 then 43 else 47)"

definition b64_value :: "char \<Rightarrow> nat option" where
  "b64_value c = (let n = code_of c in
     if 65 \<le> n \<and> n \<le> 90 then Some (n - 65) else if 97 \<le> n \<and> n \<le> 122 then Some (n - 71)
     else if 48 \<le> n \<and> n \<le> 57 then Some (n + 4) else if n = 43 then Some 62 else if n = 47 then Some 63 else None)"

definition sextets :: "nat \<Rightarrow> nat \<Rightarrow> nat \<Rightarrow> nat list" where
  "sextets x y z = [x div 4, x mod 4 * 16 + y div 16, y mod 16 * 4 + z div 64, z mod 64]"

fun b64encode :: "string \<Rightarrow> string" where
  "b64encode [] = []"
| "b64encode [a] = map b64_char (take 2 (sextets (code_of a) 0 0)) @ ''==''"
| "b64encode [a, b] = map b64_char (take 3 (sextets (code_of a) (code_of b) 0)) @ ''=''"
| "b64encode (a # b # c # s) = map b64_char (sextets (code_of a) (code_of b) (code_of c)) @ b64encode s"

fun b64_bytes :: "nat list \<Rightarrow> string" where
  "b64_bytes (p # q # r # s # vs) =
     char_of (p * 4 + q div 16) # char_of (q mod 16 * 16 + r div 4) # char_of (r mod 4 * 64 + s) # b64_bytes vs"
| "b64_bytes [p, q, r] = [char_of (p * 4 + q div 16), char_of (q mod 16 * 16 + r div 4)]"
| "b64_bytes [p, q] = [char_of (p * 4 + q div 16)]"
| "b64_bytes _ = []"

definition b64decode :: "string \<Rightarrow> string option" where
  "b64decode s =
     (let digits = takeWhile (\<lambda>c. b64_value c \<noteq> None) s; pads = dropWhile (\<lambda>c. b64_value c \<noteq> None) s; q = length digits mod 4 in
      if list_all (\<lambda>c. c = CHR ''='') pads \<and>
        (if q = 0 then pads = [] \<or> digits \<noteq> [] else if q = 1 then False else length pads = 4 - q)
      then Some (b64_bytes (map (\<lambda>c. the (b64_value c)) digits)) else None)"


fun b64_sextets :: "string \<Rightarrow> nat list" where
  "b64_sextets [] = []"
| "b64_sextets [a] = take 2 (sextets (code_of a) 0 0)"
| "b64_sextets [a, b] = take 3 (sextets (code_of a) (code_of b) 0)"
| "b64_sextets (a # b # c # s) = sextets (code_of a) (code_of b) (code_of c) @ b64_sextets s"

fun b64_pad :: "string \<Rightarrow> string" where
  "b64_pad [] = []"
| "b64_pad [a] = ''==''"
| "b64_pad [a, b] = ''=''"
| "b64_pad (a # b # c # s) = b64_pad s"

lemma b64encode_split: "b64encode s = map b64_char (b64_sextets s) @ b64_pad s"
  by (induction s rule: b64encode.induct) simp_all

lemma code_of_less: "code_of c < 256"
  by (simp add: code_of_def)

lemma b64_value_char:
  assumes "n < 64"
  shows "b64_value (b64_char n) = Some n"
  using assms by (auto simp: b64_value_def b64_char_def code_of_def Let_def)

lemma sextets_less: "x < 256 \<Longrightarrow> y < 256 \<Longrightarrow> z < 256 \<Longrightarrow> v \<in> set (sextets x y z) \<Longrightarrow> v < 64"
  by (auto simp: sextets_def)

lemma b64_sextets_less: "v \<in> set (b64_sextets s) \<Longrightarrow> v < 64"
proof (induction s rule: b64_sextets.induct)
  case (4 a b c s)
  then show ?case using sextets_less [OF code_of_less code_of_less code_of_less] by auto
next
  case (2 a)
  then show ?case using sextets_less [OF code_of_less [of a], of 0 0] by (auto dest: in_set_takeD)
next
  case (3 a b)
  then show ?case using sextets_less [OF code_of_less code_of_less [of b], of 0] by (auto dest: in_set_takeD)
qed simp

lemma b64_sextets_length:
  "length (b64_sextets s) mod 4 = (if length s mod 3 = 0 then 0 else Suc (length s mod 3))"
  by (induction s rule: b64_sextets.induct) (auto simp: sextets_def mod_Suc)

lemma b64_pad_length:
  "b64_pad s = (if length s mod 3 = 0 then [] else if length s mod 3 = 1 then ''=='' else ''='')"
  by (induction s rule: b64_pad.induct) (auto simp: mod_Suc)

lemma char_of_code: "char_of (code_of c) = c"
  by (simp add: code_of_def)

lemma digit_split: "r < m \<Longrightarrow> (q * m + r) div m = q" "r < m \<Longrightarrow> (q * m + r) mod m = (r :: nat)"
  by simp_all

lemma sextet_bytes:
  fixes x y z :: nat
  assumes "y < 256" "z < 256"
  shows "x div 4 * 4 + (x mod 4 * 16 + y div 16) div 16 = x" "(x mod 4 * 16 + y div 16) mod 16 * 16 + (y mod 16 * 4 + z div 64) div 4 = y"
    "(y mod 16 * 4 + z div 64) mod 4 * 64 + z mod 64 = z"
proof -
  have less: "y div 16 < 16" "z div 64 < 4" using assms by auto
  show "x div 4 * 4 + (x mod 4 * 16 + y div 16) div 16 = x" by (simp only: digit_split [OF less(1)]) simp
  show "(x mod 4 * 16 + y div 16) mod 16 * 16 + (y mod 16 * 4 + z div 64) div 4 = y" by (simp only: digit_split [OF less(1)] digit_split [OF less(2)]) simp
  show "(y mod 16 * 4 + z div 64) mod 4 * 64 + z mod 64 = z" by (simp only: digit_split [OF less(2)]) simp
qed

lemma b64_bytes_sextets: "b64_bytes (b64_sextets s) = s"
proof (induction s rule: b64_sextets.induct)
  case (2 a)
  then show ?case using sextet_bytes(1) [of 0 0 "code_of a"] by (simp add: sextets_def char_of_code numeral_2_eq_2)
next
  case (3 a b)
  then show ?case
    using sextet_bytes(1,2) [of "code_of b" 0 "code_of a"] by (simp add: sextets_def code_of_less char_of_code numeral_3_eq_3)
next
  case (4 a b c s)
  have bytes: "map char_of [x div 4 * 4 + (x mod 4 * 16 + y div 16) div 16, (x mod 4 * 16 + y div 16) mod 16 * 16 + (y mod 16 * 4 + z div 64) div 4,
      (y mod 16 * 4 + z div 64) mod 4 * 64 + z mod 64] = map char_of [x, y, z]" if "y < 256" "z < 256" for x y z :: nat
    by (simp only: sextet_bytes [OF that])
  from 4 bytes [OF code_of_less code_of_less, of "code_of a" b c] show ?case by (simp add: sextets_def char_of_code)
qed simp

lemma b64_round_trip: "b64decode (b64encode s) = Some s"
proof -
  let ?ds = "map b64_char (b64_sextets s)"
  have digits: "\<forall>c \<in> set ?ds. b64_value c \<noteq> None" by (auto simp: b64_value_char dest: b64_sextets_less)
  have "b64_value CHR ''='' = None" by (simp add: b64_value_def code_of_def)
  then have pads: "\<forall>c \<in> set (b64_pad s). b64_value c = None \<and> c = CHR ''=''" unfolding b64_pad_length by auto
  then have "takeWhile (\<lambda>c. b64_value c \<noteq> None) (b64_pad s) = []" "dropWhile (\<lambda>c. b64_value c \<noteq> None) (b64_pad s) = b64_pad s"
    by (cases "b64_pad s"; simp)+
  with digits have parts: "takeWhile (\<lambda>c. b64_value c \<noteq> None) (b64encode s) = ?ds" "dropWhile (\<lambda>c. b64_value c \<noteq> None) (b64encode s) = b64_pad s"
    by (simp_all add: b64encode_split takeWhile_append dropWhile_append)
  have "map (\<lambda>v. the (b64_value (b64_char v))) (b64_sextets s) = b64_sextets s"
    by (rule map_idI) (auto simp: b64_value_char dest: b64_sextets_less)
  then have bytes: "b64_bytes (map (\<lambda>c. the (b64_value c)) ?ds) = s" by (simp add: comp_def b64_bytes_sextets)
  show ?thesis
    unfolding b64decode_def Let_def parts bytes using b64_sextets_length [of s] b64_pad_length [of s] by (auto simp: list_all_iff)
qed

end
