(* ===== verification/File_Cache.thy ===== *)
theory File_Cache
  imports Response_Cache Base64
begin

section \<open>The cache in files\<close>

text \<open>
  \<^verbatim>\<open>FileResponseCache\<close> of \<^verbatim>\<open>transports/cache.py\<close>: responses as compressed JSON artifacts under a directory,
  with an age limit.  Compression, the decoding of bytes to text and the text of floating-point numbers are
  parameters.  Time stamps are rationals.  Artifacts with integers of more digits than the interpreter
  converts, or nested deeper than its recursion limit, are outside the model.
\<close>

subsection \<open>Parameters\<close>

text \<open>What ends an attempt to read an artifact: the failures the code names, and two that it does not.\<close>

datatype cache_fault = IOFault | EOFFault | UnicodeFault | JSONFault | KeyFault | ValueFault | ZlibFault | OverflowFault

definition fault_caught :: "cache_fault \<Rightarrow> bool" where
  "fault_caught f \<longleftrightarrow> f \<noteq> ZlibFault \<and> f \<noteq> OverflowFault"

text \<open>
  \<^verbatim>\<open>gzip\<close>, the decoding of \<^verbatim>\<open>json.loads\<close> on bytes, the rounding of a float literal to the float it
  denotes, \<^verbatim>\<open>float.__repr__\<close> and the number a finite float is.
\<close>

record cache_ops =
  co_compress :: "string \<Rightarrow> string"
  co_decompress :: "string \<Rightarrow> nat \<Rightarrow> cache_fault + string"
  co_decode :: "string \<Rightarrow> cache_fault + string"
  co_float :: "string \<Rightarrow> string"
  co_repr :: "rat \<Rightarrow> string"
  co_value :: "string \<Rightarrow> rat option"

subsection \<open>The cache\<close>

type_synonym cache_path = "string \<times> string \<times> string"

record file_cache =
  fc_directory :: string
  fc_maximum_age_seconds :: "rat option"
  fc_maximum_response_bytes :: nat
  fc_maximum_artifact_bytes :: nat

text \<open>The inner \<^const>\<open>None\<close> of the age is a value that is not finite.\<close>

definition file_cache_init :: "string \<Rightarrow> rat option option \<Rightarrow> int \<Rightarrow> int option \<Rightarrow> exn + file_cache" where
  "file_cache_init directory maximum_age_seconds maximum_response_bytes maximum_artifact_bytes =
     (let artifact_bytes = (case maximum_artifact_bytes of None \<Rightarrow> maximum_response_bytes * 2 + 65536 | Some m \<Rightarrow> m) in
      if (case maximum_age_seconds of Some (Some a) \<Rightarrow> a < 0 | Some None \<Rightarrow> True | None \<Rightarrow> False)
      then Inl (ValueError ''maximum_age_seconds must be finite and non-negative'')
      else if maximum_response_bytes < 1 then Inl (ValueError ''maximum_response_bytes must be positive'')
      else if artifact_bytes < 1 then Inl (ValueError ''maximum_artifact_bytes must be positive'')
      else Inr \<lparr>fc_directory = directory, fc_maximum_age_seconds = (case maximum_age_seconds of None \<Rightarrow> None | Some a \<Rightarrow> a),
                fc_maximum_response_bytes = nat maximum_response_bytes, fc_maximum_artifact_bytes = nat artifact_bytes\<rparr>)"

definition fc_path :: "file_cache \<Rightarrow> string \<Rightarrow> cache_path" where
  "fc_path c key = (fc_directory c, take 2 key, key @ ''.response.json.gz'')"

text \<open>\<^verbatim>\<open>_age\<close>; the clock reads \<^const>\<open>None\<close> when it is not finite.\<close>

definition fc_age :: "rat option \<Rightarrow> rat \<Rightarrow> rat option" where
  "fc_age now stored_at =
     (case now of None \<Rightarrow> None
      | Some n \<Rightarrow> if n < 0 then None else let age = n - stored_at in if age < -300 then None else Some (max 0 age))"

definition safe_response_headers :: "string list" where
  "safe_response_headers = [''cache-control'', ''content-language'', ''content-type'', ''etag'', ''expires'', ''last-modified'']"

fun fc_safe_headers :: "(string, string) odict \<Rightarrow> (string \<times> json) list \<Rightarrow> (string, string) odict option" where
  "fc_safe_headers headers [] = Some headers"
| "fc_safe_headers headers ((name, item) # rest) =
     (case item of
        JStr s \<Rightarrow> fc_safe_headers (if py_lower name \<in> set safe_response_headers then od_set (py_lower name) s headers else headers) rest
      | _ \<Rightarrow> None)"

subsection \<open>Writing\<close>

definition fc_payload :: "cache_ops \<Rightarrow> transport_response \<Rightarrow> string \<Rightarrow> rat \<Rightarrow> json" where
  "fc_payload io response final_url stored_at = JDict
     [(''schema'', JInt 1), (''stored_at'', JFloat (co_repr io stored_at)), (''status'', JInt (int (resp_status response))),
      (''headers'', JDict (map (\<lambda>(k, v). (k, JStr v))
         (case fc_safe_headers [] (map (\<lambda>(k, v). (k, JStr v)) (resp_headers response)) of None \<Rightarrow> [] | Some h \<Rightarrow> h))),
      (''final_url'', JStr final_url), (''content_base64'', JStr (b64encode (resp_content response)))]"

text \<open>
  \<^verbatim>\<open>_write\<close>: the artifact is written to a temporary file that replaces the old one as a whole; a fault on
  the way removes the temporary file and leaves the old artifact.
\<close>

definition fc_write :: "cache_ops \<Rightarrow> file_cache \<Rightarrow> string \<Rightarrow> transport_response \<Rightarrow> rat \<Rightarrow> exn option \<Rightarrow>
    (cache_path \<rightharpoonup> string) \<Rightarrow> (exn + unit) \<times> (cache_path \<rightharpoonup> string)" where
  "fc_write io c key response stored_at fault fs =
     (let final_url = sanitize_url (resp_final_url response) in
      if 2048 < length final_url then (Inr (), fs)
      else let artifact = json_canonical (fc_payload io response final_url stored_at) in
        if fc_maximum_artifact_bytes c < length artifact then (Inr (), fs)
        else (case fault of Some e \<Rightarrow> (Inl e, fs) | None \<Rightarrow> (Inr (), fs(fc_path c key \<mapsto> co_compress io artifact))))"

definition fc_put_identity :: "cache_ops \<Rightarrow> file_cache \<Rightarrow> cache_identity \<Rightarrow> transport_response \<Rightarrow> rat option \<Rightarrow> exn option \<Rightarrow>
    (cache_path \<rightharpoonup> string) \<Rightarrow> (exn + unit) \<times> (cache_path \<rightharpoonup> string)" where
  "fc_put_identity io c identity response now fault fs =
     (case enforce_response_body_limit response (fc_maximum_response_bytes c) of
        Inl e \<Rightarrow> (Inl e, fs)
      | Inr _ \<Rightarrow> (case now of
          Some t \<Rightarrow> if t < 0 then (Inl (ValueError ''cache clock must return a finite non-negative timestamp''), fs)
            else fc_write io c (ci_key identity) response t fault fs
        | None \<Rightarrow> (Inl (ValueError ''cache clock must return a finite non-negative timestamp''), fs)))"

definition fc_put :: "cache_ops \<Rightarrow> file_cache \<Rightarrow> transport_request \<Rightarrow> transport_response \<Rightarrow> rat option \<Rightarrow> exn option \<Rightarrow>
    (cache_path \<rightharpoonup> string) \<Rightarrow> (exn + unit) \<times> (cache_path \<rightharpoonup> string)" where
  "fc_put io c request response now fault fs =
     (let identity = request_cache_identity request in
      if \<not> ci_eligible identity \<or> req_cache request = CacheBypass then (Inr (), fs)
      else fc_put_identity io c identity response now fault fs)"

definition fc_lookup_put :: "cache_ops \<Rightarrow> file_cache \<Rightarrow> cache_lookup \<Rightarrow> transport_response \<Rightarrow> rat option \<Rightarrow> exn option \<Rightarrow>
    (cache_path \<rightharpoonup> string) \<Rightarrow> (exn + unit) \<times> (cache_path \<rightharpoonup> string)" where
  "fc_lookup_put io c lookup response now fault fs =
     (if cl_writable lookup then fc_put_identity io c (cl_identity lookup) response now fault fs else (Inr (), fs))"

subsection \<open>Reading\<close>

definition fault_bind :: "cache_fault + 'a \<Rightarrow> ('a \<Rightarrow> cache_fault + 'b option) \<Rightarrow> cache_fault + 'b option" where
  "fault_bind r f = (case r of Inl e \<Rightarrow> Inl e | Inr v \<Rightarrow> f v)"

definition json_item :: "string \<Rightarrow> (string \<times> json) list \<Rightarrow> cache_fault + json" where
  "json_item k kvs = (case map_of kvs k of None \<Rightarrow> Inl KeyFault | Some v \<Rightarrow> Inr v)"

text \<open>
  The test of the time stamp: not a number, a boolean, not finite or negative is refused, and the conversion
  of an integer beyond the range of floats raises.
\<close>

definition float_limit :: int where
  "float_limit = 2 ^ 1024 - 2 ^ 970"

definition stored_time :: "cache_ops \<Rightarrow> json \<Rightarrow> cache_fault + rat option" where
  "stored_time io v = (case v of
     JInt i \<Rightarrow> if float_limit \<le> \<bar>i\<bar> then Inl OverflowFault else Inr (if i < 0 then None else Some (of_int i))
   | JFloat r \<Rightarrow> Inr (case co_value io r of None \<Rightarrow> None | Some t \<Rightarrow> if t < 0 then None else Some t)
   | _ \<Rightarrow> Inr None)"

definition fc_response :: "file_cache \<Rightarrow> int \<Rightarrow> (string, string) odict \<Rightarrow> string \<Rightarrow> string \<Rightarrow> cache_fault + transport_response option" where
  "fc_response c status headers final_url encoded =
     (case b64decode encoded of None \<Rightarrow> Inl ValueFault
      | Some content \<Rightarrow>
          if fc_maximum_response_bytes c < length content then Inr None
          else if status < 100 \<or> 599 < status then Inl ValueFault
          else Inr (Some \<lparr>resp_status = nat status, resp_headers = headers, resp_content = content,
                 resp_final_url = take 2048 (sanitize_url final_url), resp_route = route_cache, resp_from_cache = True,
                 resp_elapsed_seconds = 0, resp_accounting = None\<rparr>))"

definition fc_fields :: "cache_ops \<Rightarrow> file_cache \<Rightarrow> (string \<times> json) list \<Rightarrow> cache_fault + (transport_response \<times> rat) option" where
  "fc_fields io c payload =
     fault_bind (json_item ''stored_at'' payload) (\<lambda>stored_at.
     fault_bind (json_item ''status'' payload) (\<lambda>status.
     fault_bind (json_item ''headers'' payload) (\<lambda>headers.
     fault_bind (json_item ''final_url'' payload) (\<lambda>final_url.
     fault_bind (json_item ''content_base64'' payload) (\<lambda>encoded.
     fault_bind (stored_time io stored_at) (\<lambda>time.
       case (time, status, headers, final_url, encoded) of
         (Some t, JInt s, JDict h, JStr u, JStr e) \<Rightarrow>
           if 2048 < length u then Inr None
           else (case fc_safe_headers [] h of None \<Rightarrow> Inr None
             | Some safe \<Rightarrow> fault_bind (fc_response c s safe u e) (\<lambda>r. Inr (map_option (\<lambda>r. (r, t)) r)))
       | _ \<Rightarrow> Inr None))))))"

definition fc_artifact :: "cache_ops \<Rightarrow> file_cache \<Rightarrow> string \<Rightarrow> cache_fault + (transport_response \<times> rat) option" where
  "fc_artifact io c stored =
     (if fc_maximum_artifact_bytes c < length stored then Inr None
      else fault_bind (co_decompress io stored (fc_maximum_artifact_bytes c + 1)) (\<lambda>artifact.
        if fc_maximum_artifact_bytes c < length artifact then Inr None
        else fault_bind (co_decode io artifact) (\<lambda>text.
          case json_loads (co_float io) text of None \<Rightarrow> Inl JSONFault
          | Some (JDict payload) \<Rightarrow>
              (case map_of payload ''schema'' of None \<Rightarrow> Inr None
               | Some schema \<Rightarrow> if number_value schema \<noteq> JInt 1 then Inr None else fc_fields io c payload)
          | Some _ \<Rightarrow> Inr None)))"

text \<open>\<^verbatim>\<open>_read\<close>: every named failure is a miss.\<close>

definition fc_read :: "cache_ops \<Rightarrow> file_cache \<Rightarrow> string \<Rightarrow> (cache_path \<rightharpoonup> string) \<Rightarrow> cache_fault + (transport_response \<times> rat) option" where
  "fc_read io c key fs =
     (case (case fs (fc_path c key) of None \<Rightarrow> Inl IOFault | Some stored \<Rightarrow> fc_artifact io c stored) of
        Inl e \<Rightarrow> if fault_caught e then Inr None else Inl e
      | Inr r \<Rightarrow> Inr r)"

definition fc_get_with_stale :: "cache_ops \<Rightarrow> file_cache \<Rightarrow> transport_request \<Rightarrow> rat option \<Rightarrow> (cache_path \<rightharpoonup> string) \<Rightarrow> cache_fault + cache_lookup" where
  "fc_get_with_stale io c request now fs =
     (let identity = request_cache_identity request;
          lookup = (\<lambda>fresh stale. \<lparr>cl_fresh = fresh, cl_stale = stale, cl_identity = identity,
            cl_writable = (ci_eligible identity \<and> req_cache request \<noteq> CacheBypass)\<rparr>) in
      if \<not> ci_eligible identity \<or> req_cache request \<noteq> CacheDefault then Inr (lookup None None)
      else (case fc_read io c (ci_key identity) fs of
          Inl e \<Rightarrow> Inl e
        | Inr None \<Rightarrow> Inr (lookup None None)
        | Inr (Some (response, stored_at)) \<Rightarrow> (case fc_age now stored_at of
            None \<Rightarrow> Inr (lookup None None)
          | Some age \<Rightarrow> (case fc_maximum_age_seconds c of
              None \<Rightarrow> Inr (lookup (Some response) None)
            | Some m \<Rightarrow> if m < age then Inr (lookup None (Some response)) else Inr (lookup (Some response) None)))))"

definition fc_get :: "cache_ops \<Rightarrow> file_cache \<Rightarrow> transport_request \<Rightarrow> rat option \<Rightarrow> (cache_path \<rightharpoonup> string) \<Rightarrow> cache_fault + transport_response option" where
  "fc_get io c request now fs = map_sum id cl_fresh (fc_get_with_stale io c request now fs)"

definition fc_stale :: "cache_ops \<Rightarrow> file_cache \<Rightarrow> transport_request \<Rightarrow> rat option \<Rightarrow> (cache_path \<rightharpoonup> string) \<Rightarrow> cache_fault + transport_response option" where
  "fc_stale io c request now fs =
     (let identity = request_cache_identity request in
      if \<not> ci_eligible identity \<or> req_cache request \<noteq> CacheDefault then Inr None
      else (case fc_read io c (ci_key identity) fs of
          Inl e \<Rightarrow> Inl e
        | Inr None \<Rightarrow> Inr None
        | Inr (Some (response, stored_at)) \<Rightarrow> Inr (case fc_age now stored_at of None \<Rightarrow> None | Some _ \<Rightarrow> Some response)))"

subsection \<open>Reading what was written\<close>

lemma distinct_map_sort: "distinct (map fst xs) \<Longrightarrow> distinct (map fst (sort_key fst xs))"
  unfolding distinct_map by (simp only: set_sort distinct_sort)

lemma sorted_get:
  assumes "distinct (map fst kvs)" "sort_keys (JDict kvs) = JDict s"
  shows "map_of s k = map_option sort_keys (map_of kvs k)"
proof -
  let ?f = "map (\<lambda>(k, v). (k, sort_keys v))"
  have look: "map_of (?f xs) k = map_option sort_keys (map_of xs k)" for xs :: "(string \<times> json) list"
    by (induction xs) auto
  from assms(2) have s: "s = sort_key fst (?f kvs)" by simp
  have "distinct (map fst (?f kvs))" using assms(1) by (simp add: comp_def case_prod_beta)
  moreover from this have "distinct (map fst s)" unfolding s by (rule distinct_map_sort)
  moreover have "set s = set (?f kvs)" by (simp only: s set_sort)
  ultimately have "map_of s = map_of (?f kvs)" using map_of_inject_set by blast
  then show ?thesis by (simp only: look)
qed

lemma insort_map_snd:
  "insort_key fst (k, f v) (map (\<lambda>(k, v). (k, f v)) xs) = map (\<lambda>(k, v). (k, f v)) (insort_key fst (k, v) xs)"
  by (induction xs) auto

lemma sort_map_snd: "sort_key fst (map (\<lambda>(k, v). (k, f v)) xs) = map (\<lambda>(k, v). (k, f v)) (sort_key fst xs)"
  by (induction xs) (auto simp: insort_map_snd)

lemma sort_keys_strings:
  "sort_keys (JDict (map (\<lambda>(k, v). (k, JStr v)) h)) = JDict (map (\<lambda>(k, v). (k, JStr v)) (sort_key fst h))"
proof -
  have "map (\<lambda>(k, v). (k, sort_keys v)) (map (\<lambda>(k, v). (k, JStr v)) h) = map (\<lambda>(k, v). (k, JStr v)) h"
    by (simp add: comp_def case_prod_beta)
  then show ?thesis by (simp only: sort_keys.simps sort_map_snd)
qed

definition safe_headers_of :: "(string, string) odict \<Rightarrow> (string, string) odict" where
  "safe_headers_of h = the (fc_safe_headers [] (map (\<lambda>(k, v). (k, JStr v)) h))"

definition header_table :: "(string, string) odict \<Rightarrow> bool" where
  "header_table h \<longleftrightarrow> od_wf h \<and> fst ` set h \<subseteq> set safe_response_headers"

lemma header_table_set: "header_table h \<Longrightarrow> k \<in> set safe_response_headers \<Longrightarrow> header_table (od_set k v h)"
  by (auto simp: header_table_def od_simps)

lemma fc_safe_headers_table:
  "header_table acc \<Longrightarrow> fc_safe_headers acc kvs = Some h \<Longrightarrow> header_table h"
  by (induction acc kvs rule: fc_safe_headers.induct) (auto simp: header_table_set split: json.splits)

lemma fc_safe_headers_strings: "\<exists>h. fc_safe_headers acc (map (\<lambda>(k, v). (k, JStr v)) xs) = Some h"
  by (induction xs arbitrary: acc) auto

lemma safe_headers_of_eq: "fc_safe_headers [] (map (\<lambda>(k, v). (k, JStr v)) xs) = Some (safe_headers_of xs)"
  using fc_safe_headers_strings [of "[]" xs] by (auto simp: safe_headers_of_def)

lemma safe_headers_of_table: "header_table (safe_headers_of xs)"
  using fc_safe_headers_table [OF _ safe_headers_of_eq] by (simp add: header_table_def)

lemma safe_header_lower: "k \<in> set safe_response_headers \<Longrightarrow> py_lower k = k"
proof -
  have "list_all (\<lambda>k. py_lower k = k) safe_response_headers" by code_simp
  then show "k \<in> set safe_response_headers \<Longrightarrow> py_lower k = k" by (auto simp: list_all_iff)
qed

lemma fc_safe_headers_again:
  "header_table (acc @ h) \<Longrightarrow> fc_safe_headers acc (map (\<lambda>(k, v). (k, JStr v)) h) = Some (acc @ h)"
proof (induction h arbitrary: acc)
  case (Cons e h)
  obtain k v where e: "e = (k, v)" by fastforce
  with Cons.prems have "k \<in> set safe_response_headers" "k \<notin> fst ` set acc" by (auto simp: header_table_def)
  with Cons.IH [of "acc @ [(k, v)]"] Cons.prems e show ?case by (simp add: safe_header_lower od_set_new)
qed simp

lemma header_table_sort: "header_table h \<Longrightarrow> header_table (sort_key fst h)"
  unfolding header_table_def by (simp add: distinct_map_sort)

text \<open>The response that an artifact gives back.\<close>

definition stored_response :: "transport_response \<Rightarrow> transport_response" where
  "stored_response r = \<lparr>resp_status = resp_status r, resp_headers = sort_key fst (safe_headers_of (resp_headers r)),
     resp_content = resp_content r, resp_final_url = take 2048 (sanitize_url (sanitize_url (resp_final_url r))),
     resp_route = route_cache, resp_from_cache = True, resp_elapsed_seconds = 0, resp_accounting = None\<rparr>"

lemma fc_fields_written:
  assumes "sort_keys (fc_payload io r (sanitize_url (resp_final_url r)) t) = JDict s"
    and "0 \<le> t" "co_value io (co_repr io t) = Some t" "length (sanitize_url (resp_final_url r)) \<le> 2048"
    and "100 \<le> resp_status r" "resp_status r \<le> 599" "length (resp_content r) \<le> fc_maximum_response_bytes c"
  shows "map_of s ''schema'' = Some (JInt 1)" "fc_fields io c s = Inr (Some (stored_response r, t))"
proof -
  obtain kvs where kvs: "fc_payload io r (sanitize_url (resp_final_url r)) t = JDict kvs" "distinct (map fst kvs)"
    by (simp add: fc_payload_def)
  have get: "map_of s k = map_option sort_keys (map_of kvs k)" for k
    using sorted_get [OF kvs(2)] assms(1) kvs(1) by simp
  have headers: "fc_safe_headers [] (map (\<lambda>(k, v). (k, JStr v)) (sort_key fst (safe_headers_of (resp_headers r)))) =
      Some (sort_key fst (safe_headers_of (resp_headers r)))"
    using fc_safe_headers_again [of "[]"] header_table_sort [OF safe_headers_of_table] by simp
  note payload = kvs(1) [unfolded fc_payload_def safe_headers_of_eq option.case json.inject, symmetric]
  show "map_of s ''schema'' = Some (JInt 1)" unfolding get payload by simp
  have items: "map_of s ''stored_at'' = Some (JFloat (co_repr io t))" "map_of s ''status'' = Some (JInt (int (resp_status r)))"
    "map_of s ''headers'' = Some (JDict (map (\<lambda>(k, v). (k, JStr v)) (sort_key fst (safe_headers_of (resp_headers r)))))"
    "map_of s ''final_url'' = Some (JStr (sanitize_url (resp_final_url r)))" "map_of s ''content_base64'' = Some (JStr (b64encode (resp_content r)))"
    unfolding get payload by (simp_all add: sort_keys_strings del: sort_keys.simps(1))
  show "fc_fields io c s = Inr (Some (stored_response r, t))"
    using assms headers by (simp add: fc_fields_def json_item_def items fault_bind_def stored_time_def fc_response_def b64_round_trip stored_response_def)
qed

lemma fc_artifact_written:
  assumes ok: "json_ok (co_float io) (fc_payload io r (sanitize_url (resp_final_url r)) t)"
    and artifact: "artifact = json_canonical (fc_payload io r (sanitize_url (resp_final_url r)) t)"
    and sizes: "length artifact \<le> fc_maximum_artifact_bytes c" "length (co_compress io artifact) \<le> fc_maximum_artifact_bytes c"
    and gzip: "co_decompress io (co_compress io artifact) (fc_maximum_artifact_bytes c + 1) = Inr (take (fc_maximum_artifact_bytes c + 1) artifact)"
    and decode: "co_decode io artifact = Inr artifact"
    and rest: "0 \<le> t" "co_value io (co_repr io t) = Some t" "length (sanitize_url (resp_final_url r)) \<le> 2048"
      "100 \<le> resp_status r" "resp_status r \<le> 599" "length (resp_content r) \<le> fc_maximum_response_bytes c"
  shows "fc_artifact io c (co_compress io artifact) = Inr (Some (stored_response r, t))"
proof -
  obtain s where s: "sort_keys (fc_payload io r (sanitize_url (resp_final_url r)) t) = JDict s" by (simp add: fc_payload_def)
  have "json_loads (co_float io) artifact = Some (JDict s)"
    using json_loads_dumps [OF sort_keys_ok [OF ok]] by (simp add: artifact json_canonical_def s)
  with fc_fields_written [OF s rest] sizes gzip decode show ?thesis
    by (simp add: fc_artifact_def fault_bind_def number_value_def)
qed

text \<open>What every artifact that is read satisfies, whoever wrote it.\<close>

lemma fc_read_answer:
  assumes "fc_read io c key fs = Inr (Some (r, t))"
  shows "length (resp_content r) \<le> fc_maximum_response_bytes c" "header_table (resp_headers r)" "length (resp_final_url r) \<le> 2048"
    "100 \<le> resp_status r \<and> resp_status r \<le> 599" "resp_from_cache r" "0 \<le> t"
proof -
  from assms obtain stored where "fc_artifact io c stored = Inr (Some (r, t))"
    by (auto simp: fc_read_def split: option.splits sum.splits if_splits)
  then obtain payload where "fc_fields io c payload = Inr (Some (r, t))"
    by (auto simp: fc_artifact_def fault_bind_def split: option.splits sum.splits if_splits json.splits)
  then obtain s h safe u e v where resp: "fc_response c s safe u e = Inr (Some r)" and safe: "fc_safe_headers [] h = Some safe"
    and time: "stored_time io v = Inr (Some t)"
    by (auto simp: fc_fields_def fault_bind_def split: option.splits sum.splits if_splits json.splits)
  have "header_table safe" using fc_safe_headers_table [OF _ safe] by (simp add: header_table_def)
  with resp show "length (resp_content r) \<le> fc_maximum_response_bytes c" "header_table (resp_headers r)" "length (resp_final_url r) \<le> 2048"
    "100 \<le> resp_status r \<and> resp_status r \<le> 599" "resp_from_cache r"
    by (auto simp: fc_response_def split: option.splits if_splits)
  from time show "0 \<le> t" by (auto simp: stored_time_def split: json.splits if_splits option.splits)
qed

subsection \<open>Properties\<close>

text \<open>
  C32. A response that was put into the file cache comes back.  If the request may be cached, the artifact
  fits the limits, its texts are ASCII and compression, decoding and the text of the time stamp can be
  undone, the put succeeds, and a later lookup of the request gives the status, the content, the safe headers
  and the redacted URL of the response: as fresh when its age is within the maximum, as stale when it is
  older, and not at all when the clock is unusable or more than 300 seconds behind.
\<close>

theorem file_cache_roundtrip:
  assumes request: "ci_eligible (request_cache_identity q)" "req_cache q = CacheDefault"
    and response: "length (resp_content r) \<le> fc_maximum_response_bytes c" "100 \<le> resp_status r" "resp_status r \<le> 599"
      "length (sanitize_url (resp_final_url r)) \<le> 2048"
    and ok: "json_ok (co_float io) (fc_payload io r (sanitize_url (resp_final_url r)) t)"
    and artifact: "artifact = json_canonical (fc_payload io r (sanitize_url (resp_final_url r)) t)"
    and sizes: "length artifact \<le> fc_maximum_artifact_bytes c" "length (co_compress io artifact) \<le> fc_maximum_artifact_bytes c"
    and gzip: "\<forall>s n. co_decompress io (co_compress io s) n = Inr (take n s)"
    and decode: "co_decode io artifact = Inr artifact"
    and time: "0 \<le> t" "co_value io (co_repr io t) = Some t"
  shows "case fc_put io c q r (Some t) None fs of (result, fs') \<Rightarrow> result = Inr () \<and>
    (\<exists>l. fc_get_with_stale io c q now fs' = Inr l \<and>
       (case fc_age now t of None \<Rightarrow> cl_fresh l = None \<and> cl_stale l = None
        | Some age \<Rightarrow>
            if (case fc_maximum_age_seconds c of None \<Rightarrow> True | Some m \<Rightarrow> age \<le> m)
            then cl_fresh l = Some (stored_response r) \<and> cl_stale l = None
            else cl_fresh l = None \<and> cl_stale l = Some (stored_response r)))"
proof -
  let ?k = "ci_key (request_cache_identity q)"
  have put: "fc_put io c q r (Some t) None fs = (Inr (), fs(fc_path c ?k \<mapsto> co_compress io artifact))"
    using request response sizes(1) time(1)
    by (simp add: fc_put_def fc_put_identity_def fc_write_def enforce_response_body_limit_def artifact)
  have "fc_read io c ?k (fs(fc_path c ?k \<mapsto> co_compress io artifact)) = Inr (Some (stored_response r, t))"
    using fc_artifact_written [OF ok artifact sizes _ decode time response(4,2,3,1)] gzip by (simp add: fc_read_def)
  then show ?thesis
    unfolding put using request by (auto simp: fc_get_with_stale_def Let_def split: option.splits)
qed


subsection \<open>Witnesses\<close>

definition plain_ops :: cache_ops where
  "plain_ops = \<lparr>co_compress = id, co_decompress = (\<lambda>s n. Inr (take n s)), co_decode = Inr, co_float = id,
     co_repr = (\<lambda>_. ''1.0''), co_value = (\<lambda>_. Some 1)\<rparr>"

definition short_response :: transport_response where
  "short_response = ok_response\<lparr>resp_headers := [(''ETag'', ''x'')], resp_final_url := ''u''\<rparr>"

definition sample_file_cache :: file_cache where
  "sample_file_cache = \<lparr>fc_directory = ''d'', fc_maximum_age_seconds = Some 10, fc_maximum_response_bytes = 2,
     fc_maximum_artifact_bytes = 200\<rparr>"

lemma short_payload:
  "sanitize_url ''u'' = ''u'' \<and> b64encode ''ok'' = ''b2s='' \<and> safe_headers_of [(''ETag'', ''x'')] = [(''etag'', ''x'')] \<and>
   length (json_canonical (JDict [(''schema'', JInt 1), (''stored_at'', JFloat ''1.0''), (''status'', JInt 200),
      (''headers'', JDict [(''etag'', JStr ''x'')]), (''final_url'', JStr ''u''), (''content_base64'', JStr ''b2s='')])) \<le> 200"
  by code_simp

lemma short_payload_eq:
  "fc_payload plain_ops short_response (sanitize_url (resp_final_url short_response)) 1 =
   JDict [(''schema'', JInt 1), (''stored_at'', JFloat ''1.0''), (''status'', JInt 200),
      (''headers'', JDict [(''etag'', JStr ''x'')]), (''final_url'', JStr ''u''), (''content_base64'', JStr ''b2s='')]"
proof -
  have "fc_safe_headers [] [(''ETag'', JStr ''x'')] = Some [(''etag'', ''x'')]"
    using safe_headers_of_eq [of "[(''ETag'', ''x'')]"] short_payload by simp
  then show ?thesis
    by (simp add: fc_payload_def plain_ops_def short_response_def ok_response_def short_payload
        del: fc_safe_headers.simps b64encode.simps)
qed

lemma short_payload_ok: "json_ok id (fc_payload plain_ops short_response (sanitize_url (resp_final_url short_response)) 1)"
proof -
  have "scan_number ''1.0'' = Some (''1'', ''.0'', [])" by code_simp
  then have "float_repr_ok id ''1.0''" by (simp add: float_repr_ok_def)
  then show ?thesis by (simp add: short_payload_eq ascii_def code_of_def)
qed

lemma short_facts:
  "resp_content short_response = ''ok''" "resp_status short_response = 200" "resp_final_url short_response = ''u''"
  "req_cache (cached_get ''GET'' ''http://shop.x/?a=2'') = CacheDefault"
  by (simp_all add: short_response_def ok_response_def cached_get_def page_request_def)

theorem file_cache_roundtrip_witness:
  "\<exists>fs l. fc_put plain_ops sample_file_cache (cached_get ''GET'' ''http://shop.x/?a=2'') short_response (Some 1) None Map.empty = (Inr (), fs) \<and>
     fc_get_with_stale plain_ops sample_file_cache (cached_get ''GET'' ''http://shop.x/?a=2'') (Some 5) fs = Inr l \<and>
     cl_fresh l = Some (stored_response short_response)"
proof -
  have sizes: "length (resp_content short_response) \<le> fc_maximum_response_bytes sample_file_cache" "100 \<le> resp_status short_response"
    "resp_status short_response \<le> 599" "length (sanitize_url (resp_final_url short_response)) \<le> 2048"
    by (simp_all add: short_facts sample_file_cache_def short_payload)
  let ?a = "json_canonical (fc_payload plain_ops short_response (sanitize_url (resp_final_url short_response)) 1)"
  have fits: "length ?a \<le> fc_maximum_artifact_bytes sample_file_cache" "length (co_compress plain_ops ?a) \<le> fc_maximum_artifact_bytes sample_file_cache"
  proof -
    show fits: "length ?a \<le> fc_maximum_artifact_bytes sample_file_cache"
      unfolding short_payload_eq using short_payload by (simp add: sample_file_cache_def)
    have "co_compress plain_ops x = x" for x by (simp add: plain_ops_def)
    with fits show "length (co_compress plain_ops ?a) \<le> fc_maximum_artifact_bytes sample_file_cache" by simp
  qed
  have ops: "\<forall>s n. co_decompress plain_ops (co_compress plain_ops s) n = Inr (take n s)" "co_decode plain_ops ?a = Inr ?a"
    "co_value plain_ops (co_repr plain_ops 1) = Some 1" "co_float plain_ops = id"
    by (simp_all add: plain_ops_def)
  from file_cache_roundtrip [OF cached_get_eligible(2) short_facts(4) sizes _ refl fits ops(1,2) _ ops(3), where fs = Map.empty and now = "Some 5"]
    short_payload_ok ops(4)
  show ?thesis by (auto simp: fc_age_def sample_file_cache_def split: prod.splits)
qed


end
