(* ===== verification/Registry.thy ===== *)
theory Registry
  imports Collection_Models "HOL-Library.List_Lexorder" "HOL-Library.Char_ord"
begin

section \<open>Connector registry\<close>

text \<open>
  \<^verbatim>\<open>connectors/registry.py\<close> and \<^verbatim>\<open>connectors/factory.py\<close>: plans, factories, the table of factories under
  normalized names, and the loading of plugins.  The option models, the planners and the constructors of the
  connectors are fields of a factory.
\<close>

subsection \<open>Plans and factories\<close>

record connector_plan =
  cp_partitions :: "string list"
  cp_dynamic_partitions :: bool
  cp_browser :: browser_requirement

text \<open>\<^verbatim>\<open>ConnectorPlan.__post_init__\<close>; the tests of the types hold of the record.\<close>

definition plan_post_init :: "connector_plan \<Rightarrow> exn + connector_plan" where
  "plan_post_init p =
     (if list_ex (\<lambda>value. value = [] \<or> value \<noteq> py_strip value) (cp_partitions p)
      then Inl (ValueError ''connector plan partitions must be normalized non-empty strings'')
      else if card (set (cp_partitions p)) \<noteq> length (cp_partitions p)
      then Inl (ValueError ''connector plan partitions must be unique'')
      else Inr p)"

record connector =
  cn_name :: string
  cn_version :: string
  cn_capabilities :: connector_capabilities

text \<open>
  A factory: \<open>fa_version\<close> is \<^const>\<open>None\<close> when the attribute is missing or no string, \<open>fa_plan\<close> when the method
  is missing.  \<open>'o\<close> are validated options, \<open>'t\<close> transports and \<open>'c\<close> contexts.
\<close>

record ('o, 't, 'c) connector_factory =
  fa_name :: string
  fa_version :: "string option"
  fa_options_model :: "(string, json) odict \<Rightarrow> exn + 'o"
  fa_plan :: "('o \<Rightarrow> string \<Rightarrow> string list \<Rightarrow> exn + connector_plan) option"
  fa_build :: "'t \<Rightarrow> 'o \<Rightarrow> 'c \<Rightarrow> exn + connector"

text \<open>
  \<^verbatim>\<open>SimpleConnectorFactory\<close>: the three hooks of a plan, with their defaults, and the call of the connector
  type.  Options are tagged with the model they were validated by.
\<close>

definition validated_options :: "(string \<times> 'o) \<Rightarrow> string \<Rightarrow> exn + 'o" where
  "validated_options options options_model =
     (if fst options \<noteq> options_model then Inl (PyTypeError ''factory requires validated options'') else Inr (snd options))"

record ('o, 't, 'c) simple_factory =
  sf_name :: string
  sf_version :: string
  sf_options_model :: string
  sf_validate :: "(string, json) odict \<Rightarrow> exn + 'o"
  sf_capabilities :: "connector_capabilities option"
  sf_connector_type :: "'t \<Rightarrow> 'o \<Rightarrow> 'c \<Rightarrow> exn + connector"

definition sf_plan_partitions :: "'o \<Rightarrow> string \<Rightarrow> string list \<Rightarrow> string list" where
  "sf_plan_partitions options base_url request_partitions = []"

definition sf_plan_dynamic_partitions :: "'o \<Rightarrow> string list \<Rightarrow> bool" where
  "sf_plan_dynamic_partitions options request_partitions = False"

definition sf_plan_browser :: "('o, 't, 'c) simple_factory \<Rightarrow> 'o \<Rightarrow> exn + browser_requirement" where
  "sf_plan_browser f options =
     (case sf_capabilities f of None \<Rightarrow> Inl (PyTypeError ''connector type does not declare capabilities'')
      | Some c \<Rightarrow> Inr (cc_browser c))"

definition sf_plan :: "('o, 't, 'c) simple_factory \<Rightarrow> (string \<times> 'o) \<Rightarrow> string \<Rightarrow> string list \<Rightarrow> exn + connector_plan" where
  "sf_plan f options base_url request_partitions =
     res_bind (validated_options options (sf_options_model f)) (\<lambda>validated.
     res_bind (sf_plan_browser f validated) (\<lambda>browser.
       plan_post_init \<lparr>cp_partitions = sf_plan_partitions validated base_url request_partitions,
         cp_dynamic_partitions = sf_plan_dynamic_partitions validated request_partitions, cp_browser = browser\<rparr>))"

definition sf_build :: "('o, 't, 'c) simple_factory \<Rightarrow> 't \<Rightarrow> (string \<times> 'o) \<Rightarrow> 'c \<Rightarrow> exn + connector" where
  "sf_build f transport options context =
     res_bind (validated_options options (sf_options_model f)) (\<lambda>validated. sf_connector_type f transport validated context)"

definition simple_connector_factory :: "('o, 't, 'c) simple_factory \<Rightarrow> (string \<times> 'o, 't, 'c) connector_factory" where
  "simple_connector_factory f = \<lparr>fa_name = sf_name f, fa_version = Some (sf_version f),
     fa_options_model = (\<lambda>options. res_bind (sf_validate f options) (\<lambda>v. Inr (sf_options_model f, v))),
     fa_plan = Some (sf_plan f), fa_build = sf_build f\<rparr>"

subsection \<open>The registry\<close>

text \<open>\<^verbatim>\<open>NAME.fullmatch\<close>: lower-case words of letters and digits joined by single hyphens, the first of which
  starts with a letter.\<close>

definition name_word :: "string \<Rightarrow> bool" where
  "name_word w \<longleftrightarrow> w \<noteq> [] \<and> list_all (\<lambda>c. is_lower_char c \<or> is_digit_char c) w"

definition connector_name_ok :: "string \<Rightarrow> bool" where
  "connector_name_ok name \<longleftrightarrow> name \<noteq> [] \<and> is_lower_char (hd name) \<and> list_all name_word (py_split (CHR ''-'') name)"

definition normalized_connector :: "string \<Rightarrow> string" where
  "normalized_connector name = py_replace_char (CHR ''_'') (CHR ''-'') (py_lower (py_strip name))"

record ('o, 't, 'c) registry =
  rg_factories :: "(string, ('o, 't, 'c) connector_factory) odict"
  rg_plugin_errors :: "string list"

definition registry_init :: "('o, 't, 'c) registry" where
  "registry_init = \<lparr>rg_factories = [], rg_plugin_errors = []\<rparr>"

definition rg_register :: "('o, 't, 'c) connector_factory \<Rightarrow> ('o, 't, 'c) registry \<Rightarrow> (exn + unit) \<times> ('o, 't, 'c) registry" where
  "rg_register factory rg =
     (let name = normalized_connector (fa_name factory) in
      if \<not> connector_name_ok name then (Inl (ValueError ''invalid connector name''), rg)
      else if name \<noteq> fa_name factory then (Inl (ValueError ''connector name must already be normalized''), rg)
      else if (case fa_version factory of None \<Rightarrow> True | Some v \<Rightarrow> v = [] \<or> v \<noteq> py_strip v)
      then (Inl (ValueError ''connector must declare a non-empty normalized version''), rg)
      else if fa_plan factory = None then (Inl (ValueError ''connector must declare a planning method''), rg)
      else if name \<in> fst ` set (rg_factories rg) then (Inl (ValueError ''connector is already registered''), rg)
      else (Inr (), rg\<lparr>rg_factories := od_set name factory (rg_factories rg)\<rparr>))"

definition rg_names :: "('o, 't, 'c) registry \<Rightarrow> string list" where
  "rg_names rg = sort (map fst (rg_factories rg))"

definition rg_factory :: "string \<Rightarrow> ('o, 't, 'c) registry \<Rightarrow> exn + ('o, 't, 'c) connector_factory" where
  "rg_factory name rg =
     (case map_of (rg_factories rg) (normalized_connector name) of
        Some f \<Rightarrow> Inr f
      | None \<Rightarrow> Inl (PyKeyError (''unknown connector '' @ normalized_connector name @ ''; known: '' @ py_join '', '' (rg_names rg))))"

definition rg_connector_version :: "string \<Rightarrow> ('o, 't, 'c) registry \<Rightarrow> exn + string option" where
  "rg_connector_version name rg = res_bind (rg_factory name rg) (\<lambda>f. Inr (fa_version f))"

definition rg_plan :: "string \<Rightarrow> (string, json) odict \<Rightarrow> string \<Rightarrow> string list \<Rightarrow> ('o, 't, 'c) registry \<Rightarrow> exn + connector_plan" where
  "rg_plan name options base_url request_partitions rg =
     res_bind (rg_factory name rg) (\<lambda>factory.
     res_bind (fa_options_model factory options) (\<lambda>validated.
       case fa_plan factory of None \<Rightarrow> Inl (PyTypeError ''not callable'')
       | Some plan \<Rightarrow> plan validated base_url request_partitions))"

definition rg_build :: "string \<Rightarrow> 't \<Rightarrow> (string, json) odict \<Rightarrow> 'c \<Rightarrow> ('o, 't, 'c) registry \<Rightarrow> exn + connector" where
  "rg_build name transport options context rg =
     res_bind (rg_factory name rg) (\<lambda>factory.
     res_bind (fa_options_model factory options) (\<lambda>validated.
     res_bind (fa_build factory transport validated context) (\<lambda>connector.
       if Some (cn_version connector) \<noteq> fa_version factory
       then Inl (ValueError ''connector built another version than its factory declares'') else Inr connector)))"

text \<open>
  \<^verbatim>\<open>load_entry_points\<close>: an entry point loads a factory, or fails with an exception of the given type name.
  The exception of a strict load ends the loop before the errors are recorded.
\<close>

record ('o, 't, 'c) entry_point =
  ep_package :: "string option"
  ep_name :: string
  ep_loaded :: "string + ('o, 't, 'c) connector_factory"

definition plugin_failure :: "('o, 't, 'c) entry_point \<Rightarrow> string \<Rightarrow> string" where
  "plugin_failure point error_type =
     ''plugin '' @ (case ep_package point of None \<Rightarrow> ''unknown package'' | Some p \<Rightarrow> p) @ '':'' @ ep_name point @ '' failed: '' @ error_type"

definition load_point :: "('o, 't, 'c) entry_point \<Rightarrow> ('o, 't, 'c) registry \<Rightarrow> string option \<times> ('o, 't, 'c) registry" where
  "load_point point rg =
     (case ep_loaded point of Inl error_type \<Rightarrow> (Some (plugin_failure point error_type), rg)
      | Inr factory \<Rightarrow> (case rg_register factory rg of
          (Inr _, rg') \<Rightarrow> (None, rg')
        | (Inl _, rg') \<Rightarrow> (Some (plugin_failure point ''ValueError''), rg')))"

fun load_points :: "bool \<Rightarrow> ('o, 't, 'c) entry_point list \<Rightarrow> string list \<Rightarrow> ('o, 't, 'c) registry \<Rightarrow>
    (exn + string list) \<times> ('o, 't, 'c) registry" where
  "load_points strict [] errors rg = (Inr errors, rg\<lparr>rg_plugin_errors := rg_plugin_errors rg @ errors\<rparr>)"
| "load_points strict (point # points) errors rg =
     (case load_point point rg of
        (None, rg') \<Rightarrow> load_points strict points errors rg'
      | (Some failure, rg') \<Rightarrow> if strict then (Inl (RuntimeErr failure), rg') else load_points strict points (errors @ [failure]) rg')"

definition rg_load_entry_points :: "('o, 't, 'c) entry_point list \<Rightarrow> bool \<Rightarrow> ('o, 't, 'c) registry \<Rightarrow>
    (exn + string list) \<times> ('o, 't, 'c) registry" where
  "rg_load_entry_points points strict rg = load_points strict points [] rg"

text \<open>\<^verbatim>\<open>register_builtin_connectors\<close>: the names of the built-in factories in their order.\<close>

definition builtin_names :: "string list" where
  "builtin_names = [''shopify'', ''generic-pages'', ''woocommerce'', ''prestashop'', ''bigcommerce'', ''wix'', ''shopware'',
     ''starweb'', ''nitrosell'', ''sumup'']"

fun register_all :: "('o, 't, 'c) connector_factory list \<Rightarrow> ('o, 't, 'c) registry \<Rightarrow> (exn + unit) \<times> ('o, 't, 'c) registry" where
  "register_all [] rg = (Inr (), rg)"
| "register_all (f # fs) rg = (case rg_register f rg of (Inl e, rg') \<Rightarrow> (Inl e, rg') | (Inr _, rg') \<Rightarrow> register_all fs rg')"

subsection \<open>Well-formed registries\<close>

definition factory_ok :: "('o, 't, 'c) connector_factory \<Rightarrow> bool" where
  "factory_ok f \<longleftrightarrow> connector_name_ok (fa_name f) \<and> normalized_connector (fa_name f) = fa_name f \<and>
     (case fa_version f of None \<Rightarrow> False | Some v \<Rightarrow> v \<noteq> [] \<and> v = py_strip v) \<and> fa_plan f \<noteq> None"

definition rg_ok :: "('o, 't, 'c) registry \<Rightarrow> bool" where
  "rg_ok rg \<longleftrightarrow> od_wf (rg_factories rg) \<and> list_all (\<lambda>(k, f). k = fa_name f \<and> factory_ok f) (rg_factories rg)"

text \<open>A registration succeeds exactly for a well-formed factory with a new name, and then adds just it.\<close>

lemma rg_register_cases:
  "rg_register f rg = (if factory_ok f \<and> fa_name f \<notin> fst ` set (rg_factories rg)
     then (Inr (), rg\<lparr>rg_factories := od_set (fa_name f) f (rg_factories rg)\<rparr>)
     else (Inl (case fst (rg_register f rg) of Inl e \<Rightarrow> e), rg))"
  by (cases "fa_version f") (auto simp: rg_register_def factory_ok_def Let_def)

lemma rg_ok_register: "rg_ok rg \<Longrightarrow> rg_ok (snd (rg_register f rg))"
  using od_set_ball [of "rg_factories rg" "\<lambda>k f. k = fa_name f \<and> factory_ok f" "fa_name f" f]
  by (subst rg_register_cases) (auto simp: rg_ok_def list_all_iff)

definition keeps_factories :: "('o, 't, 'c) registry \<Rightarrow> ('o, 't, 'c) registry \<Rightarrow> bool" where
  "keeps_factories rg rg' \<longleftrightarrow> map_of (rg_factories rg) \<subseteq>\<^sub>m map_of (rg_factories rg')"

lemma keeps_factories_trans: "keeps_factories a b \<Longrightarrow> keeps_factories b c \<Longrightarrow> keeps_factories a c"
  unfolding keeps_factories_def by (rule map_le_trans)

lemma keeps_register: "keeps_factories rg (snd (rg_register f rg))"
proof (cases "factory_ok f \<and> fa_name f \<notin> fst ` set (rg_factories rg)")
  case True
  then have "map_of (rg_factories rg) (fa_name f) = None" by (simp add: map_of_eq_None_iff)
  then show ?thesis using True
    by (subst rg_register_cases) (auto simp: keeps_factories_def map_le_def od_get_set)
qed (subst rg_register_cases, auto simp: keeps_factories_def)

lemma load_point_register:
  "snd (load_point p rg) = (case ep_loaded p of Inl _ \<Rightarrow> rg | Inr f \<Rightarrow> snd (rg_register f rg))"
  by (auto simp: load_point_def split: sum.splits prod.splits)

lemma load_points_ok:
  "rg_ok rg \<Longrightarrow> rg_ok (snd (load_points strict points errors rg)) \<and> keeps_factories rg (snd (load_points strict points errors rg))"
proof (induction strict points errors rg rule: load_points.induct)
  case (1 strict errors rg)
  then show ?case by (simp add: rg_ok_def keeps_factories_def)
next
  case (2 strict point points errors rg)
  obtain failure rg' where p: "load_point point rg = (failure, rg')" by fastforce
  have "rg' = (case ep_loaded point of Inl _ \<Rightarrow> rg | Inr f \<Rightarrow> snd (rg_register f rg))"
    using load_point_register [of point rg] p by simp
  then have "rg_ok rg'" "keeps_factories rg rg'"
    using 2(3) rg_ok_register keeps_register by (auto simp: keeps_factories_def split: sum.splits)
  with 2(1) [OF p [symmetric]] 2(2) [OF p [symmetric]] p show ?case
    by (cases failure) (auto intro: keeps_factories_trans)
qed

datatype ('o, 't, 'c) registry_op =
    OpRegister "('o, 't, 'c) connector_factory"
  | OpLoad "('o, 't, 'c) entry_point list" bool

fun registry_apply :: "('o, 't, 'c) registry_op \<Rightarrow> ('o, 't, 'c) registry \<Rightarrow> ('o, 't, 'c) registry" where
  "registry_apply (OpRegister f) rg = snd (rg_register f rg)"
| "registry_apply (OpLoad points strict) rg = snd (rg_load_entry_points points strict rg)"

lemma registry_apply_ok: "rg_ok rg \<Longrightarrow> rg_ok (registry_apply oper rg) \<and> keeps_factories rg (registry_apply oper rg)"
  by (cases oper) (auto simp: rg_ok_register keeps_register rg_load_entry_points_def load_points_ok)

lemma registry_run_ok: "rg_ok (foldl (\<lambda>rg oper. registry_apply oper rg) registry_init opers)"
proof (induction opers rule: rev_induct)
  case Nil
  then show ?case by (simp add: registry_init_def rg_ok_def)
qed (simp add: registry_apply_ok)

lemma rg_factory_ok:
  assumes "rg_ok rg" "rg_factory name rg = Inr f"
  shows "fa_name f = normalized_connector name \<and> factory_ok f"
  using assms map_of_SomeD [of "rg_factories rg" "normalized_connector name" f]
  by (auto simp: rg_factory_def rg_ok_def list_all_iff split: option.splits)

text \<open>A load that is not strict raises nothing and records one error per plugin that failed.\<close>

lemma load_points_lenient:
  "\<exists>es rg'. load_points False points errors rg = (Inr (errors @ es), rg') \<and> length es \<le> length points \<and>
     rg_plugin_errors rg' = rg_plugin_errors rg @ errors @ es"
proof (induction points arbitrary: errors rg)
  case (Cons point points)
  obtain failure rg1 where p: "load_point point rg = (failure, rg1)" by fastforce
  have "rg_plugin_errors rg1 = rg_plugin_errors rg"
    using load_point_register [of point rg] p by (subst (asm) rg_register_cases) (auto split: sum.splits if_splits)
  with Cons.IH [of errors rg1] Cons.IH [of "errors @ [the failure]" rg1] p show ?case
    by (cases failure) fastforce+
qed simp

subsection \<open>Properties\<close>


subsection \<open>Witnesses\<close>

definition sample_factory :: "string \<Rightarrow> (unit, unit, unit) connector_factory" where
  "sample_factory name = \<lparr>fa_name = name, fa_version = Some ''1'', fa_options_model = (\<lambda>_. Inr ()),
     fa_plan = Some (\<lambda>_ _ _. Inr \<lparr>cp_partitions = [], cp_dynamic_partitions = False, cp_browser = RequirementNever\<rparr>),
     fa_build = (\<lambda>_ _ _. Inl BudgetExhausted)\<rparr>"

lemma builtin_names_ok: "list_all (\<lambda>n. connector_name_ok n \<and> normalized_connector n = n) builtin_names \<and> distinct builtin_names"
  by code_simp

text \<open>The built-in factories can all be registered.\<close>

lemma register_all_succeeds:
  "list_all factory_ok fs \<Longrightarrow> distinct (map fa_name fs) \<Longrightarrow> (\<forall>f \<in> set fs. fa_name f \<notin> fst ` set (rg_factories rg)) \<Longrightarrow>
   fst (register_all fs rg) = Inr ()"
proof (induction fs arbitrary: rg)
  case (Cons f fs)
  have "rg_register f rg = (Inr (), rg\<lparr>rg_factories := od_set (fa_name f) f (rg_factories rg)\<rparr>)"
    using Cons.prems by (subst rg_register_cases) auto
  moreover have "\<forall>g \<in> set fs. fa_name g \<notin> fst ` set (od_set (fa_name f) f (rg_factories rg))"
    using Cons.prems by (auto simp: od_keys_set) (metis imageI)
  ultimately show ?case using Cons by auto
qed simp

lemma builtins_register:
  assumes "map fa_name fs = builtin_names" "\<forall>f \<in> set fs. fa_version f \<in> {Some ''1'', Some ''2''} \<and> fa_plan f \<noteq> None"
  shows "fst (register_all fs registry_init) = Inr ()"
proof (rule register_all_succeeds)
  have names: "fa_name f \<in> set builtin_names" if "f \<in> set fs" for f using assms(1) that by (metis image_eqI list.set_map)
  have "py_strip ''1'' = ''1'' \<and> py_strip ''2'' = ''2''" by code_simp
  then show "list_all factory_ok fs"
    using assms(2) builtin_names_ok names by (auto simp: list_all_iff factory_ok_def)
  show "distinct (map fa_name fs)" using assms(1) builtin_names_ok by simp
qed (simp add: registry_init_def)


end
