(* ===== verification/Runtime.thy ===== *)
theory Runtime
  imports Registry Browser_Dispatch Middleware Routed Robots Httpx
begin

section \<open>The runtime\<close>

text \<open>
  \<^verbatim>\<open>runtime/client.py\<close> and \<^verbatim>\<open>runtime/builder.py\<close>: the configuration of a scraper, the stack of transports that
  is composed for a collection, the life cycle of a collection with its events, and the release of what the
  scraper owns.  A stack is described by a datatype whose constructors are the transport classes; what each
  of them does is the subject of the theory of its class.  Caller-provided objects are numbers, equal when
  the objects are identical.
\<close>

subsection \<open>Stacks of transports\<close>

text \<open>The factories of proxied transports: the caller's, and the two wrappers of the runtime.\<close>

datatype proxy_builder =
    RawBuilder
  | BrowserBuilder proxy_builder bool bd_config
  | LimitedBuilder proxy_builder nat

datatype stack =
    RawTransport nat
  | LeaseTransport nat
  | LeaseBrowser nat
  | BrowserDispatch stack "stack option" bd_config
  | OwnedProxyBrowser stack stack "stack option"
  | RateLimited stack nat
  | RoutedStack stack proxy_builder proxy_policy_config
  | MiddlewareStack stack mt_config "nat option" bool "stack option" "nat option"

text \<open>\<^verbatim>\<open>build\<close> of the factories for a lease.\<close>

fun builder_build :: "proxy_builder \<Rightarrow> nat \<Rightarrow> stack" where
  "builder_build RawBuilder lease = LeaseTransport lease"
| "builder_build (BrowserBuilder b with_browser cfg) lease =
     (let http = builder_build b lease; browser = (if with_browser then Some (LeaseBrowser lease) else None) in
      OwnedProxyBrowser (BrowserDispatch http browser (cfg\<lparr>bd_proxy_browser_supported := with_browser\<rparr>)) http browser)"
| "builder_build (LimitedBuilder b limiter) lease = RateLimited (builder_build b lease) limiter"

subsection \<open>The scraper\<close>

record scraper =
  sc_transport :: nat
  sc_proxy_pool :: bool
  sc_proxy_policy :: proxy_policy_config
  sc_proxy_transport_factory :: bool
  sc_proxy_browser_factory :: "bool option"
  sc_require_authorization :: bool
  sc_budget :: "nat option"
  sc_telemetry :: bool
  sc_fetch_policy :: "fetch_policy option"
  sc_cache :: bool
  sc_stale_on_error :: bool
  sc_retries :: int
  sc_backoff :: "nat \<Rightarrow> rat"
  sc_owns_transport :: bool
  sc_browser_transport :: "nat option"
  sc_owns_browser_transport :: bool
  sc_maximum_response_bytes :: int

text \<open>
  \<^verbatim>\<open>CommerceScraper.__init__\<close>: the checks of a configuration.  \<open>sc_proxy_browser_factory\<close> tells whether there is
  a browser factory and whether it authorizes subrequests.
\<close>

definition scraper_init :: "scraper \<Rightarrow> exn + scraper" where
  "scraper_init sc =
     (if pp_mode (sc_proxy_policy sc) \<noteq> ProxyNever \<and> \<not> (sc_proxy_pool sc \<and> sc_proxy_transport_factory sc)
      then Inl (ValueError ''active proxy_policy requires both proxy_pool and proxy_transport_factory'')
      else if sc_retries sc < 0 then Inl (ValueError ''retries must be non-negative'')
      else if sc_maximum_response_bytes sc < 1 then Inl (ValueError ''maximum_response_bytes must be positive'')
      else Inr sc)"

text \<open>The arguments of \<^verbatim>\<open>open_connector\<close> that override the configuration.\<close>

record selection =
  se_fetch_policy :: "fetch_policy option"
  se_proxy_policy :: "proxy_policy_config option"
  se_budget :: "nat option"
  se_browser_transport :: "nat option"

fun first_given :: "'a option \<Rightarrow> 'a option \<Rightarrow> 'a option" where
  "first_given None b = b"
| "first_given (Some a) b = Some a"

definition select :: "scraper \<Rightarrow> selection \<Rightarrow> selection" where
  "select sc se = \<lparr>se_fetch_policy = first_given (se_fetch_policy se) (sc_fetch_policy sc),
     se_proxy_policy = first_given (se_proxy_policy se) (Some (sc_proxy_policy sc)),
     se_budget = first_given (se_budget se) (sc_budget sc),
     se_browser_transport = first_given (se_browser_transport se) (sc_browser_transport sc)\<rparr>"

definition selected_mode :: "selection \<Rightarrow> proxy_mode" where
  "selected_mode se = (case se_proxy_policy se of None \<Rightarrow> ProxyNever | Some p \<Rightarrow> pp_mode p)"

definition route_uses_proxy :: "selection \<Rightarrow> bool" where
  "route_uses_proxy se \<longleftrightarrow> selected_mode se \<noteq> ProxyNever"

definition selected_browser_policy :: "selection \<Rightarrow> browser_policy" where
  "selected_browser_policy se = (case se_fetch_policy se of None \<Rightarrow> BrowserPolicyAllow | Some p \<Rightarrow> fp_browser p)"

text \<open>The identity of a collection in its events; \<open>fresh_id\<close> is the \<^verbatim>\<open>uuid4\<close>.\<close>

definition collection_context ::
  "scraper \<Rightarrow> ('o, 't, 'c) registry \<Rightarrow> source_definition \<Rightarrow> string option \<Rightarrow> string \<Rightarrow> exn + (string, json) odict" where
  "collection_context sc rg source collection_id fresh_id =
     (if \<not> sc_telemetry sc then Inr []
      else res_bind (rg_connector_version (sd_connector source) rg) (\<lambda>version.
        Inr [(''collection_id'', JStr (case collection_id of None \<Rightarrow> fresh_id | Some i \<Rightarrow> if i = [] then fresh_id else i)),
             (''source_id'', JStr (sd_id source)), (''connector'', JStr (sd_connector source)),
             (''connector_version'', case version of None \<Rightarrow> JNull | Some v \<Rightarrow> JStr v)]))"

subsection \<open>Composition\<close>

definition check_subrequest_authorization :: "scraper \<Rightarrow> selection \<Rightarrow> exn + unit" where
  "check_subrequest_authorization sc se =
     (if route_uses_proxy se \<and> sc_require_authorization sc \<and> sc_proxy_browser_factory sc = Some False
      then Inl ProxyBrowserRoutingUnsupported else Inr ())"

definition dispatch_layer :: "scraper \<Rightarrow> selection \<Rightarrow> (string, json) odict \<Rightarrow> exn + stack" where
  "dispatch_layer sc se ctx =
     res_bind (bd_init (selected_browser_policy se) (\<not> route_uses_proxy se \<or> sc_proxy_browser_factory sc \<noteq> None)
         (sc_telemetry sc) ctx (sc_maximum_response_bytes sc)) (\<lambda>cfg.
       Inr (BrowserDispatch (RawTransport (sc_transport sc)) (map_option RawTransport (se_browser_transport se)) cfg))"

text \<open>The host of the base URL is computed for the authorizer of browser subrequests and may raise.\<close>

definition proxy_browser_layer ::
  "scraper \<Rightarrow> selection \<Rightarrow> source_definition \<Rightarrow> (string, json) odict \<Rightarrow> exn + proxy_builder option" where
  "proxy_browser_layer sc se source ctx =
     (if \<not> sc_proxy_transport_factory sc then Inr None
      else if \<not> route_uses_proxy se then Inr (Some RawBuilder)
      else if \<not> sc_proxy_pool sc then Inl (ValueError ''proxy routing requires both proxy_pool and proxy_transport_factory'')
      else res_bind (urlsplit (sd_base_url source)) (\<lambda>_.
        res_bind (bd_init (selected_browser_policy se) False (sc_telemetry sc) ctx (sc_maximum_response_bytes sc)) (\<lambda>cfg.
          Inr (Some (BrowserBuilder RawBuilder (sc_proxy_browser_factory sc \<noteq> None) cfg)))))"

text \<open>
  The rate limiters: \<open>new_limiter\<close> gives the object of the first and of the second call of the factory, or
  the exception it raises.  The result is the direct stack, the proxy factory and the limiter that the
  controller uses.
\<close>

definition limiter_layer ::
  "selection \<Rightarrow> (nat \<Rightarrow> exn + nat) \<Rightarrow> stack \<Rightarrow> proxy_builder option \<Rightarrow> exn + (stack \<times> proxy_builder option \<times> nat option)" where
  "limiter_layer se new_limiter attempt_transport proxy_factory =
     (case se_fetch_policy se of None \<Rightarrow> Inr (attempt_transport, proxy_factory, None)
      | Some _ \<Rightarrow>
          if \<not> route_uses_proxy se then res_bind (new_limiter 0) (\<lambda>limiter. Inr (attempt_transport, proxy_factory, Some limiter))
          else res_bind (new_limiter 0) (\<lambda>proxy_limiter.
            res_bind (if selected_mode se \<noteq> ProxyFallback then Inr attempt_transport
                else res_bind (new_limiter 1) (\<lambda>direct_limiter.
                  if direct_limiter = proxy_limiter
                  then Inl (ValueError ''rate_limiter_factory must return independent direct and proxy limiters'')
                  else Inr (RateLimited attempt_transport direct_limiter))) (\<lambda>direct.
              Inr (direct, map_option (\<lambda>f. LimitedBuilder f proxy_limiter) proxy_factory, None))))"

definition routed_layer ::
  "scraper \<Rightarrow> selection \<Rightarrow> source_definition \<Rightarrow> stack \<Rightarrow> proxy_builder option \<Rightarrow> exn + stack" where
  "routed_layer sc se source attempt_transport proxy_factory =
     (if \<not> route_uses_proxy se then Inr attempt_transport
      else (case (sc_proxy_pool sc, proxy_factory, se_proxy_policy se) of
          (True, Some factory, Some policy) \<Rightarrow>
            res_bind (routed_proxy_request policy (sd_id source) (sd_base_url source)) (\<lambda>_.
              Inr (RoutedStack attempt_transport factory policy))
        | _ \<Rightarrow> Inl (ValueError ''proxy routing requires both proxy_pool and proxy_transport_factory'')))"

definition controller_config :: "scraper \<Rightarrow> source_definition \<Rightarrow> bool \<Rightarrow> exn + mt_config" where
  "controller_config sc source stale_on_error =
     mt_init stale_on_error (sc_retries sc) (sc_backoff sc) (sc_telemetry sc)
       (if sc_telemetry sc then Some (sd_id source) else None) (sc_maximum_response_bytes sc)"

text \<open>The robots checker fetches over a controller of its own, without cache and robots; \<open>new_robots\<close> is the factory.\<close>

definition robots_layer ::
  "scraper \<Rightarrow> selection \<Rightarrow> source_definition \<Rightarrow> (stack \<Rightarrow> exn + unit) \<Rightarrow> stack \<Rightarrow> nat option \<Rightarrow> exn + stack option" where
  "robots_layer sc se source new_robots attempt_transport limiter =
     (case se_fetch_policy se of
        Some policy \<Rightarrow>
          if fp_robots policy = RobotsObey
          then res_bind (controller_config sc source False) (\<lambda>cfg.
            let attempts = MiddlewareStack attempt_transport cfg (se_budget se) False None limiter in
            res_bind (new_robots attempts) (\<lambda>_. Inr (Some attempts)))
          else Inr None
      | None \<Rightarrow> Inr None)"

definition controller_layer ::
  "scraper \<Rightarrow> selection \<Rightarrow> source_definition \<Rightarrow> stack \<Rightarrow> stack option \<Rightarrow> nat option \<Rightarrow> exn + stack" where
  "controller_layer sc se source attempt_transport robots limiter =
     (if se_budget se \<noteq> None \<or> sc_telemetry sc \<or> sc_cache sc \<or> robots \<noteq> None \<or> limiter \<noteq> None \<or>
         selected_mode se \<in> {ProxyFallback, ProxyFailover}
      then res_bind (controller_config sc source (sc_stale_on_error sc)) (\<lambda>cfg.
        Inr (MiddlewareStack attempt_transport cfg (se_budget se) (sc_cache sc) robots limiter))
      else Inr attempt_transport)"

text \<open>The transport of a connector and the routed stack to be closed, if any.\<close>

definition compose_transport ::
  "scraper \<Rightarrow> selection \<Rightarrow> source_definition \<Rightarrow> (string, json) odict \<Rightarrow> (nat \<Rightarrow> exn + nat) \<Rightarrow> (stack \<Rightarrow> exn + unit) \<Rightarrow>
   exn + (stack \<times> bool)" where
  "compose_transport sc se source ctx new_limiter new_robots =
     res_bind (check_subrequest_authorization sc se) (\<lambda>_.
     res_bind (dispatch_layer sc se ctx) (\<lambda>dispatch.
     res_bind (proxy_browser_layer sc se source ctx) (\<lambda>factory.
     res_bind (limiter_layer se new_limiter dispatch factory) (\<lambda>(direct, factory', limiter).
     res_bind (routed_layer sc se source direct factory') (\<lambda>attempt.
     res_bind (robots_layer sc se source new_robots attempt limiter) (\<lambda>robots.
     res_bind (controller_layer sc se source attempt robots limiter) (\<lambda>whole.
       Inr (whole, route_uses_proxy se))))))))"

subsection \<open>Opening a connector\<close>

text \<open>
  \<^verbatim>\<open>ConnectorContext\<close> and \<^verbatim>\<open>_ContextualTelemetry\<close>: the events of a connector carry the identity of the
  collection, which wins over fields of the same name.
\<close>

record connector_context =
  xc_budget :: "nat option"
  xc_telemetry :: "(string, json) odict option"

definition contextual_fields :: "(string, json) odict \<Rightarrow> (string, json) odict \<Rightarrow> (string, json) odict" where
  "contextual_fields ctx flds = od_merge flds ctx"

definition check_connector :: "scraper \<Rightarrow> selection \<Rightarrow> connector \<Rightarrow> exn + unit" where
  "check_connector sc se c =
     (case se_fetch_policy se of None \<Rightarrow> Inr ()
      | Some policy \<Rightarrow>
          if fp_browser policy = BrowserPolicyNever \<and> cc_browser (cn_capabilities c) = RequirementRequired
          then Inl (ValueError ''connector requires a browser but fetch policy forbids it'')
          else if fp_browser policy = BrowserPolicyRequire \<and> se_browser_transport se = None \<and>
            \<not> (route_uses_proxy se \<and> sc_proxy_browser_factory sc \<noteq> None)
          then Inl (ValueError ''fetch policy requires a browser but no backend is configured'')
          else Inr ())"

datatype open_call = OcBuild stack | OcBody connector | OcClose

text \<open>
  The \<^verbatim>\<open>try\<close> block of \<^verbatim>\<open>open_connector\<close>: \<open>body\<close> is what the caller does with the connector, and may raise.
\<close>

definition run_connector ::
  "scraper \<Rightarrow> ('o, stack, connector_context) registry \<Rightarrow> selection \<Rightarrow> source_definition \<Rightarrow> (string, json) odict \<Rightarrow> stack \<Rightarrow>
   (connector \<Rightarrow> exn + 'a) \<Rightarrow> (exn + 'a) \<times> open_call list" where
  "run_connector sc rg se source ctx whole body =
     (case rg_build (sd_connector source) whole (sd_connector_options source)
         \<lparr>xc_budget = se_budget se, xc_telemetry = (if sc_telemetry sc then Some ctx else None)\<rparr> rg of
        Inl e \<Rightarrow> (Inl e, [OcBuild whole])
      | Inr c \<Rightarrow> (case check_connector sc se c of
          Inl e \<Rightarrow> (Inl e, [OcBuild whole])
        | Inr _ \<Rightarrow> (body c, [OcBuild whole, OcBody c])))"

text \<open>\<^verbatim>\<open>open_connector\<close> as a context manager; \<open>close\<close> is the outcome of \<^verbatim>\<open>routed.aclose\<close>.\<close>

definition open_connector ::
  "scraper \<Rightarrow> ('o, stack, connector_context) registry \<Rightarrow> selection \<Rightarrow> source_definition \<Rightarrow> string option \<Rightarrow> string \<Rightarrow>
   (nat \<Rightarrow> exn + nat) \<Rightarrow> (stack \<Rightarrow> exn + unit) \<Rightarrow> (connector \<Rightarrow> exn + 'a) \<Rightarrow> exn + unit \<Rightarrow> (exn + 'a) \<times> open_call list" where
  "open_connector sc rg overrides source collection_id fresh_id new_limiter new_robots body close =
     (let se = select sc overrides in
      case collection_context sc rg source collection_id fresh_id of Inl e \<Rightarrow> (Inl e, [])
      | Inr ctx \<Rightarrow> (case compose_transport sc se source ctx new_limiter new_robots of Inl e \<Rightarrow> (Inl e, [])
        | Inr (whole, routed) \<Rightarrow> (case run_connector sc rg se source ctx whole body of (result, calls) \<Rightarrow>
            if routed then ((case close of Inl e \<Rightarrow> Inl e | Inr _ \<Rightarrow> result), calls @ [OcClose]) else (result, calls))))"

subsection \<open>The life cycle of a collection\<close>

fun diagnostic_code_value :: "diagnostic_code \<Rightarrow> string" where
  "diagnostic_code_value ResultLimitReached = ''result_limit_reached''"
| "diagnostic_code_value RequestBudgetExhausted = ''request_budget_exhausted''"
| "diagnostic_code_value EnumerationIncomplete = ''enumeration_incomplete''"
| "diagnostic_code_value EntityFetchFailed = ''entity_fetch_failed''"
| "diagnostic_code_value ParserUnsupported = ''parser_unsupported''"
| "diagnostic_code_value BrowserIsRequired = ''browser_required''"
| "diagnostic_code_value RateLimitedCode = ''rate_limited''"
| "diagnostic_code_value ProxyBudgetExhaustedCode = ''proxy_budget_exhausted''"
| "diagnostic_code_value OptionalEnrichmentSkipped = ''optional_enrichment_skipped''"
| "diagnostic_code_value SchemaChanged = ''schema_changed''"
| "diagnostic_code_value CheckpointInvalid = ''checkpoint_invalid''"

fun severity_value :: "diagnostic_severity \<Rightarrow> string" where
  "severity_value SeverityInfo = ''info''"
| "severity_value SeverityWarning = ''warning''"
| "severity_value SeverityError = ''error''"

type_synonym runtime_event = "string \<times> (string, json) odict"

definition runtime_page :: "commerce_snapshot entity_page \<Rightarrow> exn + commerce_snapshot entity_page" where
  "runtime_page page =
     res_bind (res_all sanitize_diagnostic (pg_diagnostics page)) (\<lambda>diagnostics.
       Inr (page\<lparr>pg_items := map sanitize_commerce_snapshot (pg_items page), pg_diagnostics := diagnostics\<rparr>))"

definition diagnostic_event :: "(string, json) odict \<Rightarrow> commerce_snapshot entity_page \<Rightarrow> diagnostic \<Rightarrow> runtime_event" where
  "diagnostic_event ctx page d = (''connector.diagnostic'', od_merge ctx
     [(''level'', JStr (severity_value (dg_severity d))), (''partition'', JStr (pg_partition_key page)), (''sequence'', JInt (pg_sequence page)),
      (''code'', JStr (diagnostic_code_value (dg_code d))), (''severity'', JStr (severity_value (dg_severity d))),
      (''retryable'', JBool (dg_retryable d)), (''affects_completeness'', JBool (dg_affects_completeness d))])"

definition page_events :: "(string, json) odict \<Rightarrow> commerce_snapshot entity_page \<Rightarrow> runtime_event list" where
  "page_events ctx page = (''connector.page_emitted'', od_merge ctx
      [(''level'', JStr ''debug''), (''partition'', JStr (pg_partition_key page)), (''sequence'', JInt (pg_sequence page)),
       (''emitted'', JInt (int (length (pg_items page)))), (''discovered'', JInt (pg_discovered page)),
       (''diagnostics'', JInt (int (length (pg_diagnostics page)))), (''terminal'', JBool (pg_terminal page)),
       (''enumeration_intact'', JBool (pg_enumeration_intact page))]) #
     map (diagnostic_event ctx page) (pg_diagnostics page)"

text \<open>
  What the iteration over the pages of the connector does: it is exhausted, or ends with an exception of the
  given type, raised by the connector, by the deadline, by a cancellation or by closing the generator.
\<close>

datatype stream_end = StreamDone | StreamRaised string

fun deliver_pages :: "(string, json) odict \<Rightarrow> commerce_snapshot entity_page list \<Rightarrow> stream_end \<Rightarrow>
    runtime_event list \<times> commerce_snapshot entity_page list \<times> stream_end" where
  "deliver_pages ctx [] ending = ([], [], ending)"
| "deliver_pages ctx (page # pages) ending =
     (case runtime_page page of Inl _ \<Rightarrow> ([], [], StreamRaised ''ValidationError'')
      | Inr sanitized \<Rightarrow> (case deliver_pages ctx pages ending of (events, out, result) \<Rightarrow>
          (page_events ctx sanitized @ events, sanitized # out, result)))"

text \<open>
  \<^verbatim>\<open>_CollectionLifecycleConnector.collect\<close>: the events, the pages that were handed out, and the end.  A deadline
  is given with a flag that tells whether it has a time zone.
\<close>

definition final_event :: "(string, json) odict \<Rightarrow> stream_end \<Rightarrow> runtime_event" where
  "final_event ctx result = (case result of
     StreamDone \<Rightarrow> (''collection.completed'', od_merge ctx [(''level'', JStr ''info'')])
   | StreamRaised error_type \<Rightarrow> (''collection.interrupted'', od_merge ctx [(''level'', JStr ''warning''), (''error_type'', JStr error_type)]))"

definition lifecycle_collect :: "bool \<Rightarrow> (string, json) odict \<Rightarrow> bool option \<Rightarrow> commerce_snapshot entity_page list \<Rightarrow> stream_end \<Rightarrow>
    runtime_event list \<times> commerce_snapshot entity_page list \<times> stream_end" where
  "lifecycle_collect telemetry ctx deadline pages ending =
     (let (events, out, result) =
            (if deadline = Some False then ([], [], StreamRaised ''ValueError'') else deliver_pages ctx pages ending)
      in (if telemetry then (''collection.started'', od_merge ctx [(''level'', JStr ''info'')]) # events @ [final_event ctx result] else [],
          out, result))"

subsection \<open>Releasing what the scraper owns\<close>

text \<open>
  \<^verbatim>\<open>_close_owned_resource\<close>: \<open>outcome\<close> is the type name of the exception of \<^verbatim>\<open>aclose\<close>, with whether it is a
  cancellation, or nothing.  The elapsed time of the events is left out.
\<close>

datatype cleanup_call = CleanupStarted string | CleanupClose nat | CleanupFailed string string bool | CleanupCompleted string

definition close_owned_resource :: "bool \<Rightarrow> string \<Rightarrow> nat \<Rightarrow> (string \<times> bool) option \<Rightarrow> cleanup_call list" where
  "close_owned_resource telemetry resource target outcome =
     (let emit = (\<lambda>c. if telemetry then [c] else []) in
      emit (CleanupStarted resource) @ [CleanupClose target] @
      (case outcome of None \<Rightarrow> emit (CleanupCompleted resource) | Some (t, cancelled) \<Rightarrow> emit (CleanupFailed resource t cancelled)))"

text \<open>\<^verbatim>\<open>__aexit__\<close>; \<open>closable\<close> tells which objects have an \<^verbatim>\<open>aclose\<close>.\<close>

definition scraper_exit :: "scraper \<Rightarrow> (nat \<Rightarrow> bool) \<Rightarrow> (nat \<Rightarrow> (string \<times> bool) option) \<Rightarrow> cleanup_call list \<times> (string \<times> bool) option" where
  "scraper_exit sc closable outcome =
     (let first = sc_owns_transport sc \<and> closable (sc_transport sc);
          (calls, raised) = (if first
            then (close_owned_resource (sc_telemetry sc) ''http'' (sc_transport sc) (outcome (sc_transport sc)), outcome (sc_transport sc))
            else ([], None)) in
      case sc_browser_transport sc of
        Some b \<Rightarrow>
          if sc_owns_browser_transport sc \<and> b \<noteq> sc_transport sc \<and> closable b
          then (calls @ close_owned_resource (sc_telemetry sc) ''browser'' b (outcome b),
                case outcome b of None \<Rightarrow> raised | Some e \<Rightarrow> Some e)
          else (calls, raised)
      | None \<Rightarrow> (calls, raised))"

text \<open>\<^verbatim>\<open>_OwnedProxyBrowserTransport.aclose\<close>: the objects that are closed.\<close>

fun owned_close :: "stack \<Rightarrow> stack list" where
  "owned_close (OwnedProxyBrowser d http browser) =
     http # (case browser of Some b \<Rightarrow> if b = http then [] else [b] | None \<Rightarrow> [])"
| "owned_close _ = []"

subsection \<open>The builder\<close>

definition default_fetch_policy :: "rat \<Rightarrow> bool \<Rightarrow> fetch_policy" where
  "default_fetch_policy timeout has_browser = \<lparr>fp_delay = 0, fp_concurrency = 1, fp_robots = RobotsObey, fp_timeout_seconds = timeout,
     fp_browser = (if has_browser then BrowserPolicyAllow else BrowserPolicyNever)\<rparr>"

text \<open>
  \<^verbatim>\<open>build_http_scraper\<close>: the HTTP transport and the proxy factory are checked as their constructors do; the
  arguments that are handed through are those of \<open>given\<close>.  The robots factory is \<^const>\<open>robots_init\<close>, called when a
  connector is opened.
\<close>

definition build_http_scraper :: "scraper \<Rightarrow> string list \<Rightarrow> rat \<Rightarrow> exn + scraper" where
  "build_http_scraper given allowed_origins timeout =
     (let has_browser = (sc_browser_transport given \<noteq> None \<or> sc_proxy_browser_factory given \<noteq> None);
          policy = (case sc_fetch_policy given of Some p \<Rightarrow> p | None \<Rightarrow> default_fetch_policy timeout has_browser) in
      if sc_fetch_policy given = None \<and> timeout \<le> 0 then Inl (ValueError ''Input should be greater than 0'')
      else res_bind (url_policy_init allowed_origins (PFin 60) 256) (\<lambda>_.
        res_bind (hx_init 32 10 (sc_maximum_response_bytes given)) (\<lambda>_.
        res_bind (if sc_proxy_pool given then res_bind (httpx_proxy_factory_init allowed_origins (sc_maximum_response_bytes given)) (\<lambda>_. Inr ()) else Inr ()) (\<lambda>_.
          scraper_init (given\<lparr>sc_fetch_policy := Some policy, sc_proxy_transport_factory := sc_proxy_pool given,
            sc_backoff := default_backoff, sc_owns_transport := True\<rparr>)))))"

subsection \<open>The ways through a stack\<close>

text \<open>
  What a request passes on its way down: the controller with its budget and whether it has a cache, the
  branch a routed transport takes, rate limiters and the dispatch to the browser.  A routed transport sends
  directly only in the modes that have a direct route.
\<close>

datatype hop = HopController "nat option" bool | HopDirect | HopProxied | HopLimiter nat | HopDispatch

fun builder_paths :: "proxy_builder \<Rightarrow> hop list list" where
  "builder_paths RawBuilder = [[]]"
| "builder_paths (BrowserBuilder b with_browser cfg) =
     map (Cons HopDispatch) (builder_paths b @ (if with_browser then [[]] else []))"
| "builder_paths (LimitedBuilder b limiter) = map (Cons (HopLimiter limiter)) (builder_paths b)"

fun stack_paths :: "stack \<Rightarrow> hop list list" where
  "stack_paths (RawTransport t) = [[]]"
| "stack_paths (LeaseTransport l) = [[]]"
| "stack_paths (LeaseBrowser l) = [[]]"
| "stack_paths (BrowserDispatch http browser cfg) =
     map (Cons HopDispatch) (stack_paths http @ (case browser of None \<Rightarrow> [] | Some b \<Rightarrow> stack_paths b))"
| "stack_paths (OwnedProxyBrowser dispatch http browser) = stack_paths dispatch"
| "stack_paths (RateLimited s limiter) = map (Cons (HopLimiter limiter)) (stack_paths s)"
| "stack_paths (RoutedStack direct factory policy) =
     (if pp_mode policy \<in> {ProxyNever, ProxyFallback} then map (Cons HopDirect) (stack_paths direct) else []) @
     map (Cons HopProxied) (builder_paths factory)"
| "stack_paths (MiddlewareStack s cfg budget cache robots limiter) =
     map (\<lambda>p. HopController budget cache # (case limiter of None \<Rightarrow> p | Some l \<Rightarrow> HopLimiter l # p)) (stack_paths s)"

lemma builder_paths_build: "builder_paths b = stack_paths (builder_build b lease)"
  by (induction b) (auto simp: Let_def)

definition path_limiters :: "hop list \<Rightarrow> nat list" where
  "path_limiters p = concat (map (\<lambda>h. case h of HopLimiter l \<Rightarrow> [l] | _ \<Rightarrow> []) p)"

definition path_budgets :: "hop list \<Rightarrow> nat option list" where
  "path_budgets p = concat (map (\<lambda>h. case h of HopController b _ \<Rightarrow> [b] | _ \<Rightarrow> []) p)"

lemma path_simps [simp]:
  "path_limiters [] = []" "path_limiters (HopLimiter l # p) = l # path_limiters p" "path_limiters (HopDispatch # p) = path_limiters p"
  "path_limiters (HopDirect # p) = path_limiters p" "path_limiters (HopProxied # p) = path_limiters p"
  "path_limiters (HopController b c # p) = path_limiters p"
  "path_budgets [] = []" "path_budgets (HopLimiter l # p) = path_budgets p" "path_budgets (HopDispatch # p) = path_budgets p"
  "path_budgets (HopDirect # p) = path_budgets p" "path_budgets (HopProxied # p) = path_budgets p"
  "path_budgets (HopController b c # p) = b # path_budgets p"
  by (simp_all add: path_limiters_def path_budgets_def)

text \<open>The attempt layer of a composition, in the cases of the routing mode and the fetch policy.\<close>

inductive attempt_layer :: "selection \<Rightarrow> stack \<Rightarrow> nat option \<Rightarrow> bool" where
  direct_route: "\<not> route_uses_proxy se \<Longrightarrow> (limiter = None) = (se_fetch_policy se = None) \<Longrightarrow>
    attempt_layer se (BrowserDispatch (RawTransport t) (map_option RawTransport b) cfg) limiter"
| unlimited_proxy: "route_uses_proxy se \<Longrightarrow> se_fetch_policy se = None \<Longrightarrow> se_proxy_policy se = Some policy \<Longrightarrow>
    attempt_layer se (RoutedStack (BrowserDispatch (RawTransport t) (map_option RawTransport b) cfg)
      (BrowserBuilder RawBuilder w cfg') policy) None"
| limited_proxy: "route_uses_proxy se \<Longrightarrow> se_fetch_policy se \<noteq> None \<Longrightarrow> se_proxy_policy se = Some policy \<Longrightarrow> selected_mode se \<noteq> ProxyFallback \<Longrightarrow>
    attempt_layer se (RoutedStack (BrowserDispatch (RawTransport t) (map_option RawTransport b) cfg)
      (LimitedBuilder (BrowserBuilder RawBuilder w cfg') l) policy) None"
| limited_fallback: "se_fetch_policy se \<noteq> None \<Longrightarrow> se_proxy_policy se = Some policy \<Longrightarrow> selected_mode se = ProxyFallback \<Longrightarrow> l \<noteq> l' \<Longrightarrow>
    attempt_layer se (RoutedStack (RateLimited (BrowserDispatch (RawTransport t) (map_option RawTransport b) cfg) l')
      (LimitedBuilder (BrowserBuilder RawBuilder w cfg') l) policy) None"

lemma limiter_layer_cases:
  assumes "limiter_layer se new_limiter d f = Inr (direct, f', limiter)"
  obtains "se_fetch_policy se = None" "direct = d" "f' = f" "limiter = None"
  | l where "se_fetch_policy se \<noteq> None" "\<not> route_uses_proxy se" "direct = d" "f' = f" "limiter = Some l"
  | l where "se_fetch_policy se \<noteq> None" "route_uses_proxy se" "selected_mode se \<noteq> ProxyFallback" "direct = d"
      "f' = map_option (\<lambda>f. LimitedBuilder f l) f" "limiter = None"
  | l l' where "se_fetch_policy se \<noteq> None" "selected_mode se = ProxyFallback" "direct = RateLimited d l'" "l \<noteq> l'"
      "f' = map_option (\<lambda>f. LimitedBuilder f l) f" "limiter = None"
proof (cases "se_fetch_policy se = None")
  case True
  with assms show ?thesis by (intro that(1)) (simp_all add: limiter_layer_def)
next
  case policy: False
  show ?thesis
  proof (cases "route_uses_proxy se")
    case False
    with assms policy obtain l where "direct = d" "f' = f" "limiter = Some l" by (auto simp: limiter_layer_def res_bind_Inr)
    with policy False show ?thesis by (intro that(2))
  next
    case proxied: True
    with assms policy obtain l where l: "f' = map_option (\<lambda>f. LimitedBuilder f l) f" "limiter = None"
      and direct: "(if selected_mode se \<noteq> ProxyFallback then Inr d
        else res_bind (new_limiter 1) (\<lambda>l'. if l' = l
          then Inl (ValueError ''rate_limiter_factory must return independent direct and proxy limiters'')
          else Inr (RateLimited d l'))) = Inr direct"
      by (fastforce simp: limiter_layer_def res_bind_Inr)
    show ?thesis
    proof (cases "selected_mode se = ProxyFallback")
      case True
      with direct obtain l' where "direct = RateLimited d l'" "l \<noteq> l'" by (auto simp: res_bind_Inr split: if_splits)
      with policy True l show ?thesis by (intro that(4))
    next
      case False
      with direct have "direct = d" by simp
      with policy proxied False l show ?thesis by (intro that(3))
    qed
  qed
qed

lemma routed_layer_cases:
  assumes "routed_layer sc se source direct f' = Inr attempt"
  obtains "\<not> route_uses_proxy se" "attempt = direct"
  | f policy where "route_uses_proxy se" "f' = Some f" "se_proxy_policy se = Some policy" "attempt = RoutedStack direct f policy"
  using assms by (auto simp: routed_layer_def res_bind_Inr split: if_splits option.splits bool.splits)

lemma compose_attempt:
  assumes "dispatch_layer sc se ctx = Inr d" "proxy_browser_layer sc se source ctx = Inr f"
    and "limiter_layer se new_limiter d f = Inr (direct, f', limiter)" "routed_layer sc se source direct f' = Inr attempt"
  shows "attempt_layer se attempt limiter"
proof -
  from assms(1) obtain t b cfg where d: "d = BrowserDispatch (RawTransport t) (map_option RawTransport b) cfg"
    by (auto simp: dispatch_layer_def res_bind_Inr)
  have f: "\<exists>w cfg'. g = BrowserBuilder RawBuilder w cfg'" if "route_uses_proxy se" "f = Some g" for g
    using assms(2) that by (auto simp: proxy_browser_layer_def res_bind_Inr split: if_splits)
  from assms(4) show ?thesis
  proof (cases rule: routed_layer_cases)
    case 1
    from assms(3) show ?thesis
    proof (cases rule: limiter_layer_cases)
      case (4 l l')
      with 1 show ?thesis by (simp add: route_uses_proxy_def)
    qed (use 1 d in \<open>auto intro!: direct_route\<close>)
  next
    case (2 g policy)
    from assms(3) show ?thesis
    proof (cases rule: limiter_layer_cases)
      case 1
      with 2 d f show ?thesis by (auto intro!: unlimited_proxy)
    next
      case (3 l)
      with 2 d f show ?thesis by (auto intro!: limited_proxy)
    next
      case (4 l l')
      with 2 d f show ?thesis by (auto intro!: limited_fallback)
    qed (use 2 in simp)
  qed
qed

text \<open>What every way through an attempt layer has, and that there is one.\<close>

definition limited_once :: "selection \<Rightarrow> nat option \<Rightarrow> hop list \<Rightarrow> bool" where
  "limited_once se limiter p \<longleftrightarrow> count_list p HopDispatch = 1 \<and> path_budgets p = [] \<and>
     length (path_limiters p) = (if se_fetch_policy se \<noteq> None \<and> limiter = None then 1 else 0)"

lemma attempt_layer_paths:
  assumes "attempt_layer se s limiter"
  shows "stack_paths s \<noteq> [] \<and> list_all (limited_once se limiter) (stack_paths s) \<and>
    (\<forall>p \<in> set (stack_paths s). \<forall>q \<in> set (stack_paths s). HopDirect \<in> set p \<and> HopProxied \<in> set q \<longrightarrow>
      set (path_limiters p) \<inter> set (path_limiters q) = {})"
  using assms
proof (cases rule: attempt_layer.cases)
  case (direct_route t b cfg)
  then show ?thesis by (cases b) (auto simp: limited_once_def)
next
  case (unlimited_proxy policy t b cfg w cfg')
  then show ?thesis by (cases b) (auto simp: limited_once_def)
next
  case (limited_proxy policy t b cfg w cfg' l)
  then have "pp_mode policy \<notin> {ProxyNever, ProxyFallback}" by (simp add: selected_mode_def route_uses_proxy_def)
  with limited_proxy show ?thesis by (auto simp: limited_once_def)
next
  case (limited_fallback policy l l' t b cfg w cfg')
  then show ?thesis by (cases b) (auto simp: limited_once_def)
qed

lemma stack_paths_controller:
  assumes "list_all (limited_once se limiter) (stack_paths s)" "(limiter = None) \<or> se_fetch_policy se \<noteq> None"
    and "p \<in> set (stack_paths (MiddlewareStack s cfg budget cache robots limiter))"
  shows "count_list p HopDispatch = 1" "length (path_limiters p) = (if se_fetch_policy se = None then 0 else 1)" "path_budgets p = [budget]"
  using assms by (auto simp: limited_once_def list_all_iff split: option.splits)

lemma attempt_layer_limiter: "attempt_layer se s limiter \<Longrightarrow> limiter = None \<or> se_fetch_policy se \<noteq> None"
  by (cases rule: attempt_layer.cases) auto

lemma controller_layer_cases:
  assumes "controller_layer sc se source s robots limiter = Inr whole"
  obtains "se_budget se = None" "robots = None" "limiter = None" "whole = s"
  | cfg cache where "whole = MiddlewareStack s cfg (se_budget se) cache robots limiter"
  using assms by (auto simp: controller_layer_def res_bind_Inr split: if_splits)

lemma compose_cases:
  assumes "compose_transport sc se source ctx new_limiter new_robots = Inr (whole, routed)"
  obtains s limiter robots where "attempt_layer se s limiter" "robots_layer sc se source new_robots s limiter = Inr robots"
    "controller_layer sc se source s robots limiter = Inr whole" "routed = route_uses_proxy se"
proof -
  from assms obtain d f direct f' limiter s robots where "dispatch_layer sc se ctx = Inr d"
    "proxy_browser_layer sc se source ctx = Inr f" "limiter_layer se new_limiter d f = Inr (direct, f', limiter)"
    "routed_layer sc se source direct f' = Inr s" and rest: "robots_layer sc se source new_robots s limiter = Inr robots"
    "controller_layer sc se source s robots limiter = Inr whole" "routed = route_uses_proxy se"
    by (auto simp: compose_transport_def res_bind_Inr split: prod.splits)
  then have "attempt_layer se s limiter" by (intro compose_attempt)
  from that [OF this rest] show ?thesis .
qed

lemma robots_layer_obey:
  assumes "robots_layer sc se source new_robots s limiter = Inr robots" "se_fetch_policy se = Some policy" "fp_robots policy = RobotsObey"
  obtains cfg where "robots = Some (MiddlewareStack s cfg (se_budget se) False None limiter)"
  using assms by (auto simp: robots_layer_def res_bind_Inr Let_def)

lemma direct_proxied_controller:
  assumes "\<forall>p \<in> set (stack_paths s). \<forall>q \<in> set (stack_paths s). HopDirect \<in> set p \<and> HopProxied \<in> set q \<longrightarrow>
      set (path_limiters p) \<inter> set (path_limiters q) = {}"
    and "attempt_layer se s limiter"
    and "p \<in> set (stack_paths (MiddlewareStack s cfg budget cache robots limiter))"
    and "q \<in> set (stack_paths (MiddlewareStack s cfg budget cache robots limiter))"
    and "HopDirect \<in> set p \<and> HopProxied \<in> set q"
  shows "set (path_limiters p) \<inter> set (path_limiters q) = {}"
proof (cases limiter)
  case None
  with assms(3-5) obtain p' q' where "p' \<in> set (stack_paths s)" "q' \<in> set (stack_paths s)" "HopDirect \<in> set p' \<and> HopProxied \<in> set q'"
    "path_limiters p = path_limiters p'" "path_limiters q = path_limiters q'" by auto
  with assms(1) show ?thesis by metis
next
  case (Some l)
  with assms(2) have "HopDirect \<notin> set r" if "r \<in> set (stack_paths s)" for r
    using that by (cases rule: attempt_layer.cases) (auto split: option.splits)
  with Some assms(3,5) show ?thesis by auto
qed

subsection \<open>Owned resources\<close>

text \<open>
  Leaving the scraper closes the transport, if it is owned, and then the browser, if it is owned and another
  object, each exactly once and whatever the first close raises.
\<close>

lemma scraper_exit_closes:
  "concat (map (\<lambda>c. case c of CleanupClose t \<Rightarrow> [t] | _ \<Rightarrow> []) (fst (scraper_exit sc closable outcome))) =
     (if sc_owns_transport sc \<and> closable (sc_transport sc) then [sc_transport sc] else []) @
     (case sc_browser_transport sc of None \<Rightarrow> []
      | Some b \<Rightarrow> if sc_owns_browser_transport sc \<and> b \<noteq> sc_transport sc \<and> closable b then [b] else [])"
  by (auto simp: scraper_exit_def close_owned_resource_def Let_def split: option.splits)

subsection \<open>The pages of a collection\<close>

definition page_safe :: "commerce_snapshot entity_page \<Rightarrow> bool" where
  "page_safe page \<longleftrightarrow>
     list_all (\<lambda>s. extensions_ok (cs_platform_extensions s) \<and> list_all (\<lambda>v. extensions_ok (va_platform_extensions v)) (cs_variants s)) (pg_items page) \<and>
     list_all (\<lambda>d. length (dg_message d) \<le> 2048 \<and> opt_ok (\<lambda>u. length u \<le> 2048) (dg_url d) \<and> extensions_ok (dg_metadata d)) (pg_diagnostics page)"

lemma res_all_Inr_ok:
  assumes "res_all f xs = Inr ys" "\<And>x y. f x = Inr y \<Longrightarrow> P y"
  shows "list_all P ys"
  using assms(1) by (induction xs arbitrary: ys) (auto simp: res_bind_Inr assms(2))

lemma runtime_page_safe:
  assumes "runtime_page page = Inr page'"
  shows "page_safe page'"
proof -
  from assms obtain ds where ds: "res_all sanitize_diagnostic (pg_diagnostics page) = Inr ds"
    and page': "page' = page\<lparr>pg_items := map sanitize_commerce_snapshot (pg_items page), pg_diagnostics := ds\<rparr>"
    by (auto simp: runtime_page_def res_bind_Inr)
  have "list_all (\<lambda>d. length (dg_message d) \<le> 2048 \<and> opt_ok (\<lambda>u. length u \<le> 2048) (dg_url d) \<and> extensions_ok (dg_metadata d)) ds"
    by (rule res_all_Inr_ok [OF ds]) (use diagnostic_safe in \<open>auto simp: sanitize_diagnostic_def\<close>)
  then show ?thesis using snapshot_sanitized by (simp add: page' page_safe_def list_all_iff)
qed

lemma deliver_pages_spec:
  assumes "deliver_pages ctx pages ending = (events, out, result)"
  shows "events = concat (map (page_events ctx) out) \<and> length out \<le> length pages \<and>
    map Inr out = map runtime_page (take (length out) pages) \<and>
    (result = ending \<and> length out = length pages \<or>
     result = StreamRaised ''ValidationError'' \<and> (\<exists>e. runtime_page (pages ! length out) = Inl e) \<and> length out < length pages)"
  using assms
proof (induction pages arbitrary: events out result)
  case (Cons page pages)
  show ?case
  proof (cases "runtime_page page")
    case (Inr sanitized)
    obtain events' out' result' where rest: "deliver_pages ctx pages ending = (events', out', result')" by (metis prod_cases3)
    with Cons.prems Inr have "events = page_events ctx sanitized @ events'" "out = sanitized # out'" "result = result'" by auto
    with Cons.IH [OF rest] Inr show ?thesis by auto
  qed (use Cons.prems in auto)
qed simp

lemma pages_safe: "map Inr out = map runtime_page pages \<Longrightarrow> list_all page_safe out"
proof (induction out arbitrary: pages)
  case (Cons page out)
  then obtain p ps where "pages = p # ps" by (cases pages) auto
  with Cons show ?case by (auto intro: runtime_page_safe [OF sym])
qed simp

lemma run_connector_cases:
  assumes "run_connector sc rg se source ctx whole body = (inner, made)"
  obtains e where "inner = Inl e" "made = [OcBuild whole]"
  | c where "inner = body c" "check_connector sc se c = Inr ()" "made = [OcBuild whole, OcBody c]"
  using assms by (auto simp: run_connector_def split: sum.splits)

lemma open_connector_cases:
  assumes "open_connector sc rg overrides source collection_id fresh_id new_limiter new_robots body close = (result, calls)"
  obtains (failed) e where "result = Inl e" "calls = []"
  | (opened) ctx whole routed inner made where
      "compose_transport sc (select sc overrides) source ctx new_limiter new_robots = Inr (whole, routed)"
      "run_connector sc rg (select sc overrides) source ctx whole body = (inner, made)"
      "result = (if routed then (case close of Inl e \<Rightarrow> Inl e | Inr _ \<Rightarrow> inner) else inner)"
      "calls = made @ (if routed then [OcClose] else [])"
proof (cases "collection_context sc rg source collection_id fresh_id")
  case (Inl e)
  with assms failed show ?thesis by (auto simp: open_connector_def)
next
  case ctx: (Inr ctx)
  show ?thesis
  proof (cases "compose_transport sc (select sc overrides) source ctx new_limiter new_robots")
    case (Inl e)
    with assms ctx failed show ?thesis by (auto simp: open_connector_def)
  next
    case (Inr wr)
    obtain whole routed where wr: "wr = (whole, routed)" by fastforce
    obtain inner made where run: "run_connector sc rg (select sc overrides) source ctx whole body = (inner, made)" by fastforce
    from assms ctx Inr wr run
    have "result = (if routed then (case close of Inl e \<Rightarrow> Inl e | Inr _ \<Rightarrow> inner) else inner)" "calls = made @ (if routed then [OcClose] else [])"
      by (auto simp: open_connector_def split: if_splits)
    with Inr wr run opened show ?thesis by blast
  qed
qed

lemma check_connector_browser:
  "check_connector sc se c = Inr () \<Longrightarrow> se_fetch_policy se = Some policy \<Longrightarrow> fp_browser policy = BrowserPolicyNever \<Longrightarrow>
   cc_browser (cn_capabilities c) \<noteq> RequirementRequired"
  by (auto simp: check_connector_def)

subsection \<open>Properties\<close>

text \<open>
  C35. The stack that is composed for a collection.  Every way a request can take through it passes the
  dispatch with its body limit exactly once, exactly one rate limiter if there is a fetch policy and none
  otherwise, and, if there is a budget, exactly one controller, which has that budget; the direct and
  the proxied ways of a routed stack never share a limiter; a fetch policy that obeys robots gives a
  controller whose checker fetches over a controller without cache and robots on the same attempt layer with
  the same limiter and budget; and a routed stack is there exactly when the routing mode uses the proxy.
\<close>

theorem runtime_composition:
  assumes "compose_transport sc se source ctx new_limiter new_robots = Inr (whole, routed)"
  shows "stack_paths whole \<noteq> [] \<and> routed = route_uses_proxy se \<and>
    (\<forall>p \<in> set (stack_paths whole). count_list p HopDispatch = 1 \<and>
      length (path_limiters p) = (if se_fetch_policy se = None then 0 else 1) \<and>
      (se_budget se \<noteq> None \<longrightarrow> path_budgets p = [se_budget se]) \<and> length (path_budgets p) \<le> 1) \<and>
    (\<forall>p \<in> set (stack_paths whole). \<forall>q \<in> set (stack_paths whole). HopDirect \<in> set p \<and> HopProxied \<in> set q \<longrightarrow>
      set (path_limiters p) \<inter> set (path_limiters q) = {}) \<and>
    (\<forall>policy. se_fetch_policy se = Some policy \<and> fp_robots policy = RobotsObey \<longrightarrow>
      (\<exists>s cfg cfg' cache limiter. whole = MiddlewareStack s cfg (se_budget se) cache
         (Some (MiddlewareStack s cfg' (se_budget se) False None limiter)) limiter))"
proof -
  from assms obtain s limiter robots where s: "attempt_layer se s limiter"
    and robots: "robots_layer sc se source new_robots s limiter = Inr robots"
    and whole: "controller_layer sc se source s robots limiter = Inr whole" and routed: "routed = route_uses_proxy se"
    by (rule compose_cases)
  note paths = attempt_layer_paths [OF s] and lim = attempt_layer_limiter [OF s]
  from whole show ?thesis
  proof (cases rule: controller_layer_cases)
    case 1
    have "\<not> (se_fetch_policy se = Some policy \<and> fp_robots policy = RobotsObey)" for policy
      using robots_layer_obey [OF robots] 1 by blast
    with 1 paths routed show ?thesis by (auto simp: list_all_iff limited_once_def)
  next
    case (2 cfg cache)
    have "\<exists>cfg'. robots = Some (MiddlewareStack s cfg' (se_budget se) False None limiter)"
      if "se_fetch_policy se = Some policy \<and> fp_robots policy = RobotsObey" for policy
      using robots_layer_obey [OF robots] that by blast
    moreover have "stack_paths whole \<noteq> []" using paths 2 by simp
    moreover have "set (path_limiters p) \<inter> set (path_limiters q) = {}"
      if "p \<in> set (stack_paths whole)" "q \<in> set (stack_paths whole)" "HopDirect \<in> set p \<and> HopProxied \<in> set q" for p q
      using direct_proxied_controller [OF _ s] paths that 2 by blast
    moreover have "count_list p HopDispatch = 1 \<and> length (path_limiters p) = (if se_fetch_policy se = None then 0 else 1) \<and>
        path_budgets p = [se_budget se]" if "p \<in> set (stack_paths whole)" for p
      using stack_paths_controller [OF paths [THEN conjunct2, THEN conjunct1] lim that [unfolded 2]] by blast
    ultimately show ?thesis using routed 2 by fastforce
  qed
qed

text \<open>
  C36. Opening a connector.  If the transport cannot be composed, nothing is built or closed and the error is
  raised.  Otherwise the connector is built once over the composed stack, the caller's block runs at most
  once and only with a connector that the browser policy permits, and a routed stack is closed exactly once,
  last, whether building, checking or the block fails; without a failing close the outcome of the block is the
  outcome of the whole.
\<close>

theorem open_connector_scope:
  assumes "open_connector sc rg overrides source collection_id fresh_id new_limiter new_robots body close = (result, calls)"
  shows "calls = [] \<and> (\<exists>e. result = Inl e) \<or>
    (\<exists>ctx whole routed. compose_transport sc (select sc overrides) source ctx new_limiter new_robots = Inr (whole, routed) \<and>
      (\<exists>made. calls = OcBuild whole # made @ (if routed then [OcClose] else []) \<and>
        (made = [] \<and> (\<exists>e. result = Inl e) \<or>
         (\<exists>c. made = [OcBody c] \<and> check_connector sc (select sc overrides) c = Inr () \<and>
           (\<forall>policy. se_fetch_policy (select sc overrides) = Some policy \<and> fp_browser policy = BrowserPolicyNever \<longrightarrow>
             cc_browser (cn_capabilities c) \<noteq> RequirementRequired) \<and>
           (close = Inr () \<or> \<not> routed \<longrightarrow> result = body c) \<and> (routed \<and> close \<noteq> Inr () \<longrightarrow> (\<exists>e. result = Inl e))))))"
  using assms
proof (cases rule: open_connector_cases)
  case (opened ctx whole routed inner made)
  from opened(2) show ?thesis
  proof (cases rule: run_connector_cases)
    case (1 e)
    have "\<exists>e. result = Inl e" using opened(3) 1 by (auto split: sum.splits)
    then show ?thesis unfolding opened(4) 1(2) using opened(1) by (intro disjI2) fastforce
  next
    case (2 c)
    have "close = Inr () \<or> \<not> routed \<longrightarrow> result = body c" "routed \<and> close \<noteq> Inr () \<longrightarrow> (\<exists>e. result = Inl e)"
      using opened(3) 2(1) by (auto split: sum.splits)
    moreover have "calls = OcBuild whole # [OcBody c] @ (if routed then [OcClose] else [])" using opened(4) 2(3) by simp
    ultimately show ?thesis using opened(1) 2(2) check_connector_browser [OF 2(2)] by blast
  qed
qed simp

text \<open>
  C37. The life cycle of a collection.  With telemetry it starts with one started event and ends with exactly
  one final event, completed if and only if the pages were exhausted and interrupted with the type of the
  exception otherwise; in between come the events of the pages in their order.  The pages that are handed out
  are a prefix of the pages of the connector, each one sanitized: all extensions and diagnostics are bounded
  and free of credentials.  A deadline without a time zone ends the collection before the first page.
\<close>

theorem collection_lifecycle:
  assumes "lifecycle_collect telemetry ctx deadline pages ending = (events, out, result)"
  shows "(telemetry \<longrightarrow> (\<exists>started final. events = started # concat (map (page_events ctx) out) @ [final] \<and>
        fst started = ''collection.started'' \<and> fst final = (if result = StreamDone then ''collection.completed'' else ''collection.interrupted'') \<and>
        (\<forall>t. result = StreamRaised t \<longrightarrow> map_of (snd final) ''error_type'' = Some (JStr t)))) \<and>
    (\<not> telemetry \<longrightarrow> events = []) \<and>
    map Inr out = map runtime_page (take (length out) pages) \<and> list_all page_safe out \<and>
    (result = StreamDone \<longrightarrow> ending = StreamDone \<and> length out = length pages) \<and>
    (deadline = Some False \<longrightarrow> out = [] \<and> result = StreamRaised ''ValueError'')"
proof -
  obtain events' out' result' where d: "deliver_pages ctx pages ending = (events', out', result')" by (metis prod_cases3)
  note spec = deliver_pages_spec [OF d]
  show ?thesis
  proof (cases "deadline = Some False")
    case True
    with assms show ?thesis by (auto simp: lifecycle_collect_def final_event_def Let_def od_merge_def od_simps)
  next
    case False
    with assms d have out: "out = out'" "result = result'" "events = (if telemetry
        then (''collection.started'', od_merge ctx [(''level'', JStr ''info'')]) # events' @ [final_event ctx result'] else [])"
      by (auto simp: lifecycle_collect_def final_event_def Let_def)
    have safe: "list_all page_safe out" using spec out(1) by (intro pages_safe) auto
    show ?thesis using spec out safe False by (auto simp: final_event_def od_merge_def od_simps split: stream_end.splits)
  qed
qed

subsection \<open>Witnesses\<close>

definition sample_proxy_policy :: proxy_policy_config where
  "sample_proxy_policy = \<lparr>pp_mode = ProxyFallback, pp_country = None, pp_provider_preferences = [], pp_maximum_requests = None,
     pp_maximum_bytes = None\<rparr>"

definition sample_scraper :: scraper where
  "sample_scraper = \<lparr>sc_transport = 0, sc_proxy_pool = True, sc_proxy_policy = sample_proxy_policy, sc_proxy_transport_factory = True,
     sc_proxy_browser_factory = None, sc_require_authorization = False, sc_budget = Some 7, sc_telemetry = False,
     sc_fetch_policy = Some (default_fetch_policy 30 False), sc_cache = True, sc_stale_on_error = False, sc_retries = 2,
     sc_backoff = default_backoff, sc_owns_transport = True, sc_browser_transport = None, sc_owns_browser_transport = False,
     sc_maximum_response_bytes = 10\<rparr>"

definition no_overrides :: selection where
  "no_overrides = \<lparr>se_fetch_policy = None, se_proxy_policy = None, se_budget = None, se_browser_transport = None\<rparr>"

definition sample_source :: source_definition where
  "sample_source = \<lparr>sd_id = ''s'', sd_label = ''S'', sd_base_url = ''http://shop.x'', sd_connector = ''wix'', sd_connector_options = []\<rparr>"

lemma sample_urls: "\<not> isl (urlsplit ''http://shop.x'') \<and> \<not> isl (routed_proxy_request sample_proxy_policy ''s'' ''http://shop.x'')"
  by code_simp

lemma sample_composition:
  "\<exists>whole. compose_transport sample_scraper (select sample_scraper no_overrides) sample_source [] Inr (\<lambda>_. Inr ()) = Inr (whole, True)"
proof -
  obtain u r where u: "urlsplit ''http://shop.x'' = Inr u" and r: "routed_proxy_request sample_proxy_policy ''s'' ''http://shop.x'' = Inr r"
    using sample_urls by (auto simp: isl_def) (metis sum.exhaust_sel)+
  have policy: "pp_mode sample_proxy_policy = ProxyFallback" by (simp add: sample_proxy_policy_def)
  show ?thesis
    by (simp add: compose_transport_def check_subrequest_authorization_def dispatch_layer_def proxy_browser_layer_def limiter_layer_def
        routed_layer_def robots_layer_def controller_layer_def controller_config_def bd_init_def mt_init_def res_bind_def Let_def
        select_def sample_scraper_def no_overrides_def sample_source_def route_uses_proxy_def selected_mode_def selected_browser_policy_def
        default_fetch_policy_def u r policy)
qed

theorem runtime_composition_witness:
  "\<exists>whole. compose_transport sample_scraper (select sample_scraper no_overrides) sample_source [] Inr (\<lambda>_. Inr ()) = Inr (whole, True) \<and>
     (\<exists>p. p \<in> set (stack_paths whole) \<and> length (path_limiters p) = 1 \<and> path_budgets p = [Some 7])"
proof -
  obtain whole where w: "compose_transport sample_scraper (select sample_scraper no_overrides) sample_source [] Inr (\<lambda>_. Inr ()) = Inr (whole, True)"
    using sample_composition by blast
  have se: "se_fetch_policy (select sample_scraper no_overrides) \<noteq> None" "se_budget (select sample_scraper no_overrides) = Some 7"
    by (simp_all add: select_def sample_scraper_def no_overrides_def)
  from runtime_composition [OF w] se have "stack_paths whole \<noteq> []"
    "\<forall>p \<in> set (stack_paths whole). length (path_limiters p) = 1 \<and> path_budgets p = [Some 7]" by auto
  with w show ?thesis by (cases "stack_paths whole") auto
qed

theorem open_connector_scope_witness:
  "\<exists>e calls. open_connector sample_scraper (registry_init :: (unit, stack, connector_context) registry) no_overrides sample_source None ''i'' Inr
      (\<lambda>_. Inr ()) (\<lambda>c. Inr ()) (Inr ()) = (Inl e, calls) \<and> last calls = OcClose"
proof -
  let ?rg = "registry_init :: (unit, stack, connector_context) registry"
  obtain whole where w: "compose_transport sample_scraper (select sample_scraper no_overrides) sample_source [] Inr (\<lambda>_. Inr ()) = Inr (whole, True)"
    using sample_composition by blast
  have ctx: "collection_context sample_scraper ?rg sample_source None ''i'' = Inr []" by (simp add: collection_context_def sample_scraper_def)
  have "\<exists>e. rg_factory (sd_connector sample_source) ?rg = Inl e" by (simp add: rg_factory_def registry_init_def)
  then obtain e where "run_connector sample_scraper ?rg (select sample_scraper no_overrides) sample_source [] whole (\<lambda>c. Inr ()) = (Inl e, [OcBuild whole])"
    by (auto simp: run_connector_def rg_build_def res_bind_def)
  with w ctx have oc: "open_connector sample_scraper ?rg no_overrides sample_source None ''i'' Inr (\<lambda>_. Inr ()) (\<lambda>c. Inr ()) (Inr ()) =
      (Inl e, [OcBuild whole, OcClose])"
    by (simp add: open_connector_def)
  from open_connector_scope [OF oc] oc show ?thesis by auto
qed

theorem collection_lifecycle_witness:
  "\<exists>events. lifecycle_collect True [] (Some True) [] (StreamRaised ''TimeoutError'') = (events, [], StreamRaised ''TimeoutError'') \<and>
     fst (last events) = ''collection.interrupted''"
proof -
  obtain events where e: "lifecycle_collect True [] (Some True) [] (StreamRaised ''TimeoutError'') = (events, [], StreamRaised ''TimeoutError'')"
    by (simp add: lifecycle_collect_def)
  from collection_lifecycle [OF e] have "fst (last events) = ''collection.interrupted''" by auto
  with e show ?thesis by blast
qed

end
