(* ===== verification/Shopify_Product.thy ===== *)
theory Shopify_Product
  imports Collection_Models Json_Text Regex
begin

section \<open>Shopify products\<close>

text \<open>
  \<^verbatim>\<open>ShopifyConnector._normalize\<close> and \<^verbatim>\<open>_variant\<close> of \<^verbatim>\<open>connectors/shopify.py\<close>: a product of the feed as a snapshot.
  The table of HTML entities and the reading of an instant by the models are parameters.
\<close>

subsection \<open>Python on JSON values\<close>

text \<open>\<^verbatim>\<open>value.get(key)\<close>, truth, \<^verbatim>\<open>str\<close> and iteration of a decoded value.\<close>

definition json_get :: "string \<Rightarrow> (string, json) odict \<Rightarrow> json" where
  "json_get k d = (case map_of d k of None \<Rightarrow> JNull | Some v \<Rightarrow> v)"

fun json_true :: "json \<Rightarrow> bool" where
  "json_true JNull = False"
| "json_true (JBool b) = b"
| "json_true (JInt i) = (i \<noteq> 0)"
| "json_true (JFloat r) = (r \<noteq> ''0.0'' \<and> r \<noteq> ''-0.0'')"
| "json_true (JStr s) = (s \<noteq> [])"
| "json_true (JList xs) = (xs \<noteq> [])"
| "json_true (JDict kvs) = (kvs \<noteq> [])"

definition repr_char :: "char \<Rightarrow> char \<Rightarrow> string" where
  "repr_char q c =
     (if c = q \<or> c = CHR 0x5C then [CHR 0x5C, c]
      else if code_of c = 9 then [CHR 0x5C, CHR ''t''] else if code_of c = 10 then [CHR 0x5C, CHR ''n'']
      else if code_of c = 13 then [CHR 0x5C, CHR ''r'']
      else if code_of c < 32 \<or> (127 \<le> code_of c \<and> code_of c \<le> 160) \<or> code_of c = 173
      then [CHR 0x5C, CHR ''x'', hex_lower (code_of c div 16), hex_lower (code_of c mod 16)]
      else [c])"

definition repr_str :: "string \<Rightarrow> string" where
  "repr_str s = (let q = (if CHR 0x27 \<in> set s \<and> CHR 0x22 \<notin> set s then CHR 0x22 else CHR 0x27) in
     q # concat (map (repr_char q) s) @ [q])"

fun py_repr :: "json \<Rightarrow> string" where
  "py_repr JNull = ''None''"
| "py_repr (JBool b) = (if b then ''True'' else ''False'')"
| "py_repr (JInt i) = int_str i"
| "py_repr (JFloat r) = r"
| "py_repr (JStr s) = repr_str s"
| "py_repr (JList xs) = ''['' @ py_join '', '' (map py_repr xs) @ '']''"
| "py_repr (JDict kvs) = ''{'' @ py_join '', '' (map (\<lambda>(k, v). repr_str k @ '': '' @ py_repr v) kvs) @ ''}''"

fun py_str :: "json \<Rightarrow> string" where
  "py_str (JStr s) = s"
| "py_str v = py_repr v"

text \<open>\<^verbatim>\<open>str(value or "")\<close>, and the same or \<^verbatim>\<open>None\<close>.\<close>

definition str_or_empty :: "json \<Rightarrow> string" where
  "str_or_empty v = (if json_true v then py_str v else [])"

definition str_or_none :: "json \<Rightarrow> string option" where
  "str_or_none v = (let s = str_or_empty v in if s = [] then None else Some s)"

text \<open>\<^verbatim>\<open>for item in value or []\<close>.\<close>

definition json_items :: "json \<Rightarrow> exn + json list" where
  "json_items v =
     (if \<not> json_true v then Inr []
      else (case v of JList xs \<Rightarrow> Inr xs | JDict kvs \<Rightarrow> Inr (map (JStr \<circ> fst) kvs) | JStr s \<Rightarrow> Inr (map (\<lambda>c. JStr [c]) s)
        | _ \<Rightarrow> Inl (PyTypeError ''object is not iterable'')))"

definition dict_items :: "json list \<Rightarrow> (string, json) odict list" where
  "dict_items vs = concat (map (\<lambda>v. case v of JDict d \<Rightarrow> [d] | _ \<Rightarrow> []) vs)"

subsection \<open>Texts and amounts\<close>

text \<open>\<^verbatim>\<open>re.sub(r"<[^>]+>", " ", value)\<close>.\<close>

function strip_tags :: "string \<Rightarrow> string" where
  "strip_tags [] = []"
| "strip_tags (c # s) =
     (if c = CHR ''<'' \<and> takeWhile (\<lambda>x. x \<noteq> CHR ''>'') s \<noteq> [] \<and> dropWhile (\<lambda>x. x \<noteq> CHR ''>'') s \<noteq> []
      then CHR '' '' # strip_tags (tl (dropWhile (\<lambda>x. x \<noteq> CHR ''>'') s))
      else c # strip_tags s)"
  by pat_completeness auto
termination
  by (relation "measure length") (auto simp: less_Suc_eq_le intro: le_trans [OF diff_le_self length_dropWhile_le])

text \<open>\<^verbatim>\<open>" ".join(value.split())\<close>.\<close>

function words :: "string \<Rightarrow> string list" where
  "words s = (let t = dropWhile is_space_char s in
     if t = [] then [] else takeWhile (\<lambda>c. \<not> is_space_char c) t # words (dropWhile (\<lambda>c. \<not> is_space_char c) t))"
  by pat_completeness auto
termination
proof (relation "measure length")
  fix s t :: string
  assume t: "t = dropWhile is_space_char s" "t \<noteq> []"
  then have "\<not> is_space_char (hd t)" by (metis hd_dropWhile)
  with t(2) have "length (dropWhile (\<lambda>c. \<not> is_space_char c) t) < length t"
    by (cases t) (auto simp: less_Suc_eq_le length_dropWhile_le)
  also have "length t \<le> length s" unfolding t(1) by (rule length_dropWhile_le)
  finally show "(dropWhile (\<lambda>c. \<not> is_space_char c) t, s) \<in> measure length" by simp
qed simp

definition clean :: "(string \<Rightarrow> string) \<Rightarrow> string \<Rightarrow> string" where
  "clean unescape value = py_join '' '' (words (unescape (strip_tags value)))"

text \<open>
  \<^verbatim>\<open>decimal_amount\<close>: \<^verbatim>\<open>Decimal(str(value))\<close> with a sign, digits with a point, and an exponent; texts that are no
  finite number, booleans and negative amounts give nothing.
\<close>

definition signed_digits :: "string \<Rightarrow> (bool \<times> string) option" where
  "signed_digits s =
     (case s of [] \<Rightarrow> None
      | c # t \<Rightarrow> let (negative, u) = (if c = CHR ''-'' then (True, t) else if c = CHR ''+'' then (False, t) else (False, s)) in
          if u \<noteq> [] \<and> list_all is_digit_char u then Some (negative, u) else None)"

definition decimal_exponent :: "string \<Rightarrow> int option" where
  "decimal_exponent s =
     (case s of [] \<Rightarrow> Some 0
      | c # t \<Rightarrow> if lower_char c \<noteq> CHR ''e'' then None
          else map_option (\<lambda>(negative, u). (if negative then -1 else 1) * int (digits_value u)) (signed_digits t))"

definition ten_power :: "int \<Rightarrow> rat" where
  "ten_power e = (if 0 \<le> e then 10 ^ nat e else 1 / 10 ^ nat (- e))"

definition decimal_value :: "string \<Rightarrow> rat option" where
  "decimal_value text =
     (let s = filter (\<lambda>c. c \<noteq> CHR ''_'') (py_strip text);
          negative = (s \<noteq> [] \<and> hd s = CHR ''-'');
          t = (if s \<noteq> [] \<and> hd s \<in> {CHR ''-'', CHR ''+''} then tl s else s);
          whole = takeWhile is_digit_char t;
          u = dropWhile is_digit_char t;
          fraction = (if u \<noteq> [] \<and> hd u = CHR ''.'' then takeWhile is_digit_char (tl u) else []);
          v = (if u \<noteq> [] \<and> hd u = CHR ''.'' then dropWhile is_digit_char (tl u) else u) in
      if whole = [] \<and> fraction = [] then None
      else map_option (\<lambda>e. (if negative then -1 else 1) * of_nat (digits_value (whole @ fraction)) * ten_power (e - int (length fraction)))
        (decimal_exponent v))"

definition decimal_amount :: "json \<Rightarrow> rat option" where
  "decimal_amount value = (case value of JBool _ \<Rightarrow> None | JNull \<Rightarrow> None
     | v \<Rightarrow> (case decimal_value (py_str v) of Some a \<Rightarrow> if 0 \<le> a then Some a else None | None \<Rightarrow> None))"

subsection \<open>Variants\<close>

text \<open>\<^verbatim>\<open>self.options\<close> as far as a product needs it is the VAT status.\<close>

definition variant_availability :: "(string, json) odict \<Rightarrow> availability" where
  "variant_availability raw = (case json_get ''available'' raw of JBool True \<Rightarrow> InStock | JBool False \<Rightarrow> OutOfStock
     | _ \<Rightarrow> UnknownAvailability)"

definition shopify_offer :: "vat_status option \<Rightarrow> availability \<Rightarrow> evidence \<Rightarrow> int \<Rightarrow> string \<Rightarrow> rat \<Rightarrow> offer_role \<Rightarrow> commerce_offer" where
  "shopify_offer vat availability ev observed cur a role =
     \<lparr>of_price = \<lparr>amount = PFin a, currency = cur\<rparr>, of_observed_at = observed, of_evidence = [ev], of_role = role,
      of_vat_status = (case vat of None \<Rightarrow> VatUnknown | Some v \<Rightarrow> v), of_vat_rate = None, of_minimum_quantity = None, of_unit = None,
      of_pack_size = None, of_valid_from = None, of_valid_until = None, of_seller_id = None, of_seller_name = None,
      of_availability = Some availability, of_availability_evidence = [ev]\<rparr>"

definition shopify_offers ::
  "vat_status option \<Rightarrow> availability \<Rightarrow> evidence \<Rightarrow> int \<Rightarrow> string option \<Rightarrow> (string, json) odict \<Rightarrow> commerce_offer list" where
  "shopify_offers vat availability ev observed cur raw =
     (case (decimal_amount (json_get ''price'' raw), cur) of
        (Some a, Some c) \<Rightarrow> (case decimal_amount (json_get ''compare_at_price'' raw) of
            Some b \<Rightarrow> if a < b then [shopify_offer vat availability ev observed c a SaleOffer, shopify_offer vat availability ev observed c b RegularOffer]
              else [shopify_offer vat availability ev observed c a RegularOffer]
          | None \<Rightarrow> [shopify_offer vat availability ev observed c a RegularOffer])
      | _ \<Rightarrow> [])"

text \<open>A quantity is exact only when Shopify manages the stock and refuses to sell beyond it.\<close>

definition shopify_stock :: "availability \<Rightarrow> evidence \<Rightarrow> int \<Rightarrow> (string, json) odict \<Rightarrow> stock_state" where
  "shopify_stock availability ev observed raw =
     (let exact = (case json_get ''inventory_quantity'' raw of
            JInt q \<Rightarrow> if json_true (json_get ''inventory_management'' raw) \<and> json_get ''inventory_policy'' raw = JStr ''deny'' then Some q else None
          | _ \<Rightarrow> None) in
      \<lparr>st_availability = availability, st_quantity = map_option (max 0) exact,
       st_quantity_kind = (if exact = None then UnknownQuantity else ExactQuantity), st_observed_at = observed, st_evidence = [ev]\<rparr>)"

definition option_names :: "json list \<Rightarrow> string list" where
  "option_names options = concat (map (\<lambda>(index, option). case option of
       JDict d \<Rightarrow> [if json_true (json_get ''name'' d) then py_str (json_get ''name'' d) else ''option'' @ nat_str index] | _ \<Rightarrow> [])
     (zip [1..<Suc (length options)] options))"

definition variant_options :: "string list \<Rightarrow> (string, json) odict \<Rightarrow> (string, string) odict" where
  "variant_options names raw = fold (\<lambda>(index, name) d. let value = json_get (''option'' @ nat_str index) raw in
       if value = JNull \<or> value = JStr ''Default Title'' then d else od_set name (py_str value) d)
     (zip [1..<Suc (length names)] names) []"

definition variant_attributes :: "(string, string) odict \<Rightarrow> string option \<Rightarrow> (string, json) odict \<Rightarrow> (string, json) odict" where
  "variant_attributes options cur raw =
     (let base = map (\<lambda>(k, v). (k, JStr v)) options; grams = json_get ''grams'' raw;
          weighed = (case grams of JInt _ \<Rightarrow> json_true grams | JFloat _ \<Rightarrow> json_true grams | _ \<Rightarrow> False);
          a = (if weighed then od_set ''shipping_weight_g'' grams base else base) in
      case (decimal_amount (json_get ''price'' raw), cur) of
        (Some _, Some c) \<Rightarrow> od_set ''price_text'' (JStr (py_str (json_get ''price'' raw) @ '' '' @ c)) a
      | _ \<Rightarrow> a)"

definition shopify_variant ::
  "vat_status option \<Rightarrow> (string, json) odict \<Rightarrow> (string, json) odict \<Rightarrow> string option \<Rightarrow> evidence \<Rightarrow> int \<Rightarrow> exn + commerce_variant option" where
  "shopify_variant vat raw product cur ev observed =
     (let identifier = py_strip (str_or_empty (json_get ''id'' raw)); availability = variant_availability raw in
      if identifier = [] then Inr None
      else res_bind (json_items (json_get ''options'' product)) (\<lambda>options.
        let chosen = variant_options (option_names options) raw; title = py_strip (str_or_empty (json_get ''title'' raw));
            image = (case json_get ''featured_image'' raw of
                JDict d \<Rightarrow> if json_true (json_get ''src'' d)
                  then Some \<lparr>media_url = py_str (json_get ''src'' d), media_type = None, media_alt_text = None, media_external_id = None\<rparr> else None
              | _ \<Rightarrow> None) in
        res_bind (variant_validate
          \<lparr>va_external_id = identifier, va_is_default = False, va_canonical_url = None,
           va_title = (if py_lower title \<noteq> ''default title'' then Some title else None),
           va_sku = str_or_none (json_get ''sku'' raw), va_gtin = str_or_none (json_get ''barcode'' raw), va_image = image,
           va_options = chosen, va_offers = shopify_offers vat availability ev observed cur raw,
           va_stock = Some (shopify_stock availability ev observed raw),
           va_published_attributes = variant_attributes chosen cur raw,
           va_platform_extensions = [(''legacy_raw_variant'', JDict raw)]\<rparr>) (\<lambda>v. Inr (Some v))))"

subsection \<open>Products\<close>

fun res_collect :: "('a \<Rightarrow> exn + 'b option) \<Rightarrow> 'a list \<Rightarrow> exn + 'b list" where
  "res_collect f [] = Inr []"
| "res_collect f (x # xs) = res_bind (f x) (\<lambda>y. res_bind (res_collect f xs) (\<lambda>ys. Inr (case y of None \<Rightarrow> ys | Some z \<Rightarrow> z # ys)))"

definition PDF_LINK :: rx where
  "PDF_LINK = (let quotes = rx_class [CHR 0x22, CHR 0x27]; inner = (\<lambda>c. c \<noteq> CHR 0x22 \<and> c \<noteq> CHR 0x27) in
     rx_seq [rx_lit ''href='', RxChar quotes,
       RxGroup 1 (rx_seq [rx_some inner, rx_lit ''.pdf'', RxOpt (RxSeq (rx_lit ''?'') (RxMany inner))]), RxChar quotes])"

definition product_images :: "json list \<Rightarrow> media_ref list" where
  "product_images items = map (\<lambda>d. \<lparr>media_url = py_str (json_get ''src'' d), media_type = None,
       media_alt_text = str_or_none (json_get ''alt'' d), media_external_id = str_or_none (json_get ''id'' d)\<rparr>)
     (filter (\<lambda>d. json_true (json_get ''src'' d)) (dict_items items))"

definition product_documents :: "string \<Rightarrow> evidence \<Rightarrow> int \<Rightarrow> string \<Rightarrow> exn + document_ref list" where
  "product_documents url ev observed body_html =
     res_all (\<lambda>link. res_bind (urljoin url link) (\<lambda>target.
       Inr \<lparr>doc_url = target, doc_observed_at = observed, doc_evidence = [ev], doc_title = Some link, doc_media_type = None,
         doc_external_id = None\<rparr>)) (re_findall PDF_LINK None body_html)"

definition product_categories :: "string \<Rightarrow> (string, json) odict \<Rightarrow> category_ref list" where
  "product_categories part raw = map (\<lambda>name. \<lparr>cat_name = name, cat_external_id = None, cat_url = None\<rparr>)
     (filter (\<lambda>name. name \<noteq> []) [if part \<noteq> ''main'' then part else [], str_or_empty (json_get ''product_type'' raw)])"

text \<open>\<^verbatim>\<open>raw.get(key) or []\<close>.\<close>

definition json_or_list :: "json \<Rightarrow> json" where
  "json_or_list v = (if json_true v then v else JList [])"

text \<open>
  Building a snapshot validates its fields; the variants are instances that were validated when they were
  built, and instances are taken as they are.
\<close>

definition shopify_normalize ::
  "(string \<Rightarrow> string) \<Rightarrow> (json \<Rightarrow> exn + int option) \<Rightarrow> vat_status option \<Rightarrow> (string, json) odict \<Rightarrow> string \<Rightarrow> string \<Rightarrow> string option \<Rightarrow> int \<Rightarrow>
   string \<Rightarrow> exn + commerce_snapshot option" where
  "shopify_normalize unescape instant vat raw source_id origin cur observed part =
     (let handle = py_strip (str_or_empty (json_get ''handle'' raw)); title = py_strip (str_or_empty (json_get ''title'' raw));
          external_id = py_strip (if json_true (json_get ''id'' raw) then py_str (json_get ''id'' raw) else handle) in
      if handle = [] \<or> title = [] \<or> external_id = [] then Inr None
      else let url = origin @ ''/products/'' @ handle;
          ev = \<lparr>ev_method = ByApi, ev_source_url = url, ev_source_field = Some ''products.json'', ev_observed_at = observed, ev_confidence = Published\<rparr>;
          body_html = str_or_empty (json_get ''body_html'' raw) in
        res_bind (evidence_validate ev) (\<lambda>ev.
        res_bind (json_items (json_get ''variants'' raw)) (\<lambda>items.
        res_bind (res_collect (\<lambda>item. shopify_variant vat item raw cur ev observed) (dict_items items)) (\<lambda>variants.
        res_bind (json_items (json_get ''images'' raw)) (\<lambda>images.
        res_bind (product_documents url ev observed body_html) (\<lambda>documents.
        res_bind (instant (json_get ''updated_at'' raw)) (\<lambda>updated.
        res_bind (snapshot_validate
          \<lparr>cs_connector = ''shopify'', cs_source_id = source_id, cs_external_id = external_id, cs_canonical_url = url, cs_title = title,
           cs_observed_at = observed, cs_description = (let d = clean unescape body_html in if d = [] then None else Some d),
           cs_vendor = str_or_none (json_get ''vendor'' raw), cs_categories = product_categories part raw,
           cs_images = product_images images, cs_documents = documents, cs_variants = [], cs_source_updated_at = updated,
           cs_published_attributes = [],
           cs_platform_extensions = [(''handle'', JStr handle), (''tags'', json_or_list (json_get ''tags'' raw)),
             (''options'', json_or_list (json_get ''options'' raw)),
             (''legacy_raw_product'', JDict (filter (\<lambda>(k, v). k \<noteq> ''variants'') raw))]\<rparr>) (\<lambda>s. Inr (Some (s\<lparr>cs_variants := variants\<rparr>))))))))))"

subsection \<open>Validation keeps what was published\<close>

lemma offer_kept:
  "offer_validate f = Inr f' \<Longrightarrow> of_price f' = of_price f \<and> of_role f' = of_role f \<and> of_availability f' = of_availability f"
  by (auto simp: offer_validate_def money_validate_def res_bind_Inr Let_def)

lemma stock_kept:
  "stock_validate t = Inr t' \<Longrightarrow> st_quantity t' = st_quantity t \<and> st_availability t' = st_availability t"
  by (auto simp: stock_validate_def res_bind_Inr)

definition offer_summary :: "commerce_offer \<Rightarrow> offer_role \<times> money \<times> availability option" where
  "offer_summary f = (of_role f, of_price f, of_availability f)"

lemma offers_kept:
  assumes "res_all offer_validate fs = Inr fs'"
  shows "map offer_summary fs' = map offer_summary fs"
  using assms offer_kept
  by (auto simp: res_all_Inr list_all2_conv_all_nth offer_summary_def intro!: nth_equalityI)

lemma variant_kept:
  assumes "variant_validate v = Inr v'"
  shows "va_external_id v' = py_strip (va_external_id v)" "map offer_summary (va_offers v') = map offer_summary (va_offers v)"
    "va_options v' = va_options v" "va_title v' = va_title v"
    "map_option st_quantity (va_stock v') = map_option st_quantity (va_stock v)"
    "map_option st_availability (va_stock v') = map_option st_availability (va_stock v)"
  using assms offers_kept [of "va_offers v"]
  by (auto simp: variant_validate_def res_bind_Inr non_empty_def res_guard_Inr Let_def res_opt_Inr dest!: stock_kept split: option.splits)

text \<open>What a variant says, against the entry of the feed it was made from.\<close>

definition published_variant :: "string option \<Rightarrow> (string, json) odict \<Rightarrow> commerce_variant \<Rightarrow> bool" where
  "published_variant cur raw v \<longleftrightarrow>
     va_external_id v = py_strip (str_or_empty (json_get ''id'' raw)) \<and>
     list_all (\<lambda>f. cur = Some (currency (of_price f)) \<and> of_availability f = Some (variant_availability raw)) (va_offers v) \<and>
     (case map (\<lambda>f. (of_role f, amount (of_price f))) (va_offers v) of
        [] \<Rightarrow> cur = None \<or> decimal_amount (json_get ''price'' raw) = None
      | [(r, PFin a)] \<Rightarrow> r = RegularOffer \<and> decimal_amount (json_get ''price'' raw) = Some a \<and>
          (\<forall>b. decimal_amount (json_get ''compare_at_price'' raw) = Some b \<longrightarrow> b \<le> a)
      | [(r, PFin a), (q, PFin b)] \<Rightarrow> r = SaleOffer \<and> q = RegularOffer \<and> a < b \<and>
          decimal_amount (json_get ''price'' raw) = Some a \<and> decimal_amount (json_get ''compare_at_price'' raw) = Some b
      | _ \<Rightarrow> False) \<and>
     (\<exists>st. va_stock v = Some st \<and> st_availability st = variant_availability raw \<and>
       (case st_quantity st of
          Some q \<Rightarrow> json_true (json_get ''inventory_management'' raw) \<and> json_get ''inventory_policy'' raw = JStr ''deny'' \<and>
            (\<exists>i. json_get ''inventory_quantity'' raw = JInt i \<and> q = max 0 i)
        | None \<Rightarrow> \<not> (json_true (json_get ''inventory_management'' raw) \<and> json_get ''inventory_policy'' raw = JStr ''deny'' \<and>
            (\<exists>i. json_get ''inventory_quantity'' raw = JInt i))))"

definition has_identifier :: "(string, json) odict \<Rightarrow> bool" where
  "has_identifier raw \<longleftrightarrow> py_strip (str_or_empty (json_get ''id'' raw)) \<noteq> []"

lemma published_offers:
  assumes "map offer_summary fs = map offer_summary (shopify_offers vat (variant_availability raw) ev observed cur raw)"
  shows "list_all (\<lambda>f. cur = Some (currency (of_price f)) \<and> of_availability f = Some (variant_availability raw)) fs \<and>
     (case map (\<lambda>f. (of_role f, amount (of_price f))) fs of
        [] \<Rightarrow> cur = None \<or> decimal_amount (json_get ''price'' raw) = None
      | [(r, PFin a)] \<Rightarrow> r = RegularOffer \<and> decimal_amount (json_get ''price'' raw) = Some a \<and>
          (\<forall>b. decimal_amount (json_get ''compare_at_price'' raw) = Some b \<longrightarrow> b \<le> a)
      | [(r, PFin a), (q, PFin b)] \<Rightarrow> r = SaleOffer \<and> q = RegularOffer \<and> a < b \<and>
          decimal_amount (json_get ''price'' raw) = Some a \<and> decimal_amount (json_get ''compare_at_price'' raw) = Some b
      | _ \<Rightarrow> False)"
  using assms
  by (auto simp: shopify_offers_def shopify_offer_def offer_summary_def Cons_eq_map_conv split: option.splits if_splits)

lemma shopify_variant_None: "shopify_variant vat raw product cur ev observed = Inr None \<Longrightarrow> \<not> has_identifier raw"
  by (auto simp: shopify_variant_def has_identifier_def Let_def res_bind_Inr split: if_splits)

lemma shopify_variant_Some:
  assumes "shopify_variant vat raw product cur ev observed = Inr (Some v)"
  shows "has_identifier raw \<and> variant_ok v \<and> published_variant cur raw v"
proof -
  obtain u where u: "variant_validate u = Inr v" "has_identifier raw"
    "va_external_id u = py_strip (str_or_empty (json_get ''id'' raw))"
    "va_offers u = shopify_offers vat (variant_availability raw) ev observed cur raw"
    "va_stock u = Some (shopify_stock (variant_availability raw) ev observed raw)"
    using assms by (auto simp: shopify_variant_def has_identifier_def Let_def res_bind_Inr split: if_splits)
  note kept = variant_kept [OF u(1)]
  have "map offer_summary (va_offers v) = map offer_summary (shopify_offers vat (variant_availability raw) ev observed cur raw)"
    using kept(2) u(4) by simp
  from published_offers [OF this] kept(1,5,6) u(3,5) have "published_variant cur raw v"
    by (auto simp: published_variant_def shopify_stock_def Let_def split: option.splits if_splits json.splits)
  with u(1,2) variant_typed show ?thesis by blast
qed

lemma res_collect_filter:
  assumes "res_collect f xs = Inr ys"
    and "\<And>x. f x = Inr None \<Longrightarrow> \<not> p x" "\<And>x y. f x = Inr (Some y) \<Longrightarrow> p x \<and> q x y"
  shows "list_all2 q (filter p xs) ys"
  using assms by (induction xs arbitrary: ys) (auto simp: res_bind_Inr split: option.splits)

subsection \<open>Properties\<close>


subsection \<open>Witness\<close>

definition sample_variant :: "(string, json) odict" where
  "sample_variant = [(''id'', JInt 7), (''price'', JStr ''9.50''), (''compare_at_price'', JStr ''12''), (''available'', JBool True),
     (''inventory_quantity'', JInt (-3)), (''inventory_management'', JStr ''shopify''), (''inventory_policy'', JStr ''deny'')]"

definition sample_product :: "(string, json) odict" where
  "sample_product = [(''id'', JInt 1), (''handle'', JStr ''clay''), (''title'', JStr ''Clay''), (''variants'', JList [JDict sample_variant])]"

lemma sample_texts:
  "py_strip ''shopify'' = ''shopify'' \<and> py_strip ''s'' = ''s'' \<and> py_strip ''clay'' = ''clay'' \<and> py_strip ''Clay'' = ''Clay'' \<and>
   py_strip ''1'' = ''1'' \<and> py_strip ''7'' = ''7'' \<and> int_str 1 = ''1'' \<and> int_str 7 = ''7'' \<and> py_strip [] = [] \<and>
   py_strip ''https://h/products/clay'' = ''https://h/products/clay'' \<and> py_strip ''products.json'' = ''products.json'' \<and>
   decimal_amount (JStr ''9.50'') = Some (19 / 2) \<and> decimal_amount (JStr ''12'') = Some 12 \<and>
   list_all is_upper_char ''EUR'' \<and> clean (\<lambda>s. s) [] = [] \<and> re_findall PDF_LINK None [] = []"
  by code_simp

lemma sample_values:
  "json_get ''id'' sample_product = JInt 1" "json_get ''handle'' sample_product = JStr ''clay''"
  "json_get ''title'' sample_product = JStr ''Clay''" "json_items (json_get ''variants'' sample_product) = Inr [JDict sample_variant]"
  "json_items (json_get ''images'' sample_product) = Inr []" "json_items JNull = Inr []"
  "str_or_empty (json_get ''body_html'' sample_product) = []" "str_or_empty (json_get ''product_type'' sample_product) = []"
  "json_get ''tags'' sample_product = JNull" "json_get ''options'' sample_product = JNull"
  "str_or_empty (JInt 1) = int_str 1" "str_or_empty (JInt 7) = int_str 7" "str_or_empty (JStr s) = s" "str_or_empty JNull = []"
  "json_get ''id'' sample_variant = JInt 7" "json_get ''price'' sample_variant = JStr ''9.50''"
  "json_get ''compare_at_price'' sample_variant = JStr ''12''" "json_get ''available'' sample_variant = JBool True"
  "json_get ''inventory_quantity'' sample_variant = JInt (-3)" "json_get ''inventory_management'' sample_variant = JStr ''shopify''"
  "json_get ''inventory_policy'' sample_variant = JStr ''deny''" "json_get ''featured_image'' sample_variant = JNull"
  by (simp_all add: json_get_def sample_product_def sample_variant_def json_items_def str_or_empty_def)

lemma extensions_accepted: "\<exists>d'. sanitize_platform_extensions d = Inr d'"
  using sanitize_default_dict [of d] by (auto simp: sanitize_platform_extensions_def)

lemma sample_variant_built:
  "\<exists>v. shopify_variant None sample_variant sample_product (Some ''EUR'')
     \<lparr>ev_method = ByApi, ev_source_url = ''https://h/products/clay'', ev_source_field = Some ''products.json'', ev_observed_at = 0,
      ev_confidence = Published\<rparr> 0 = Inr (Some v)"
proof -
  obtain d where "sanitize_platform_extensions [(''legacy_raw_variant'', JDict sample_variant)] = Inr d"
    using extensions_accepted by metis
  then show ?thesis
    using sample_texts
    by (simp add: shopify_variant_def Let_def sample_values variant_validate_def offer_validate_def evidence_list_def
        evidence_validate_def stock_validate_def money_validate_def currency_code_def decimal_within_def decimal_field_def validate_offer_def
        quantity_and_kind_agree_def shopify_offers_def shopify_offer_def shopify_stock_def variant_availability_def
        res_bind_def non_empty_def res_guard_def res_opt_def)
qed

lemma sample_normalized:
  "\<exists>s. shopify_normalize (\<lambda>s. s) (\<lambda>_. Inr None) None sample_product ''s'' ''https://h'' (Some ''EUR'') 0 ''main'' = Inr (Some s)"
proof -
  obtain e where "sanitize_platform_extensions [(''handle'', JStr ''clay''), (''tags'', JList []), (''options'', JList []),
             (''legacy_raw_product'', JDict (filter (\<lambda>(k, v). k \<noteq> ''variants'') sample_product))] = Inr e"
    using extensions_accepted by metis
  moreover obtain v where "shopify_variant None sample_variant sample_product (Some ''EUR'')
     \<lparr>ev_method = ByApi, ev_source_url = ''https://h/products/clay'', ev_source_field = Some ''products.json'', ev_observed_at = 0,
      ev_confidence = Published\<rparr> 0 = Inr (Some v)" using sample_variant_built by blast
  ultimately show ?thesis
    using sample_texts
    by (simp add: shopify_normalize_def Let_def sample_values evidence_validate_def res_bind_def non_empty_def dict_items_def
        res_guard_def res_opt_def product_documents_def product_images_def product_categories_def snapshot_validate_def json_or_list_def)
qed


end
