(* ===== verification/Shopify_Inventory.thy ===== *)
theory Shopify_Inventory
  imports Shopify_Product Request_Budget Effects
begin

section \<open>Shopify inventory enrichment\<close>

text \<open>
  The optional inventory requests of \<^verbatim>\<open>connectors/shopify.py\<close>: the quantities a product page publishes,
  how many requests a budget admits while the next feed page stays affordable, and the enrichment of the
  products of a page.  The transport, the budget and the rest of the world are the operations of \<open>connector_io\<close>.
\<close>

subsection \<open>Options and environment\<close>

datatype inventory_method = InventoryNone | InventoryProductJson | InventoryProductHtml

record shopify_options =
  so_currency :: "string option"
  so_vat_status :: "vat_status option"
  so_page_size :: nat
  so_page_limit :: nat
  so_inventory_method :: inventory_method
  so_inventory_section_id :: "string option"
  so_inventory_batch_size :: nat
  so_inventory_request_estimated_bytes :: nat
  so_discovery_request_estimated_bytes :: nat

definition shopify_options_validate :: "shopify_options \<Rightarrow> exn + shopify_options" where
  "shopify_options_validate options =
     res_bind (res_opt currency_code (so_currency options)) (\<lambda>_.
     res_bind (res_guard (1 \<le> so_page_size options \<and> so_page_size options \<le> 250 \<and> 1 \<le> so_page_limit options \<and>
         1 \<le> so_inventory_batch_size options \<and> so_inventory_batch_size options \<le> 50) ''Input is out of range'') (\<lambda>_.
     Inr options))"

text \<open>
  What \<^verbatim>\<open>getattr(budget, name, missing)\<close> may be, and the operations a connector is given: the transport, the
  context's clock, cancellation and budget, and the parts of Python's library that are parameters (the reading
  of floats, the decoder's message, HTML entities, instants and the text of a transport failure).
\<close>

datatype attribute = AttrMissing | AttrNone | AttrInt int

record 'e connector_io =
  io_request :: "transport_request \<Rightarrow> ('e, transport_response) act"
  io_rotate :: "rotation_reason \<Rightarrow> ('e, unit) act"
  io_clock :: "('e, int) act"
  io_cancelled :: "'e \<Rightarrow> bool"
  io_has_budget :: bool
  io_affordable :: "transport_request \<Rightarrow> 'e \<Rightarrow> bool"
  io_maximum_requests :: "'e \<Rightarrow> attribute"
  io_used_requests :: "'e \<Rightarrow> attribute"
  io_float :: "string \<Rightarrow> string"
  io_decode_message :: "string \<Rightarrow> string"
  io_unescape :: "string \<Rightarrow> string"
  io_instant :: "json \<Rightarrow> exn + int option"
  io_failure_text :: "exn \<Rightarrow> string"

datatype connector_call =
    CallRequest transport_request "exn + transport_response"
  | CallRotate rotation_reason
  | CallYield "commerce_snapshot entity_page"

type_synonym ('e, 'a) conn_act = "((connector_call, 'e) world, 'a) act"

definition ask :: "('e \<Rightarrow> 'a) \<Rightarrow> ('e, 'a) conn_act" where
  "ask f w = (Inr (f (w_env w)), w)"

definition conn_request :: "'e connector_io \<Rightarrow> transport_request \<Rightarrow> ('e, transport_response) conn_act" where
  "conn_request io request = call (CallRequest request) (io_request io request)"

text \<open>Reading the clock is no call of the history.\<close>

definition read_clock :: "'e connector_io \<Rightarrow> ('e, int) conn_act" where
  "read_clock io w = (case io_clock io (w_env w) of (r, env) \<Rightarrow> (r, w\<lparr>w_env := env\<rparr>))"

text \<open>\<^verbatim>\<open>TransportResponse.json_value\<close>: a body that is no JSON raises \<^verbatim>\<open>ResponseDecodeFailure\<close>, a \<^verbatim>\<open>ValueError\<close>.\<close>

definition json_value :: "'e connector_io \<Rightarrow> transport_response \<Rightarrow> exn + json" where
  "json_value io response = (case json_loads (io_float io) (resp_content response) of
     Some v \<Rightarrow> Inr v | None \<Rightarrow> Inl (ValueError (io_decode_message io (resp_content response))))"

text \<open>The exceptions of the code that are a \<^verbatim>\<open>RuntimeError\<close>.\<close>

fun is_runtime_error :: "exn \<Rightarrow> bool" where
  "is_runtime_error (ValueError _) = False"
| "is_runtime_error (PyTypeError _) = False"
| "is_runtime_error (PyKeyError _) = False"
| "is_runtime_error (AssertionErr _) = False"
| "is_runtime_error (CancelledError _) = False"
| "is_runtime_error (BackendError _) = False"
| "is_runtime_error _ = True"

fun is_value_error :: "exn \<Rightarrow> bool" where
  "is_value_error (ValueError _) = True"
| "is_value_error _ = False"

subsection \<open>Quantities of a product page\<close>

text \<open>Group 1 is the identifier, group 2 the quantity.\<close>

definition rx_quotes :: rx where
  "rx_quotes = RxChar (rx_class [CHR 0x22, CHR 0x27])"

definition rx_spaces :: rx where
  "rx_spaces = RxMany is_space_char"

definition rx_integer :: rx where
  "rx_integer = RxSeq (RxOpt (rx_exact ''-'')) (rx_some is_digit_char)"

definition quoted :: "string \<Rightarrow> string" where
  "quoted w = [CHR 0x22] @ w @ [CHR 0x22]"

definition NATIVE_INVENTORY :: rx where
  "NATIVE_INVENTORY = (let guard = RxSeq (rx_exact (quoted ''id'' @ '':'')) (RxChar is_digit_char) in
     rx_seq [rx_exact (quoted ''id'' @ '':''), RxGroup 1 (rx_some is_digit_char), RxBoundary, RxLazyUntil guard 1800,
       rx_exact (quoted ''inventory_quantity'' @ '':''), RxGroup 2 rx_integer, RxLazyUntil guard 500,
       rx_exact (quoted ''inventory_management'' @ '':'' @ quoted ''shopify''), RxLazyUntil guard 300,
       rx_exact (quoted ''inventory_policy'' @ '':'' @ quoted ''deny'')])"

definition OPTION_INVENTORY :: rx where
  "OPTION_INVENTORY = (let inside = RxMany (\<lambda>c. c \<noteq> CHR ''>'') in
     rx_seq [rx_lit ''<option'', RxBoundary,
       RxAhead (rx_seq [inside, RxBoundary, rx_lit ''value='', rx_quotes, RxGroup 1 (rx_some is_digit_char), rx_quotes]),
       inside, rx_lit ''>''])"

definition OPTION_DENY_POLICY :: rx where
  "OPTION_DENY_POLICY = rx_seq [rx_lit ''data-inventory-policy='', rx_quotes, rx_lit ''deny'', rx_quotes]"

definition OPTION_QUANTITY :: rx where
  "OPTION_QUANTITY = rx_seq [rx_lit ''data-inventory='', rx_quotes, RxGroup 2 rx_integer, rx_quotes]"

text \<open>Group 3 is the field and group 4 the value.\<close>

definition GATEWAY_INVENTORY :: rx where
  "GATEWAY_INVENTORY = rx_seq [rx_exact ''gwProductInventory'', RxGroup 3 (RxAlt (rx_exact ''Policy'') (rx_exact ''Quantity'')),
     rx_exact ''['', RxGroup 1 (rx_some is_digit_char), rx_exact '']'', rx_spaces, rx_exact ''='', rx_spaces, rx_quotes,
     RxGroup 4 (RxAlt (rx_exact ''deny'') rx_integer), rx_quotes]"

definition LOCAL_INVENTORY :: rx where
  "LOCAL_INVENTORY = (let guard = rx_seq [RxBoundary, rx_exact ''id'', rx_spaces, rx_exact '':''] in
     rx_seq [RxBoundary, rx_exact ''id'', rx_spaces, rx_exact '':'', rx_spaces, RxGroup 1 (rx_some is_digit_char), RxBoundary,
       RxLazyUntil guard 700, rx_exact ''inventory_management'', rx_spaces, rx_exact '':'', rx_spaces, rx_quotes, rx_exact ''shopify'',
       rx_quotes, RxLazyUntil guard 300, RxBoundary, rx_exact ''quantity'', rx_spaces, rx_exact '':'', rx_spaces,
       RxGroup 2 rx_integer])"

definition KEYED_INVENTORY :: rx where
  "KEYED_INVENTORY = (let guard = rx_seq [rx_quotes, rx_some is_digit_char, rx_quotes, rx_spaces, rx_exact '':''];
       field = (\<lambda>name. [rx_quotes, rx_exact name, rx_quotes, rx_spaces, rx_exact '':'', rx_spaces]) in
     rx_seq ([rx_quotes, RxGroup 1 (rx_some is_digit_char), rx_quotes, rx_spaces, rx_exact '':'', rx_spaces, rx_exact ''{'',
         RxLazyUntil guard 1000] @ field ''inventory_management'' @
       [RxAlt (rx_exact ''null'') (rx_seq [rx_quotes, rx_exact ''shopify'', rx_quotes]), RxLazyUntil guard 500] @
       field ''inventory_policy'' @ [rx_quotes, rx_exact ''deny'', rx_quotes, RxLazyUntil guard 500] @
       field ''inventory_quantity'' @ [RxGroup 2 rx_integer]))"

text \<open>\<^verbatim>\<open>setdefault(identifier, int(quantity))\<close> over the matches for the wanted identifiers.\<close>

definition od_setdefault :: "'k \<Rightarrow> 'v \<Rightarrow> ('k, 'v) odict \<Rightarrow> ('k, 'v) odict" where
  "od_setdefault k v d = (if map_of d k = None then od_set k v d else d)"

definition pattern_quantities :: "rx \<Rightarrow> string list \<Rightarrow> string \<Rightarrow> (string, int) odict" where
  "pattern_quantities pattern variant_ids document = fold (\<lambda>(u, g) d.
       if rx_group 1 g \<in> set variant_ids then od_setdefault (rx_group 1 g) (int_value (rx_group 2 g)) d else d)
     (re_finditer pattern None document) []"

definition option_quantities :: "string list \<Rightarrow> string \<Rightarrow> (string, int) odict" where
  "option_quantities variant_ids document = fst (fold (\<lambda>(u, g) (d, seen).
       let identifier = rx_group 1 g in
       if identifier \<notin> set variant_ids \<or> identifier \<in> set seen then (d, seen)
       else (case re_search OPTION_QUANTITY u of
           Some (_, q) \<Rightarrow> if re_search OPTION_DENY_POLICY u \<noteq> None
             then (od_set identifier (int_value (rx_group 2 q)) d, identifier # seen) else (d, identifier # seen)
         | None \<Rightarrow> (d, identifier # seen)))
     (re_finditer OPTION_INVENTORY None document) ([], []))"

definition gateway_quantities :: "string list \<Rightarrow> string \<Rightarrow> (string, int) odict" where
  "gateway_quantities variant_ids document =
     (let (policies, quantities) = fold (\<lambda>(u, g) (policies, quantities).
          let identifier = rx_group 1 g; value = rx_group 4 g in
          if identifier \<notin> set variant_ids then (policies, quantities)
          else if rx_group 3 g = ''Policy'' \<and> value = ''deny'' then (identifier # policies, quantities)
          else if rx_group 3 g = ''Quantity'' \<and> value \<noteq> ''deny'' then (policies, od_setdefault identifier (int_value value) quantities)
          else (policies, quantities))
        (re_finditer GATEWAY_INVENTORY None document) ([], []) in
      filter (\<lambda>(identifier, _). identifier \<in> set policies) quantities)"

definition inventory_sources :: "string list \<Rightarrow> string \<Rightarrow> (string, int) odict list" where
  "inventory_sources variant_ids document =
     [pattern_quantities NATIVE_INVENTORY variant_ids document, option_quantities variant_ids document,
      gateway_quantities variant_ids document, pattern_quantities LOCAL_INVENTORY variant_ids document,
      pattern_quantities KEYED_INVENTORY variant_ids document]"

text \<open>\<^verbatim>\<open>next((values[identifier] for values in quantities if identifier in values), None)\<close>.\<close>

fun first_quantity :: "(string, int) odict list \<Rightarrow> string \<Rightarrow> int option" where
  "first_quantity [] identifier = None"
| "first_quantity (values # rest) identifier =
     (case map_of values identifier of Some q \<Rightarrow> Some q | None \<Rightarrow> first_quantity rest identifier)"

definition published_inventory :: "string \<Rightarrow> int \<Rightarrow> (string, json) odict" where
  "published_inventory identifier quantity = [(''id'', JStr identifier), (''inventory_quantity'', JInt quantity),
     (''inventory_management'', JStr ''published_theme''), (''inventory_policy'', JStr ''deny'')]"

text \<open>The set of identifiers is a list without repetition; the order of a set is not used below.\<close>

definition inventory_from_html :: "string \<Rightarrow> string list \<Rightarrow> (string, json) odict" where
  "inventory_from_html document variant_ids =
     concat (map (\<lambda>identifier. case first_quantity (inventory_sources variant_ids document) identifier of
         Some quantity \<Rightarrow> [(identifier, JDict (published_inventory identifier quantity))] | None \<Rightarrow> []) variant_ids)"

subsection \<open>Requests and admission\<close>

definition shopify_request ::
  "string \<Rightarrow> (string, query_value) odict \<Rightarrow> (string, string) odict \<Rightarrow> request_purpose \<Rightarrow> request_priority \<Rightarrow> bool \<Rightarrow> nat \<Rightarrow> transport_request" where
  "shopify_request url query headers purpose priority required estimated =
     \<lparr>req_method = ''GET'', req_url = url, req_query = query, req_headers = headers, req_json_body = None,
      req_body = None, req_purpose = purpose, req_priority = priority, req_required = required,
      req_estimated_bytes = estimated, req_cache = CacheDefault, req_browser = BrowserNever,
      req_evaluation = None, req_trace_request_id = None, req_trace_attempt = None\<rparr>"

definition inventory_request :: "shopify_options \<Rightarrow> (string, json) odict \<Rightarrow> string \<Rightarrow> transport_request option" where
  "inventory_request options product origin =
     (let handle = py_strip (str_or_empty (json_get ''handle'' product)); product_url = origin @ ''/products/'' @ handle;
          by_json = (so_inventory_method options = InventoryProductJson) in
      if handle = [] then None
      else Some (shopify_request (if by_json then product_url @ ''.js'' else product_url)
        (case so_inventory_section_id options of Some section \<Rightarrow> if by_json \<or> section = [] then [] else [(''section_id'', QStr section)]
          | None \<Rightarrow> []) [(''Cookie'', [])] PurposeEnrichment PriorityOptional False (so_inventory_request_estimated_bytes options)))"

text \<open>The copy of a request that asks whether feed page and enrichment are affordable together.\<close>

definition reserve_request :: "transport_request \<Rightarrow> string \<Rightarrow> nat \<Rightarrow> transport_request" where
  "reserve_request request discovery_url estimated = request\<lparr>req_url := discovery_url, req_purpose := PurposeDiscovery,
     req_priority := PriorityDiscovery, req_required := True, req_estimated_bytes := estimated\<rparr>"

fun admitted_prefix :: "(transport_request \<Rightarrow> bool) \<Rightarrow> string \<Rightarrow> nat \<Rightarrow> transport_request list \<Rightarrow> nat" where
  "admitted_prefix affordable discovery_url estimated [] = 0"
| "admitted_prefix affordable discovery_url estimated (request # requests) =
     (let total = estimated + req_estimated_bytes request in
      if affordable (reserve_request request discovery_url total) then Suc (admitted_prefix affordable discovery_url total requests) else 0)"

definition admission_capacity :: "attribute \<Rightarrow> attribute \<Rightarrow> nat \<Rightarrow> nat" where
  "admission_capacity maximum used count = (case maximum of
       AttrNone \<Rightarrow> count
     | AttrInt m \<Rightarrow> (case used of AttrInt u \<Rightarrow> nat (m - u - 1) | _ \<Rightarrow> 1)
     | AttrMissing \<Rightarrow> 1)"

definition inventory_admission_count :: "'e connector_io \<Rightarrow> shopify_options \<Rightarrow> transport_request list \<Rightarrow> string \<Rightarrow> 'e \<Rightarrow> nat" where
  "inventory_admission_count io options requests discovery_url env =
     (if \<not> io_has_budget io then length requests
      else admitted_prefix (\<lambda>r. io_affordable io r env) discovery_url (so_discovery_request_estimated_bytes options)
        (take (admission_capacity (io_maximum_requests io env) (io_used_requests io env) (length requests)) requests))"

definition affordable_request :: "'e connector_io \<Rightarrow> transport_request \<Rightarrow> 'e \<Rightarrow> bool" where
  "affordable_request io request env \<longleftrightarrow> \<not> io_has_budget io \<or> io_affordable io request env"

definition optional_affordable :: "'e connector_io \<Rightarrow> shopify_options \<Rightarrow> transport_request \<Rightarrow> string \<Rightarrow> 'e \<Rightarrow> bool" where
  "optional_affordable io options request discovery_url env =
     (if \<not> io_has_budget io \<or> \<not> io_affordable io request env then \<not> io_has_budget io
      else if \<not> io_affordable io (reserve_request request discovery_url
          (req_estimated_bytes request + so_discovery_request_estimated_bytes options)) env then False
      else (case (io_maximum_requests io env, io_used_requests io env) of (AttrInt m, AttrInt u) \<Rightarrow> 2 \<le> m - u | _ \<Rightarrow> True))"

subsection \<open>Details and merging\<close>

datatype inventory_result = InventoryDetail "(string, json) odict" | InventoryFailed | InventoryDeferred

definition variant_ids_of :: "json list \<Rightarrow> string list" where
  "variant_ids_of items = remdups (map (\<lambda>d. py_str (json_get ''id'' d)) (filter (\<lambda>d. json_true (json_get ''id'' d)) (dict_items items)))"

definition read_detail :: "'e connector_io \<Rightarrow> shopify_options \<Rightarrow> (string, json) odict \<Rightarrow> transport_response \<Rightarrow> exn + (string, json) odict" where
  "read_detail io options product response =
     (if 400 \<le> resp_status response then Inl (RuntimeErr ''inventory request failed with status'')
      else if so_inventory_method options = InventoryProductJson
      then res_bind (json_value io response) (\<lambda>v. Inr (case v of JDict d \<Rightarrow> d | _ \<Rightarrow> []))
      else res_bind (json_items (json_get ''variants'' product)) (\<lambda>items.
        Inr [(''variants'', JList (map snd (inventory_from_html (resp_content response) (variant_ids_of items))))]))"

definition inventory_detail ::
  "'e connector_io \<Rightarrow> shopify_options \<Rightarrow> (string, json) odict \<Rightarrow> transport_request \<Rightarrow> ('e, inventory_result) conn_act" where
  "inventory_detail io options product request =
     catchA (bindA (conn_request io request) (\<lambda>response. bindA (liftA (read_detail io options product response)) (\<lambda>d. ret (InventoryDetail d))))
       (\<lambda>e. if e = BudgetExhausted then ret InventoryDeferred
         else if is_runtime_error e \<or> is_value_error e then ret InventoryFailed else raise e)"

definition inventory_by_id :: "json list \<Rightarrow> (string, (string, json) odict) odict" where
  "inventory_by_id items = fold (\<lambda>d. od_set (py_str (json_get ''id'' d)) d) (filter (\<lambda>d. json_true (json_get ''id'' d)) (dict_items items)) []"

definition inventory_keys :: "string list" where
  "inventory_keys = [''inventory_quantity'', ''inventory_management'', ''inventory_policy'']"

definition merge_variant :: "(string, (string, json) odict) odict \<Rightarrow> json \<Rightarrow> json" where
  "merge_variant by_id item = (case item of
     JDict variant \<Rightarrow> (case map_of by_id (py_str (json_get ''id'' variant)) of
         None \<Rightarrow> item
       | Some extra \<Rightarrow> JDict (fold (\<lambda>key v. case map_of extra key of Some x \<Rightarrow> od_set key x v | None \<Rightarrow> v) inventory_keys variant))
   | _ \<Rightarrow> item)"

text \<open>The variants are changed in place; only a list holds values that can change.\<close>

definition merge_inventory :: "(string, json) odict \<Rightarrow> (string, json) odict \<Rightarrow> exn + (string, json) odict" where
  "merge_inventory product detail =
     res_bind (json_items (json_get ''variants'' detail)) (\<lambda>extras.
     res_bind (json_items (json_get ''variants'' product)) (\<lambda>_.
     Inr (case json_get ''variants'' product of
         JList items \<Rightarrow> od_set ''variants'' (JList (map (merge_variant (inventory_by_id extras)) items)) product
       | _ \<Rightarrow> product)))"

subsection \<open>Enrichment\<close>

text \<open>
  \<^verbatim>\<open>asyncio.gather\<close>: all the awaitables run; the first exception is raised, otherwise the results are in order.
  The requests of a wave take effect on the environment one after the other.
\<close>

fun gatherA :: "('s, 'a) act list \<Rightarrow> ('s, 'a list) act" where
  "gatherA [] s = (Inr [], s)"
| "gatherA (m # ms) s = (case m s of (r, s1) \<Rightarrow> case gatherA ms s1 of (rs, s2) \<Rightarrow>
     (res_bind r (\<lambda>x. res_bind rs (\<lambda>xs. Inr (x # xs))), s2))"

text \<open>The products of the page, which change in place, and the counters of failures and of deferred products.\<close>

record enrichment =
  en_products :: "(string, json) odict list"
  en_failures :: nat
  en_deferred :: nat

text \<open>The products of a batch are named by their place; a product without a handle has no request.\<close>

definition pending_requests :: "shopify_options \<Rightarrow> string \<Rightarrow> (string, json) odict list \<Rightarrow> nat list \<Rightarrow> (nat \<times> transport_request) list" where
  "pending_requests options origin products batch = concat (map (\<lambda>i. case inventory_request options (products ! i) origin of
     Some request \<Rightarrow> [(i, request)] | None \<Rightarrow> []) batch)"

fun apply_result :: "nat \<times> inventory_result \<Rightarrow> enrichment \<times> bool \<Rightarrow> exn + enrichment \<times> bool" where
  "apply_result (i, InventoryDeferred) (st, exhausted) = Inr (st\<lparr>en_deferred := en_deferred st + 1\<rparr>, True)"
| "apply_result (i, InventoryFailed) (st, exhausted) = Inr (st\<lparr>en_failures := en_failures st + 1\<rparr>, exhausted)"
| "apply_result (i, InventoryDetail detail) (st, exhausted) = res_bind (merge_inventory (en_products st ! i) detail)
     (\<lambda>merged. Inr (st\<lparr>en_products := (en_products st)[i := merged]\<rparr>, exhausted))"

fun apply_results :: "(nat \<times> inventory_result) list \<Rightarrow> enrichment \<times> bool \<Rightarrow> exn + enrichment \<times> bool" where
  "apply_results [] st = Inr st"
| "apply_results (r # rs) st = res_bind (apply_result r st) (apply_results rs)"

definition inventory_wave ::
  "'e connector_io \<Rightarrow> shopify_options \<Rightarrow> (nat \<times> transport_request) list \<Rightarrow> enrichment \<Rightarrow> ('e, enrichment \<times> bool) conn_act" where
  "inventory_wave io options wave st =
     bindA (gatherA (map (\<lambda>(i, request). inventory_detail io options (en_products st ! i) request) wave)) (\<lambda>results.
       liftA (apply_results (zip (map fst wave) results) (st, False)))"

function inventory_waves ::
  "'e connector_io \<Rightarrow> shopify_options \<Rightarrow> string \<Rightarrow> nat \<Rightarrow> (nat \<times> transport_request) list \<Rightarrow> enrichment \<Rightarrow> ('e, enrichment) conn_act" where
  "inventory_waves io options discovery_url later pending st =
     (if pending = [] then ret st
      else bindA (ask (inventory_admission_count io options (map snd pending) discovery_url)) (\<lambda>admitted.
        if admitted = 0 then ret (st\<lparr>en_deferred := en_deferred st + length pending + later\<rparr>)
        else bindA (inventory_wave io options (take admitted pending) st) (\<lambda>(st', exhausted).
          if exhausted then ret (st'\<lparr>en_deferred := en_deferred st' + length (drop admitted pending) + later\<rparr>)
          else inventory_waves io options discovery_url later (drop admitted pending) st')))"
  by pat_completeness auto
termination
  by (relation "measure (\<lambda>(_, _, _, _, pending, _). length pending)") auto

declare inventory_waves.simps [simp del]

text \<open>The batches; the identity is rotated between two of them.  The batch size is at least one.\<close>

function inventory_batches ::
  "'e connector_io \<Rightarrow> shopify_options \<Rightarrow> string \<Rightarrow> string \<Rightarrow> nat list \<Rightarrow> enrichment \<Rightarrow> ('e, enrichment) conn_act" where
  "inventory_batches io options origin discovery_url todo st =
     (if todo = [] then ret st
      else if so_inventory_batch_size options = 0 then raise (ValueError ''range() arg 3 must not be zero'')
      else let batch = take (so_inventory_batch_size options) todo; later = drop (so_inventory_batch_size options) todo;
          pending = pending_requests options origin (en_products st) batch in
        bindA (inventory_waves io options discovery_url (length later) pending
            (st\<lparr>en_failures := en_failures st + (length batch - length pending)\<rparr>)) (\<lambda>st'.
          if en_deferred st' \<noteq> 0 then ret st'
          else thenA (if later \<noteq> [] then call (\<lambda>_. CallRotate RotExplicit) (io_rotate io RotExplicit) else ret ())
            (inventory_batches io options origin discovery_url later st')))"
  by pat_completeness auto
termination
  by (relation "measure (\<lambda>(_, _, _, _, todo, _). length todo)") auto

declare inventory_batches.simps [simp del]

definition skipped_diagnostic :: "nat \<Rightarrow> nat \<Rightarrow> exn + diagnostic list" where
  "skipped_diagnostic failures deferred =
     (if failures + deferred = 0 then Inr []
      else res_bind (diagnostic_validate \<lparr>dg_code = OptionalEnrichmentSkipped, dg_severity = SeverityWarning,
          dg_message = ''inventory unavailable for '' @ nat_str (failures + deferred) @ '' products; quantities remain unknown'',
          dg_retryable = 0 < failures, dg_affects_completeness = False, dg_url = None, dg_entity_id = None, dg_metadata = []\<rparr>)
        (\<lambda>d. Inr [d]))"

definition enrich_inventory ::
  "'e connector_io \<Rightarrow> shopify_options \<Rightarrow> (string, json) odict list \<Rightarrow> string \<Rightarrow> string \<Rightarrow>
   ('e, (string, json) odict list \<times> diagnostic list) conn_act" where
  "enrich_inventory io options products origin discovery_url =
     (if so_inventory_method options = InventoryNone \<or> products = [] then ret (products, [])
      else bindA (inventory_batches io options origin discovery_url [0..<length products]
          \<lparr>en_products = products, en_failures = 0, en_deferred = 0\<rparr>) (\<lambda>st.
        bindA (liftA (skipped_diagnostic (en_failures st) (en_deferred st))) (\<lambda>ds. ret (en_products st, ds))))"

subsection \<open>Admission against a budget\<close>

text \<open>Authorizing several requests one after the other.\<close>

fun authorize_all :: "nat list \<Rightarrow> memory_budget \<Rightarrow> memory_budget option" where
  "authorize_all [] b = Some b"
| "authorize_all (e # es) b = (case mb_authorize e b of (Some _, b') \<Rightarrow> authorize_all es b' | (None, _) \<Rightarrow> None)"

definition room_for :: "nat \<Rightarrow> nat \<Rightarrow> memory_budget \<Rightarrow> bool" where
  "room_for n bytes b \<longleftrightarrow> (case mb_maximum_requests b of None \<Rightarrow> True | Some m \<Rightarrow> mb_requests b + int n < m) \<and>
     (case mb_maximum_bytes b of None \<Rightarrow> True | Some m \<Rightarrow> mb_bytes b + mb_reserved_bytes b + int bytes \<le> m)"

lemma affordable_room: "mb_affordable e b \<longleftrightarrow> room_for 0 e b"
  by (auto simp: mb_affordable_def room_for_def split: option.splits)

lemma authorize_room:
  "(\<exists>b'. authorize_all es b = Some b' \<and> mb_affordable e b') \<longleftrightarrow> room_for (length es) (sum_list es + e) b"
proof (induction es arbitrary: b)
  case (Cons a es)
  show ?case
  proof (cases "mb_affordable a b")
    case True
    then obtain i b' where b': "mb_authorize a b = (Some i, b')"
      and same: "mb_maximum_requests b' = mb_maximum_requests b" "mb_maximum_bytes b' = mb_maximum_bytes b" "mb_bytes b' = mb_bytes b"
        "mb_requests b' = mb_requests b + 1" "mb_reserved_bytes b' = mb_reserved_bytes b + int a"
      by (simp add: mb_authorize_def Let_def)
    have "room_for (length es) (sum_list es + e) b' = room_for (length (a # es)) (sum_list (a # es) + e) b"
      using same by (auto simp: room_for_def split: option.splits)
    with b' Cons.IH [of b'] show ?thesis by simp
  next
    case False
    then have "\<not> room_for (length (a # es)) (sum_list (a # es) + e) b"
      by (auto simp: mb_affordable_def room_for_def split: option.splits)
    with False show ?thesis by (simp add: mb_authorize_def)
  qed
qed (simp add: affordable_room)

lemma reserve_estimate: "req_estimated_bytes (reserve_request r url n) = n"
  by (simp add: reserve_request_def)

lemma admitted_prefix_greatest:
  assumes "\<And>r. affordable r = mb_affordable (req_estimated_bytes r) b"
  shows "admitted_prefix affordable url e rs \<le> length rs \<and>
    (\<forall>n. 0 < n \<and> n \<le> length rs \<longrightarrow>
      (n \<le> admitted_prefix affordable url e rs \<longleftrightarrow> room_for 0 (sum_list (map req_estimated_bytes (take n rs)) + e) b))"
proof (induction rs arbitrary: e)
  case (Cons r rs)
  let ?t = "e + req_estimated_bytes r"
  note IH = Cons.IH [of ?t]
  have first: "affordable (reserve_request r url ?t) = room_for 0 ?t b" by (simp add: assms reserve_estimate affordable_room)
  show ?case
  proof (intro conjI allI impI)
    show "admitted_prefix affordable url e (r # rs) \<le> length (r # rs)" using IH by (simp add: Let_def)
  next
    fix n assume n: "0 < n \<and> n \<le> length (r # rs)"
    then obtain m where m: "n = Suc m" "m \<le> length rs" by (cases n) auto
    have mono: "room_for 0 (x + y) b \<Longrightarrow> room_for 0 x b" for x y by (auto simp: room_for_def split: option.splits)
    show "n \<le> admitted_prefix affordable url e (r # rs) \<longleftrightarrow> room_for 0 (sum_list (map req_estimated_bytes (take n (r # rs))) + e) b"
    proof (cases "room_for 0 ?t b")
      case True
      with IH m show ?thesis by (cases m) (simp_all add: Let_def first ac_simps)
    next
      case False
      then have "\<not> room_for 0 (?t + sum_list (map req_estimated_bytes (take m rs))) b" using mono by blast
      with False m show ?thesis by (simp add: Let_def first ac_simps)
    qed
  qed
qed simp

text \<open>A connector whose context has a \<^verbatim>\<open>MemoryRequestBudget\<close>, seen in the environment through \<open>view\<close>.\<close>

definition budget_backed :: "'e connector_io \<Rightarrow> ('e \<Rightarrow> memory_budget) \<Rightarrow> bool" where
  "budget_backed io view \<longleftrightarrow> io_has_budget io \<and> (\<forall>r env. io_affordable io r env = mb_affordable (req_estimated_bytes r) (view env)) \<and>
     (\<forall>env. io_maximum_requests io env = (case mb_maximum_requests (view env) of None \<Rightarrow> AttrNone | Some m \<Rightarrow> AttrInt m)) \<and>
     (\<forall>env. io_used_requests io env = AttrInt (mb_requests (view env)))"

lemma admission_greatest:
  assumes "budget_backed io view" "0 < n" "n \<le> length requests"
  shows "n \<le> inventory_admission_count io options requests url env \<longleftrightarrow>
    room_for n (sum_list (map req_estimated_bytes (take n requests)) + so_discovery_request_estimated_bytes options) (view env)"
proof -
  let ?c = "admission_capacity (io_maximum_requests io env) (io_used_requests io env) (length requests)"
  let ?e = "so_discovery_request_estimated_bytes options"
  let ?k = "admitted_prefix (\<lambda>r. io_affordable io r env) url ?e (take ?c requests)"
  have prefix: "?k \<le> length (take ?c requests)"
    "\<And>n. 0 < n \<Longrightarrow> n \<le> length (take ?c requests) \<Longrightarrow>
      n \<le> ?k \<longleftrightarrow> room_for 0 (sum_list (map req_estimated_bytes (take n (take ?c requests))) + ?e) (view env)"
    using admitted_prefix_greatest [of "\<lambda>r. io_affordable io r env" "view env" url ?e "take ?c requests"] assms(1)
    by (auto simp: budget_backed_def)
  have capacity: "n \<le> ?c \<longleftrightarrow> (case mb_maximum_requests (view env) of None \<Rightarrow> True | Some m \<Rightarrow> mb_requests (view env) + int n < m)"
    using assms by (auto simp: budget_backed_def admission_capacity_def split: option.splits)
  have k: "inventory_admission_count io options requests url env = ?k"
    using assms(1) by (simp add: inventory_admission_count_def budget_backed_def)
  show ?thesis
  proof (cases "n \<le> ?c")
    case True
    with assms(2,3) prefix(2) [of n] have "n \<le> ?k \<longleftrightarrow> room_for 0 (sum_list (map req_estimated_bytes (take n requests)) + ?e) (view env)"
      by (simp add: min_def)
    moreover have "mb_requests (view env) < m" if "mb_maximum_requests (view env) = Some m" for m
      using True capacity that assms(2) by auto
    ultimately show ?thesis using True capacity unfolding k by (auto simp: room_for_def split: option.splits)
  next
    case False
    with prefix(1) have "\<not> n \<le> ?k" by simp
    with False capacity show ?thesis unfolding k by (auto simp: room_for_def split: option.splits)
  qed
qed

text \<open>
  C38. Optional inventory requests never spend what the next page of the feed needs.  With the in-process budget,
  any number of pending inventory requests is admitted as a wave exactly when the budget can authorize all of
  them, one after the other, and a request for the next feed page is still affordable afterwards.
\<close>

theorem inventory_admission:
  assumes "budget_backed io view" "0 < n" "n \<le> length requests"
  shows "n \<le> inventory_admission_count io options requests url env \<longleftrightarrow>
    (\<exists>b. authorize_all (map req_estimated_bytes (take n requests)) (view env) = Some b \<and>
      mb_affordable (so_discovery_request_estimated_bytes options) b)"
  using assms by (simp add: admission_greatest authorize_room)

subsection \<open>What enrichment does\<close>

text \<open>The requests of a history, oldest first.\<close>

definition asked :: "connector_call list \<Rightarrow> transport_request list" where
  "asked calls = concat (map (\<lambda>c. case c of CallRequest r _ \<Rightarrow> [r] | _ \<Rightarrow> []) (rev calls))"

lemma asked_simps [simp]:
  "asked [] = []" "asked (CallRequest r x # calls) = asked calls @ [r]" "asked (CallRotate q # calls) = asked calls"
  "asked (CallYield p # calls) = asked calls"
  by (simp_all add: asked_def)

lemma conn_request_log: "conn_request io request w = (r, w') \<Longrightarrow> w_log w' = CallRequest request r # w_log w"
  by (auto simp: conn_request_def call_def split: prod.splits)

lemma inventory_detail_asked:
  assumes "inventory_detail io options product request w = (r, w')"
  shows "asked (w_log w') = asked (w_log w) @ [request]"
proof -
  obtain r1 w1 where send: "conn_request io request w = (r1, w1)" by fastforce
  from conn_request_log [OF this] assms send show ?thesis
    by (cases r1) (auto simp: inventory_detail_def act_defs split: sum.splits if_splits)
qed

lemma gather_asked:
  assumes "gatherA (map (\<lambda>(i, request). inventory_detail io options (f i) request) wave) w = (r, w')"
  shows "asked (w_log w') = asked (w_log w) @ map snd wave \<and> (\<forall>rs. r = Inr rs \<longrightarrow> length rs = length wave)"
  using assms
proof (induction wave arbitrary: w r w')
  case (Cons p wave)
  obtain i request where p: "p = (i, request)" by fastforce
  obtain r1 w1 where first: "inventory_detail io options (f i) request w = (r1, w1)" by fastforce
  obtain r2 w2 where rest: "gatherA (map (\<lambda>(i, request). inventory_detail io options (f i) request) wave) w1 = (r2, w2)" by fastforce
  from Cons.IH [OF rest] inventory_detail_asked [OF first] Cons.prems p first rest show ?case
    by (auto simp: res_bind_Inr)
qed simp

text \<open>A product without its variants: enrichment changes nothing of it.\<close>

definition unvaried :: "(string, json) odict \<Rightarrow> (string, json) odict" where
  "unvaried product = filter (\<lambda>(k, v). k \<noteq> ''variants'') product"

lemma unvaried_set: "unvaried (od_set ''variants'' v d) = unvaried d"
  by (induction d) (auto simp: unvaried_def od_set_def)

lemma unvaried_get: "k \<noteq> ''variants'' \<Longrightarrow> json_get k (unvaried d) = json_get k d"
  by (induction d) (auto simp: unvaried_def json_get_def)

lemma merge_unvaried: "merge_inventory product detail = Inr p \<Longrightarrow> unvaried p = unvaried product"
  by (cases "json_get ''variants'' product") (auto simp: merge_inventory_def res_bind_Inr unvaried_set)

lemma request_unvaried: "unvaried p = unvaried q \<Longrightarrow> inventory_request options p origin = inventory_request options q origin"
  using unvaried_get [of "''handle''" p] unvaried_get [of "''handle''" q] by (simp add: inventory_request_def)

lemma apply_results_counts:
  assumes "apply_results rs (st, ex) = Inr (st', ex')"
  shows "map unvaried (en_products st') = map unvaried (en_products st) \<and>
    (\<exists>f d. en_failures st' = en_failures st + f \<and> en_deferred st' = en_deferred st + d \<and> f + d \<le> length rs \<and> (ex' \<longleftrightarrow> ex \<or> 0 < d))"
  using assms
proof (induction rs arbitrary: st ex)
  case (Cons a rs)
  then obtain st1 ex1 where one: "apply_result a (st, ex) = Inr (st1, ex1)" and rest: "apply_results rs (st1, ex1) = Inr (st', ex')"
    by (auto simp: res_bind_Inr)
  have "map unvaried (en_products st1) = map unvaried (en_products st) \<and>
    (\<exists>f d. en_failures st1 = en_failures st + f \<and> en_deferred st1 = en_deferred st + d \<and> f + d \<le> 1 \<and> (ex1 \<longleftrightarrow> ex \<or> 0 < d))"
  proof -
    obtain i result where a: "a = (i, result)" by fastforce
    have same: "map unvaried (xs[i := p]) = map unvaried xs" if "unvaried p = unvaried (xs ! i)" for xs p
      using that by (cases "i < length xs") (simp_all add: map_update list_update_same_conv list_update_beyond)
    show ?thesis using one a
      by (cases result) (auto simp: res_bind_Inr dest!: merge_unvaried intro: same)
  qed
  then obtain f1 d1 where 1: "map unvaried (en_products st1) = map unvaried (en_products st)" "en_failures st1 = en_failures st + f1"
    "en_deferred st1 = en_deferred st + d1" "f1 + d1 \<le> 1" "ex1 \<longleftrightarrow> ex \<or> 0 < d1" by blast
  from Cons.IH [OF rest] obtain f d where "map unvaried (en_products st') = map unvaried (en_products st1)"
    "en_failures st' = en_failures st1 + f" "en_deferred st' = en_deferred st1 + d" "f + d \<le> length rs" "ex' \<longleftrightarrow> ex1 \<or> 0 < d" by blast
  with 1 show ?case by (intro conjI exI [of _ "f1 + f"] exI [of _ "d1 + d"]) auto
qed auto

lemma inventory_wave_counts:
  assumes "inventory_wave io options wave st w = (r, w')"
  shows "asked (w_log w') = asked (w_log w) @ map snd wave"
    and "r = Inr (st', exhausted) \<Longrightarrow> map unvaried (en_products st') = map unvaried (en_products st) \<and>
      (\<exists>f d. en_failures st' = en_failures st + f \<and> en_deferred st' = en_deferred st + d \<and> f + d \<le> length wave \<and> (exhausted \<longleftrightarrow> 0 < d))"
proof -
  obtain rs w1 where g: "gatherA (map (\<lambda>(i, request). inventory_detail io options (en_products st ! i) request) wave) w = (rs, w1)" by fastforce
  note gathered = gather_asked [OF g]
  from assms g have w': "w' = w1" by (cases rs) (auto simp: inventory_wave_def act_defs)
  with gathered show "asked (w_log w') = asked (w_log w) @ map snd wave" by simp
  assume r: "r = Inr (st', exhausted)"
  with assms g obtain xs where xs: "rs = Inr xs" "apply_results (zip (map fst wave) xs) (st, False) = Inr (st', exhausted)"
    by (cases rs) (auto simp: inventory_wave_def act_defs)
  from apply_results_counts [OF xs(2)] gathered xs(1) show "map unvaried (en_products st') = map unvaried (en_products st) \<and>
      (\<exists>f d. en_failures st' = en_failures st + f \<and> en_deferred st' = en_deferred st + d \<and> f + d \<le> length wave \<and> (exhausted \<longleftrightarrow> 0 < d))"
    by simp
qed

text \<open>
  How the counters of a step relate to the requests it made: \<open>n\<close> products to ask for, \<open>later\<close> products behind
  them, \<open>k\<close> requests made, \<open>f\<close> failures and \<open>d\<close> deferred products.
\<close>

definition accounted :: "nat \<Rightarrow> nat \<Rightarrow> nat \<Rightarrow> nat \<Rightarrow> nat \<Rightarrow> bool" where
  "accounted n later k f d \<longleftrightarrow> k \<le> n \<and>
     (if d = 0 then k = n \<and> f \<le> n else n - k + later \<le> f + d \<and> f + d \<le> n + later)"

lemma accounted_step:
  "accounted (n - a) later k f d \<Longrightarrow> a \<le> n \<Longrightarrow> g \<le> a \<Longrightarrow> accounted n later (a + k) (g + f) d"
  by (auto simp: accounted_def split: if_splits)

lemma inventory_waves_counts:
  assumes "inventory_waves io options url later pending st w = (r, w')"
  shows "\<exists>k \<le> length pending. asked (w_log w') = asked (w_log w) @ take k (map snd pending) \<and>
    (\<forall>st'. r = Inr st' \<longrightarrow> map unvaried (en_products st') = map unvaried (en_products st) \<and>
      (\<exists>f d. en_failures st' = en_failures st + f \<and> en_deferred st' = en_deferred st + d \<and> accounted (length pending) later k f d))"
  using assms
proof (induction io options url later pending st arbitrary: w r rule: inventory_waves.induct)
  case (1 io options url later pending st)
  let ?a = "inventory_admission_count io options (map snd pending) url (w_env w)"
  note step = 1(2) [unfolded inventory_waves.simps [of io options url later pending st]]
  show ?case
  proof (cases "pending = [] \<or> ?a = 0")
    case True
    show ?thesis
    proof (cases "pending = []")
      case empty: True
      with step show ?thesis by (auto simp: act_defs accounted_def)
    next
      case False
      with True step have "r = Inr (st\<lparr>en_deferred := en_deferred st + (length pending + later)\<rparr>)" "w' = w"
        by (auto simp: act_defs ask_def)
      moreover from False have "accounted (length pending) later 0 0 (length pending + later)" by (simp add: accounted_def)
      ultimately show ?thesis by (intro exI [of _ 0]) auto
    qed
  next
    case False
    obtain r1 w1 where wave: "inventory_wave io options (take ?a pending) st w = (r1, w1)" by fastforce
    note counts = inventory_wave_counts [OF wave]
    let ?k = "min ?a (length pending)"
    have first: "asked (w_log w1) = asked (w_log w) @ take ?k (map snd pending)"
      using counts(1) by (metis length_map min.commute take_map take_take take_all_iff nle_le)
    show ?thesis
    proof (cases r1)
      case (Inl e)
      with step False wave have "r = Inl e" "w' = w1" by (auto simp: act_defs ask_def)
      with first show ?thesis by (intro exI [of _ ?k]) auto
    next
      case (Inr res)
      then obtain st1 ex where r1: "r1 = Inr (st1, ex)" by (cases res) auto
      from counts(2) [OF r1] obtain f1 d1 where one: "map unvaried (en_products st1) = map unvaried (en_products st)"
        "en_failures st1 = en_failures st + f1" "en_deferred st1 = en_deferred st + d1" "f1 + d1 \<le> ?k" "ex \<longleftrightarrow> 0 < d1"
        by (auto simp: min.commute)
      show ?thesis
      proof (cases ex)
        case True
        with step False wave r1 have "r = Inr (st1\<lparr>en_deferred := en_deferred st1 + length (drop ?a pending) + later\<rparr>)" "w' = w1"
          by (auto simp: act_defs ask_def)
        with first one True show ?thesis
          by (intro exI [of _ ?k]) (auto simp: accounted_def)
      next
        case not_ex: False
        with step False wave r1 have rec: "inventory_waves io options url later (drop ?a pending) st1 w1 = (r, w')"
          by (auto simp: act_defs ask_def)
        from 1(1) [OF _ _ not_ex rec] False obtain k where k: "k \<le> length (drop ?a pending)"
          "asked (w_log w') = asked (w_log w1) @ take k (map snd (drop ?a pending))"
          "\<And>st'. r = Inr st' \<Longrightarrow> map unvaried (en_products st') = map unvaried (en_products st1) \<and>
            (\<exists>f d. en_failures st' = en_failures st1 + f \<and> en_deferred st' = en_deferred st1 + d \<and>
              accounted (length (drop ?a pending)) later k f d)" by blast
        have all: "asked (w_log w') = asked (w_log w) @ take (?k + k) (map snd pending)"
          using first k(1,2) by (auto simp: take_add drop_map min_def)
        have "map unvaried (en_products st') = map unvaried (en_products st) \<and>
            (\<exists>f d. en_failures st' = en_failures st + f \<and> en_deferred st' = en_deferred st + d \<and>
              accounted (length pending) later (?k + k) f d)" if r: "r = Inr st'" for st'
        proof -
          from k(3) [OF r] obtain f d where fd: "map unvaried (en_products st') = map unvaried (en_products st1)"
            "en_failures st' = en_failures st1 + f" "en_deferred st' = en_deferred st1 + d" "accounted (length pending - ?a) later k f d" by auto
          moreover have "length pending - ?a = length pending - ?k" by simp
          ultimately have "accounted (length pending - ?k) later k f d" by simp
          from accounted_step [OF this, of f1] one not_ex have "accounted (length pending) later (?k + k) (f1 + f) d" by simp
          with fd one not_ex show ?thesis by (intro conjI exI [of _ "f1 + f"] exI [of _ d]) auto
        qed
        with all k(1) show ?thesis by (intro exI [of _ "?k + k"]) auto
      qed
    qed
  qed
qed

lemma pending_append: "pending_requests options origin ps (xs @ ys) = pending_requests options origin ps xs @ pending_requests options origin ps ys"
  by (simp add: pending_requests_def)

lemma pending_length: "length (pending_requests options origin ps xs) \<le> length xs"
  by (induction xs) (auto simp: pending_requests_def split: option.splits)

lemma pending_unvaried:
  assumes "map unvaried ps = map unvaried qs" "\<forall>i \<in> set xs. i < length ps"
  shows "pending_requests options origin ps xs = pending_requests options origin qs xs"
proof -
  have "inventory_request options (ps ! i) origin = inventory_request options (qs ! i) origin" if "i \<in> set xs" for i
    using assms that by (metis request_unvaried nth_map map_eq_imp_length_eq)
  then show ?thesis by (auto simp: pending_requests_def intro!: arg_cong [where f = concat] map_cong)
qed

lemma inventory_batches_counts:
  assumes "inventory_batches io options origin url todo st w = (r, w')" "en_deferred st = 0" "\<forall>i \<in> set todo. i < length (en_products st)"
  shows "\<exists>k. k \<le> length (pending_requests options origin (en_products st) todo) \<and>
    asked (w_log w') = asked (w_log w) @ take k (map snd (pending_requests options origin (en_products st) todo)) \<and>
    (\<forall>st'. r = Inr st' \<longrightarrow> map unvaried (en_products st') = map unvaried (en_products st) \<and>
      (en_deferred st' = 0 \<longrightarrow> k = length (pending_requests options origin (en_products st) todo)) \<and>
      (\<exists>f. en_failures st' = en_failures st + f \<and> length todo \<le> k + f + en_deferred st' \<and> f + en_deferred st' \<le> length todo))"
  using assms
proof (induction io options origin url todo st arbitrary: w r rule: inventory_batches.induct)
  case (1 io options origin url todo st)
  let ?n = "so_inventory_batch_size options"
  let ?batch = "take ?n todo" and ?later = "drop ?n todo"
  let ?pending = "pending_requests options origin (en_products st)"
  let ?st0 = "st\<lparr>en_failures := en_failures st + (length ?batch - length (?pending ?batch))\<rparr>"
  note step = 1(2) [unfolded inventory_batches.simps [of io options origin url todo st]]
  have split: "?pending todo = ?pending ?batch @ ?pending ?later" by (metis append_take_drop_id pending_append)
  have fits: "length (?pending ?batch) \<le> length ?batch" by (rule pending_length)
  have total: "length todo = length ?batch + length ?later" by simp
  show ?case
  proof (cases "todo = [] \<or> ?n = 0")
    case True
    with step 1(3) show ?thesis by (cases "todo = []") (auto simp: act_defs pending_requests_def intro!: exI [of _ 0])
  next
    case False
    obtain r1 w1 where waves: "inventory_waves io options url (length ?later) (?pending ?batch) ?st0 w = (r1, w1)" by fastforce
    from inventory_waves_counts [OF waves] obtain k where k: "k \<le> length (?pending ?batch)"
      "asked (w_log w1) = asked (w_log w) @ take k (map snd (?pending ?batch))"
      "\<And>st'. r1 = Inr st' \<Longrightarrow> map unvaried (en_products st') = map unvaried (en_products st) \<and>
        (\<exists>f d. en_failures st' = en_failures ?st0 + f \<and> en_deferred st' = en_deferred ?st0 + d \<and>
          accounted (length (?pending ?batch)) (length ?later) k f d)" by auto
    from k(1,2) have asked1: "asked (w_log w1) = asked (w_log w) @ take k (map snd (?pending todo))" unfolding split by simp
    show ?thesis
    proof (cases r1)
      case (Inl e)
      with step False waves have "r = Inl e" "w' = w1" by (auto simp: act_defs Let_def)
      with asked1 k(1) split show ?thesis by (intro exI [of _ k]) auto
    next
      case (Inr st1)
      from k(3) [OF Inr] obtain f d where one: "map unvaried (en_products st1) = map unvaried (en_products st)"
        "en_failures st1 = en_failures ?st0 + f" "en_deferred st1 = d" "accounted (length (?pending ?batch)) (length ?later) k f d"
        using 1(3) by auto
      show ?thesis
      proof (cases "d = 0")
        case deferred: False
        with step False waves Inr one(3) have "r = Inr st1" "w' = w1" by (auto simp: act_defs Let_def)
        moreover have "length todo \<le> k + (length ?batch - length (?pending ?batch) + f) + d"
          "length ?batch - length (?pending ?batch) + f + d \<le> length todo"
          using one(4) deferred fits total by (simp_all only: accounted_def if_False) linarith+
        moreover have "en_failures st1 = en_failures st + (length ?batch - length (?pending ?batch) + f)" using one(2) by simp
        moreover have "k \<le> length (?pending todo)" using k(1) split by simp
        ultimately show ?thesis using asked1 one(1,3) deferred by - (rule exI [of _ k], auto)
      next
        case True
        with one(4) have all: "k = length (?pending ?batch)" "f \<le> k" by (auto simp: accounted_def)
        obtain r2 w2 where turn: "(if ?later \<noteq> [] then call (\<lambda>_. CallRotate RotExplicit) (io_rotate io RotExplicit) else ret ()) w1 = (r2, w2)"
          by fastforce
        then have asked2: "asked (w_log w2) = asked (w_log w1)"
          by (auto simp: call_def ret_def split: if_splits prod.splits)
        show ?thesis
        proof (cases r2)
          case (Inl e)
          with step False waves Inr one(3) True turn have "r = Inl e" "w' = w2" by (auto simp: act_defs Let_def split: if_splits)
          with asked1 asked2 k(1) split show ?thesis by (intro exI [of _ k]) auto
        next
          case unit: (Inr u)
          with step False waves Inr one(3) True turn have rec: "inventory_batches io options origin url ?later st1 w2 = (r, w')"
            by (auto simp: act_defs Let_def split: if_splits)
          have bounds: "\<forall>i \<in> set todo. i < length (en_products st1)"
            using 1(4) one(1) by (metis map_eq_imp_length_eq)
          have same: "pending_requests options origin (en_products st1) ?later = ?pending ?later"
            using one(1) bounds by (intro pending_unvaried) (auto dest: in_set_dropD)
          have behind: "\<forall>i \<in> set ?later. i < length (en_products st1)" using bounds by (auto dest: in_set_dropD)
          from 1(1) [OF _ _ refl refl refl _ rec _ behind] False one(3) True
          obtain l where l: "l \<le> length (?pending ?later)"
            "asked (w_log w') = asked (w_log w2) @ take l (map snd (?pending ?later))"
            "\<And>st'. r = Inr st' \<Longrightarrow> map unvaried (en_products st') = map unvaried (en_products st1) \<and>
              (en_deferred st' = 0 \<longrightarrow> l = length (?pending ?later)) \<and>
              (\<exists>g. en_failures st' = en_failures st1 + g \<and> length ?later \<le> l + g + en_deferred st' \<and> g + en_deferred st' \<le> length ?later)"
            unfolding same by auto
          have "asked (w_log w') = asked (w_log w) @ take (k + l) (map snd (?pending todo))"
            using asked1 asked2 l(2) all(1) split by (simp add: take_add)
          moreover have "map unvaried (en_products st') = map unvaried (en_products st) \<and>
              (en_deferred st' = 0 \<longrightarrow> k + l = length (?pending todo)) \<and>
              (\<exists>f. en_failures st' = en_failures st + f \<and> length todo \<le> k + l + f + en_deferred st' \<and> f + en_deferred st' \<le> length todo)"
            if r: "r = Inr st'" for st'
          proof -
            from l(3) [OF r] obtain g where g: "map unvaried (en_products st') = map unvaried (en_products st1)"
              "en_deferred st' = 0 \<longrightarrow> l = length (?pending ?later)" "en_failures st' = en_failures st1 + g"
              "length ?later \<le> l + g + en_deferred st'" "g + en_deferred st' \<le> length ?later" by (elim conjE exE)
            let ?f = "length ?batch - length (?pending ?batch) + f + g"
            have "en_failures st' = en_failures st + ?f" using g(3) one(2) by simp
            moreover have "length todo \<le> k + l + ?f + en_deferred st'" using g(4) all fits total by linarith
            moreover have "?f + en_deferred st' \<le> length todo" using g(5) all fits total by linarith
            moreover have "en_deferred st' = 0 \<longrightarrow> k + l = length (?pending todo)" using g(2) all(1) split by simp
            ultimately show ?thesis using g(1) one(1) by metis
          qed
          moreover have "k + l \<le> length (?pending todo)" using k(1) l(1) split by simp
          ultimately show ?thesis by blast
        qed
      qed
    qed
  qed
qed

text \<open>
  C39. Enrichment asks for each product at most once, in the order of the feed, and accounts for every product it
  does not enrich.  The requests made are a prefix of the requests of the products with a handle, all of them
  unless some were deferred; the products not asked for are counted as failures or as deferred, never more are
  counted than there are, and a diagnostic tells the count whenever it is not zero.  Nothing but the variants of
  a product changes.
\<close>

theorem inventory_enrichment:
  assumes "enrich_inventory io options products origin url w = (Inr (products', diagnostics), w')"
    and "so_inventory_method options \<noteq> InventoryNone"
  shows "map unvaried products' = map unvaried products \<and>
    (\<exists>k failures deferred. skipped_diagnostic failures deferred = Inr diagnostics \<and>
      asked (w_log w') = asked (w_log w) @ take k (List.map_filter (\<lambda>p. inventory_request options p origin) products) \<and>
      (deferred = 0 \<longrightarrow> k = length (List.map_filter (\<lambda>p. inventory_request options p origin) products)) \<and>
      length products \<le> k + failures + deferred \<and> failures + deferred \<le> length products)"
proof (cases "products = []")
  case True
  with assms show ?thesis by (auto simp: enrich_inventory_def act_defs skipped_diagnostic_def List.map_filter_def intro!: exI [of _ 0])
next
  case False
  let ?st = "\<lparr>en_products = products, en_failures = 0, en_deferred = 0\<rparr>"
  obtain r w1 where run: "inventory_batches io options origin url [0..<length products] ?st w = (r, w1)" by fastforce
  with assms False obtain st where st: "r = Inr st" "w' = w1" "en_products st = products'"
    "skipped_diagnostic (en_failures st) (en_deferred st) = Inr diagnostics"
    by (cases r) (auto simp: enrich_inventory_def act_defs split: sum.splits)
  have pending: "map snd (pending_requests options origin products [0..<length products]) =
      List.map_filter (\<lambda>p. inventory_request options p origin) products"
  proof -
    have "map snd (pending_requests options origin ps xs) = List.map_filter (\<lambda>p. inventory_request options p origin) (map ((!) ps) xs)" for ps xs
      by (induction xs) (auto simp: pending_requests_def List.map_filter_simps split: option.splits)
    from this [of products "[0..<length products]"] show ?thesis by (simp add: map_nth)
  qed
  have "length (pending_requests options origin products [0..<length products]) =
      length (List.map_filter (\<lambda>p. inventory_request options p origin) products)" using pending by (metis length_map)
  with inventory_batches_counts [OF run] st pending obtain k where
    "map unvaried products' = map unvaried products" "asked (w_log w') = asked (w_log w) @ take k (List.map_filter (\<lambda>p. inventory_request options p origin) products)"
    "en_deferred st = 0 \<longrightarrow> k = length (List.map_filter (\<lambda>p. inventory_request options p origin) products)"
    "length products \<le> k + en_failures st + en_deferred st" "en_failures st + en_deferred st \<le> length products" by auto
  with st(4) show ?thesis by metis
qed

subsection \<open>Witnesses\<close>

text \<open>A connector whose environment is its budget, and one product with a handle.\<close>

definition budget_io :: "memory_budget connector_io" where
  "budget_io = \<lparr>io_request = (\<lambda>request b. (Inl BudgetExhausted, b)), io_rotate = (\<lambda>_ b. (Inr (), b)), io_clock = (\<lambda>b. (Inr 0, b)),
     io_cancelled = (\<lambda>_. False), io_has_budget = True, io_affordable = (\<lambda>r b. mb_affordable (req_estimated_bytes r) b),
     io_maximum_requests = (\<lambda>b. case mb_maximum_requests b of None \<Rightarrow> AttrNone | Some m \<Rightarrow> AttrInt m),
     io_used_requests = (\<lambda>b. AttrInt (mb_requests b)), io_float = (\<lambda>s. s), io_decode_message = (\<lambda>_. []), io_unescape = (\<lambda>s. s),
     io_instant = (\<lambda>_. Inr None), io_failure_text = (\<lambda>_. [])\<rparr>"

definition json_options :: shopify_options where
  "json_options = \<lparr>so_currency = None, so_vat_status = None, so_page_size = 2, so_page_limit = 3, so_inventory_method = InventoryProductJson,
     so_inventory_section_id = None, so_inventory_batch_size = 1, so_inventory_request_estimated_bytes = 2,
     so_discovery_request_estimated_bytes = 3\<rparr>"

definition detail_request :: transport_request where
  "detail_request = shopify_request ''u'' [] [] PurposeEnrichment PriorityOptional False 2"

theorem inventory_admission_witness:
  "inventory_admission_count budget_io json_options [detail_request, detail_request] ''d'' (memory_budget_init (Some 9) (Some 6)) \<ge> 1 \<and>
   \<not> inventory_admission_count budget_io json_options [detail_request, detail_request] ''d'' (memory_budget_init (Some 9) (Some 6)) \<ge> 2"
proof -
  let ?b = "memory_budget_init (Some 9) (Some 6)"
  have backed: "budget_backed budget_io (\<lambda>b. b)" by (simp add: budget_backed_def budget_io_def)
  have "\<exists>b. authorize_all [2] ?b = Some b \<and> mb_affordable 3 b"
    by (simp add: mb_authorize_def mb_affordable_def memory_budget_init_def Let_def)
  moreover have "\<nexists>b. authorize_all [2, 2] ?b = Some b \<and> mb_affordable 3 b"
    by (simp add: mb_authorize_def mb_affordable_def memory_budget_init_def Let_def)
  ultimately show ?thesis
    using inventory_admission [OF backed, of 1 "[detail_request, detail_request]" json_options "''d''" ?b]
      inventory_admission [OF backed, of 2 "[detail_request, detail_request]" json_options "''d''" ?b]
    by (simp add: json_options_def detail_request_def shopify_request_def numeral_2_eq_2)
qed

definition json_io :: "unit connector_io" where
  "json_io = \<lparr>io_request = (\<lambda>request env. (Inr \<lparr>resp_status = 200, resp_headers = [], resp_content = ''{}'',
       resp_final_url = req_url request, resp_route = route_default, resp_from_cache = False, resp_elapsed_seconds = 0,
       resp_accounting = None\<rparr>, env)),
     io_rotate = (\<lambda>_ env. (Inr (), env)), io_clock = (\<lambda>env. (Inr 0, env)), io_cancelled = (\<lambda>_. False), io_has_budget = False,
     io_affordable = (\<lambda>_ _. True), io_maximum_requests = (\<lambda>_. AttrNone), io_used_requests = (\<lambda>_. AttrNone), io_float = (\<lambda>s. s),
     io_decode_message = (\<lambda>_. []), io_unescape = (\<lambda>s. s), io_instant = (\<lambda>_. Inr None), io_failure_text = (\<lambda>_. [])\<rparr>"

definition plain_product :: "(string, json) odict" where
  "plain_product = [(''handle'', JStr ''clay'')]"

lemma sample_enriched:
  "(case enrich_inventory json_io json_options [plain_product] ''h'' ''d'' \<lparr>w_env = (), w_log = []\<rparr> of
     (Inr (ps, ds), w') \<Rightarrow> ps = [plain_product] \<and> ds = [] | _ \<Rightarrow> False) \<and>
   so_inventory_method json_options \<noteq> InventoryNone \<and> inventory_request json_options plain_product ''h'' \<noteq> None"
  by code_simp

theorem inventory_enrichment_witness:
  "\<exists>w'. enrich_inventory json_io json_options [plain_product] ''h'' ''d'' \<lparr>w_env = (), w_log = []\<rparr> = (Inr ([plain_product], []), w') \<and>
     (\<exists>request. inventory_request json_options plain_product ''h'' = Some request \<and> asked (w_log w') = [request])"
proof -
  obtain w' where run: "enrich_inventory json_io json_options [plain_product] ''h'' ''d'' \<lparr>w_env = (), w_log = []\<rparr> =
      (Inr ([plain_product], []), w')"
    using sample_enriched by (auto split: prod.splits sum.splits)
  obtain request where request: "inventory_request json_options plain_product ''h'' = Some request" using sample_enriched by blast
  then have all: "List.map_filter (\<lambda>p. inventory_request json_options p ''h'') [plain_product] = [request]"
    by (simp add: List.map_filter_simps)
  from inventory_enrichment [OF run] sample_enriched obtain k failures deferred where
    "skipped_diagnostic failures deferred = Inr []" "asked (w_log w') = take k [request]" "deferred = 0 \<longrightarrow> k = 1"
    unfolding all by auto
  then have "asked (w_log w') = [request]"
    by (cases "failures + deferred = 0") (auto simp: skipped_diagnostic_def res_bind_Inr)
  with run request show ?thesis by blast
qed

end
