(* ===== verification/Connector_Contract.thy ===== *)
theory Connector_Contract
  imports Runtime
begin

section \<open>What the runtime relies on of a connector\<close>

text \<open>
  \<^verbatim>\<open>CommerceConnector.collect\<close> is an asynchronous generator of pages.  The runtime hands its pages on
  (\<^verbatim>\<open>_CollectionLifecycleConnector\<close>); the consumers of a collection rely on the pages being a stream.  The locale
  states that contract, and what the runtime delivers to its caller whenever a connector keeps it.
\<close>

text \<open>Pages are valid and numbered from \<open>n\<close>, and only the last may end the collection.\<close>

definition page_stream :: "nat \<Rightarrow> commerce_snapshot entity_page list \<Rightarrow> bool" where
  "page_stream n ps \<longleftrightarrow> list_all (\<lambda>p. page_validate p = Inr p) ps \<and> map pg_sequence ps = map int [n..<n + length ps] \<and>
     list_all (\<lambda>p. \<not> pg_terminal p) (butlast ps)"

lemma page_stream_append:
  assumes "page_stream n xs" "list_all (\<lambda>p. \<not> pg_terminal p) xs" "page_stream (n + length xs) ys"
  shows "page_stream n (xs @ ys)"
proof -
  have "[n..<n + length (xs @ ys)] = [n..<n + length xs] @ [n + length xs..<n + length xs + length ys]"
    by (metis add.assoc length_append upt_add_eq_append le_add1)
  with assms show ?thesis by (auto simp: page_stream_def butlast_append simp del: upt_Suc)
qed

text \<open>How the iteration of the runtime ends when the generator returns or raises an exception of type \<open>t\<close>.\<close>

definition stream_ending :: "string \<Rightarrow> exn + unit \<Rightarrow> stream_end" where
  "stream_ending t r = (case r of Inr _ \<Rightarrow> StreamDone | Inl _ \<Rightarrow> StreamRaised t)"

text \<open>The runtime changes neither the number nor the state of a page.\<close>

lemma runtime_page_kept:
  assumes "runtime_page p = Inr q"
  shows "pg_sequence q = pg_sequence p" "pg_terminal q = pg_terminal p" "pg_resume_after q = pg_resume_after p"
    "pg_enumeration_intact q = pg_enumeration_intact p" "length (pg_items q) = length (pg_items p)"
  using assms by (auto simp: runtime_page_def res_bind_Inr)

lemma delivered_kept:
  assumes "map Inr out = map runtime_page ps"
  shows "map pg_sequence out = map pg_sequence ps" "map pg_terminal out = map pg_terminal ps" "map pg_resume_after out = map pg_resume_after ps"
proof -
  have n: "length out = length ps" using assms by (metis length_map)
  have "runtime_page (ps ! i) = Inr (out ! i)" if "i < length ps" for i
    using assms that n by (metis nth_map)
  note kept = runtime_page_kept [OF this]
  show "map pg_sequence out = map pg_sequence ps" "map pg_terminal out = map pg_terminal ps" "map pg_resume_after out = map pg_resume_after ps"
    using n kept by (auto intro: nth_equalityI)
qed

locale paged_connector =
  fixes collect :: "'q \<Rightarrow> ('w, unit) act"
    and pages :: "'w \<Rightarrow> commerce_snapshot entity_page list"
    and admissible :: "'q \<Rightarrow> bool"
    and cancelled :: "'w \<Rightarrow> bool"
  assumes collect_stream: "admissible q \<Longrightarrow> collect q w = (r, w') \<Longrightarrow>
      \<exists>ps. pages w' = pages w @ ps \<and> page_stream 0 ps \<and> (r = Inr () \<longrightarrow> cancelled w' \<or> ps \<noteq> [] \<and> pg_terminal (last ps))"
begin

text \<open>
  The pages the runtime hands out are numbered from zero without a gap, are safe, and only the last may be terminal;
  a collection that completes has handed out all pages, the last of which is terminal unless it was cancelled.
\<close>

lemma delivered_stream:
  assumes "admissible q" "collect q w = (r, w')" "pages w' = pages w @ ps"
    and "lifecycle_collect telemetry ctx deadline ps (stream_ending t r) = (events, out, result)"
  shows "map pg_sequence out = map int [0..<length out] \<and> list_all page_safe out \<and>
    list_all (\<lambda>p. \<not> pg_terminal p) (butlast out) \<and> map pg_resume_after out = map pg_resume_after (take (length out) ps) \<and>
    (result = StreamDone \<longrightarrow> length out = length ps \<and> (cancelled w' \<or> out \<noteq> [] \<and> pg_terminal (last out)))"
proof (cases "deadline = Some False")
  case True
  with assms(4) show ?thesis by (auto simp: lifecycle_collect_def Let_def)
next
  case False
  from collect_stream [OF assms(1,2)] assms(3) have stream: "page_stream 0 ps"
    "r = Inr () \<longrightarrow> cancelled w' \<or> ps \<noteq> [] \<and> pg_terminal (last ps)" by auto
  obtain evs out' result' where d: "deliver_pages ctx ps (stream_ending t r) = (evs, out', result')" by (metis prod_cases3)
  with False assms(4) have out: "out' = out" "result' = result" by (auto simp: lifecycle_collect_def Let_def)
  note spec = deliver_pages_spec [OF d, unfolded out]
  then have shown: "map Inr out = map runtime_page (take (length out) ps)" by blast
  note kept = delivered_kept [OF shown]
  have short: "length out \<le> length ps" using spec by blast
  have safe: "list_all page_safe out" by (rule pages_safe [OF shown])
  have "map pg_sequence out = take (length out) (map pg_sequence ps)" using kept(1) by (simp add: take_map)
  also have "map pg_sequence ps = map int [0..<length ps]" using stream(1) by (simp add: page_stream_def)
  also have "take (length out) (map int [0..<length ps]) = map int [0..<length out]" using short by (simp add: take_map)
  finally have numbers: "map pg_sequence out = map int [0..<length out]" .
  have same: "pg_terminal (out ! i) = pg_terminal (ps ! i)" if "i < length out" for i
    using arg_cong [OF kept(2), of "\<lambda>xs. xs ! i"] that short by simp
  have ends: "list_all (\<lambda>p. \<not> pg_terminal p) (butlast out)"
    using stream(1) same short by (auto simp: page_stream_def list_all_length nth_butlast)
  have complete: "length out = length ps \<and> (cancelled w' \<or> out \<noteq> [] \<and> pg_terminal (last out))" if "result = StreamDone"
  proof -
    from that spec have whole: "length out = length ps" "stream_ending t r = StreamDone" by auto
    then have "r = Inr ()" by (cases r) (auto simp: stream_ending_def)
    moreover have "pg_terminal (last out) = pg_terminal (last ps)" if "ps \<noteq> []"
      using kept(2) whole that by (metis last_map length_0_conv take_all_iff order_refl)
    ultimately show ?thesis using stream(2) whole(1) by auto
  qed
  from numbers safe ends kept(3) complete show ?thesis by simp
qed

end

end
