(* ===== verification/Shopify.thy ===== *)
theory Shopify
  imports Shopify_Inventory Checkpoints Connector_Contract
begin

section \<open>The Shopify connector\<close>

text \<open>
  \<^verbatim>\<open>ShopifyConnector\<close> of \<^verbatim>\<open>connectors/shopify.py\<close>: the walk over the pages of the partitions of a shop's product
  feed, its cursors, and the pages it yields.  A yielded page is a call of the history.
\<close>

subsection \<open>Capabilities, options and cursors\<close>

definition shopify_capabilities :: connector_capabilities where
  "shopify_capabilities = \<lparr>cc_snapshot_fields = UNIV, cc_refresh_modes = {FullRefresh}, cc_stock_kinds = {ExactQuantity, UnknownQuantity},
     cc_supports_incremental_cursor = False, cc_supports_category_filter = False, cc_supports_documents = True,
     cc_browser = RequirementNever, cc_shared_edge = Some ''edge:shopify''\<rparr>"

definition vat_json :: "vat_status option \<Rightarrow> json" where
  "vat_json v = (case v of None \<Rightarrow> JNull | Some VatInclusive \<Rightarrow> JStr ''inclusive'' | Some VatExclusive \<Rightarrow> JStr ''exclusive''
     | Some VatUnknown \<Rightarrow> JStr ''unknown'')"

fun method_value :: "inventory_method \<Rightarrow> string" where
  "method_value InventoryNone = ''none''"
| "method_value InventoryProductJson = ''product_json''"
| "method_value InventoryProductHtml = ''product_html''"

definition json_opt :: "string option \<Rightarrow> json" where
  "json_opt s = (case s of None \<Rightarrow> JNull | Some x \<Rightarrow> JStr x)"

text \<open>\<^verbatim>\<open>self.options.model_dump(mode="json")\<close>.\<close>

definition options_dump :: "shopify_options \<Rightarrow> (string, json) odict" where
  "options_dump options = [(''currency'', json_opt (so_currency options)), (''vat_status'', vat_json (so_vat_status options)),
     (''page_size'', JInt (int (so_page_size options))), (''page_limit'', JInt (int (so_page_limit options))),
     (''inventory_method'', JStr (method_value (so_inventory_method options))),
     (''inventory_section_id'', json_opt (so_inventory_section_id options)),
     (''inventory_batch_size'', JInt (int (so_inventory_batch_size options))),
     (''inventory_request_estimated_bytes'', JInt (int (so_inventory_request_estimated_bytes options))),
     (''discovery_request_estimated_bytes'', JInt (int (so_discovery_request_estimated_bytes options)))]"

definition shopify_checkpoint :: "shopify_options \<Rightarrow> collection_request \<Rightarrow> string \<Rightarrow> json \<Rightarrow> exn + connector_checkpoint" where
  "shopify_checkpoint options request lineage resume_after =
     build_checkpoint ''shopify'' ''1'' request lineage resume_after (options_dump options)"

definition resume_cursor :: "json \<Rightarrow> exn + string \<times> nat \<times> nat" where
  "resume_cursor cursor = (case cursor of
     JDict d \<Rightarrow> (case json_get ''partition'' d of
         JStr part \<Rightarrow> (case (json_get ''page'' d, case map_of d ''offset'' of None \<Rightarrow> JInt 0 | Some v \<Rightarrow> v) of
             (JInt page, JInt offset) \<Rightarrow> if page < 1 \<or> offset < 0
               then Inl (ValueError ''CHECKPOINT_INVALID: Shopify cursor values are invalid'') else Inr (part, nat page, nat offset)
           | _ \<Rightarrow> Inl (ValueError ''CHECKPOINT_INVALID: Shopify cursor values are invalid''))
       | _ \<Rightarrow> Inl (ValueError ''CHECKPOINT_INVALID: Shopify cursor must be an object''))
   | _ \<Rightarrow> Inl (ValueError ''CHECKPOINT_INVALID: Shopify cursor must be an object''))"

definition shopify_resume :: "connector_checkpoint option \<Rightarrow> exn + (string \<times> nat \<times> nat) option" where
  "shopify_resume checkpoint = res_opt (\<lambda>c. resume_cursor (ck_resume_after c)) checkpoint"

definition feed_cursor :: "string \<Rightarrow> nat \<Rightarrow> nat \<Rightarrow> json" where
  "feed_cursor part page offset = JDict [(''partition'', JStr part), (''page'', JInt (int page)), (''offset'', JInt (int offset))]"

definition page_cursor :: "string \<Rightarrow> nat \<Rightarrow> json" where
  "page_cursor part page = JDict [(''partition'', JStr part), (''page'', JInt (int page))]"

subsection \<open>Pages without products\<close>

definition exn_text :: "'e connector_io \<Rightarrow> exn \<Rightarrow> string" where
  "exn_text io e = (case e of ValueError m \<Rightarrow> m | RuntimeErr m \<Rightarrow> m
     | ResponseBodyTooLarge maximum _ _ \<Rightarrow> ''response body exceeded the '' @ nat_str maximum @ ''-byte retention limit''
     | _ \<Rightarrow> io_failure_text io e)"

definition is_too_large :: "exn \<Rightarrow> bool" where
  "is_too_large e = (case e of ResponseBodyTooLarge _ _ _ \<Rightarrow> True | _ \<Rightarrow> False)"

definition incomplete_page ::
  "string \<Rightarrow> string \<Rightarrow> nat \<Rightarrow> nat \<Rightarrow> diagnostic_code \<Rightarrow> diagnostic_severity \<Rightarrow> string \<Rightarrow> bool \<Rightarrow> string \<Rightarrow> exn + commerce_snapshot entity_page" where
  "incomplete_page page_id part page sequence code severity message retryable url =
     res_bind (diagnostic_validate \<lparr>dg_code = code, dg_severity = severity, dg_message = message, dg_retryable = retryable,
         dg_affects_completeness = True, dg_url = Some url, dg_entity_id = None, dg_metadata = []\<rparr>) (\<lambda>d.
     page_validate \<lparr>pg_page_id = page_id, pg_partition_key = part, pg_sequence = int sequence, pg_items = [],
       pg_resume_after = Some (page_cursor part page), pg_terminal = True, pg_partition_terminal = False, pg_enumeration_intact = False,
       pg_discovered = 0, pg_diagnostics = [d]\<rparr>)"

definition page_url :: "string \<Rightarrow> nat \<Rightarrow> string" where
  "page_url endpoint page = endpoint @ ''?page='' @ nat_str page"

definition failure_page :: "'e connector_io \<Rightarrow> string \<Rightarrow> nat \<Rightarrow> nat \<Rightarrow> string \<Rightarrow> exn \<Rightarrow> exn + commerce_snapshot entity_page" where
  "failure_page io part page sequence endpoint e =
     incomplete_page (part @ '':'' @ nat_str page) part page sequence EnumerationIncomplete SeverityError
       (''Shopify feed page '' @ nat_str page @ '' failed: '' @ exn_text io e) (\<not> is_too_large e) (page_url endpoint page)"

definition budget_page :: "string \<Rightarrow> nat \<Rightarrow> nat \<Rightarrow> string \<Rightarrow> exn + commerce_snapshot entity_page" where
  "budget_page part page sequence endpoint =
     incomplete_page (part @ '':'' @ nat_str page @ '':budget'') part page sequence RequestBudgetExhausted SeverityError
       ''request budget cannot fund the next Shopify discovery page'' False (page_url endpoint page)"

definition page_limit_page :: "shopify_options \<Rightarrow> string \<Rightarrow> nat \<Rightarrow> nat \<Rightarrow> string \<Rightarrow> exn + commerce_snapshot entity_page" where
  "page_limit_page options part page sequence endpoint =
     incomplete_page (part @ '':limit'') part page sequence EnumerationIncomplete SeverityWarning
       (''Shopify page limit '' @ nat_str (so_page_limit options) @ '' reached'') False endpoint"

subsection \<open>The feed\<close>

definition shop_origin :: "string \<Rightarrow> exn + string" where
  "shop_origin url = res_bind (urlsplit url) (\<lambda>parsed. Inr (us_scheme parsed @ ''://'' @ us_netloc parsed))"

definition feed_endpoint :: "string \<Rightarrow> string \<Rightarrow> string" where
  "feed_endpoint origin part = (if part = ''main'' then origin @ ''/products.json'' else origin @ ''/collections/'' @ part @ ''/products.json'')"

definition feed_request :: "shopify_options \<Rightarrow> string \<Rightarrow> nat \<Rightarrow> transport_request" where
  "feed_request options endpoint page =
     shopify_request endpoint [(''limit'', QInt (int (so_page_size options))), (''page'', QInt (int page))] []
       PurposeDiscovery PriorityDiscovery True (so_discovery_request_estimated_bytes options)"

definition meta_currency :: "json \<Rightarrow> string option" where
  "meta_currency payload =
     (let value = (case payload of JDict d \<Rightarrow> json_get ''currency'' d | _ \<Rightarrow> JNull);
          code = (if json_true value then py_upper (py_strip (py_str value)) else []) in
      if length code = 3 \<and> list_all is_alpha_char code then Some code else None)"

definition shopify_currency :: "'e connector_io \<Rightarrow> shopify_options \<Rightarrow> string \<Rightarrow> ('e, string option) conn_act" where
  "shopify_currency io options origin =
     (let request = shopify_request (origin @ ''/meta.json'') [] [] PurposeEnrichment PriorityOptional False 10000 in
      bindA (ask (optional_affordable io options request (origin @ ''/products.json''))) (\<lambda>ok.
        if \<not> ok then ret None
        else catchA (bindA (conn_request io request) (\<lambda>response.
            if 400 \<le> resp_status response then ret None
            else bindA (liftA (json_value io response)) (\<lambda>payload. ret (meta_currency payload))))
          (\<lambda>e. if is_runtime_error e \<or> is_value_error e then ret None else raise e)))"

datatype feed_answer = FeedProducts "json list" | FeedFailed exn | FeedBudget

definition feed_products :: "json \<Rightarrow> json list" where
  "feed_products body = (case body of JDict d \<Rightarrow> (case map_of d ''products'' of Some (JList xs) \<Rightarrow> xs | _ \<Rightarrow> []) | _ \<Rightarrow> [])"

definition is_feed_failure :: "exn \<Rightarrow> bool" where
  "is_feed_failure e = (case e of ResponseBodyTooLarge _ _ _ \<Rightarrow> True | TransportFailure _ \<Rightarrow> True | ValueError _ \<Rightarrow> True | _ \<Rightarrow> False)"

definition fetch_feed :: "'e connector_io \<Rightarrow> transport_request \<Rightarrow> ('e, feed_answer) conn_act" where
  "fetch_feed io request =
     catchA (bindA (conn_request io request) (\<lambda>response.
         if 400 \<le> resp_status response
         then ret (FeedFailed (RuntimeErr (''Shopify feed failed with status '' @ nat_str (resp_status response))))
         else bindA (liftA (json_value io response)) (\<lambda>body. ret (FeedProducts (feed_products body)))))
       (\<lambda>e. if e = BudgetExhausted then ret FeedBudget else if is_feed_failure e then ret (FeedFailed e) else raise e)"

subsection \<open>A page of products\<close>

definition yield_page :: "exn + commerce_snapshot entity_page \<Rightarrow> ('e, unit) conn_act" where
  "yield_page page = bindA (liftA page) (\<lambda>p. record_call (CallYield p))"

text \<open>The products a page emits: those behind the offset, as far as the result limit allows.\<close>

definition selected_products :: "int option \<Rightarrow> int \<Rightarrow> nat \<Rightarrow> json list \<Rightarrow> json list" where
  "selected_products limit emitted offset products = (case limit of None \<Rightarrow> drop offset products
     | Some n \<Rightarrow> take (nat (n - emitted)) (drop offset products))"

definition limit_reached :: "int option \<Rightarrow> int \<Rightarrow> nat \<Rightarrow> nat \<Rightarrow> json list \<Rightarrow> bool" where
  "limit_reached limit emitted page_size offset products = (case limit of None \<Rightarrow> False
     | Some n \<Rightarrow> let selected = selected_products limit emitted offset products in
         n \<le> emitted + int (length selected) \<and> (length selected < length products - offset \<or> page_size \<le> length products))"

definition next_cursor ::
  "nat \<Rightarrow> string \<Rightarrow> string list \<Rightarrow> bool \<Rightarrow> nat \<Rightarrow> nat \<Rightarrow> bool \<Rightarrow> json list \<Rightarrow> json list \<Rightarrow> json option" where
  "next_cursor page_size part later last_partition page offset limited selected products =
     (if limited \<and> length selected < length products - offset then Some (feed_cursor part page (offset + length selected))
      else if length products < page_size then (if last_partition then None else Some (feed_cursor (hd later) 1 0))
      else Some (feed_cursor part (page + 1) 0))"

definition product_page ::
  "'e connector_io \<Rightarrow> shopify_options \<Rightarrow> collection_request \<Rightarrow> string \<Rightarrow> string option \<Rightarrow> string \<Rightarrow> string list \<Rightarrow> bool \<Rightarrow> nat \<Rightarrow> nat \<Rightarrow>
   int \<Rightarrow> nat \<Rightarrow> json list \<Rightarrow> ('e, unit) conn_act" where
  "product_page io options request origin cur part later last_partition page offset emitted sequence products =
     (let endpoint = feed_endpoint origin part; size = so_page_size options; limit = cq_result_limit request;
          selected = selected_products limit emitted offset products; limited = limit_reached limit emitted size offset products;
          partition_terminal = (limited \<or> length products < size) in
      bindA (enrich_inventory io options (dict_items selected) origin endpoint) (\<lambda>(raws, diagnostics).
      bindA (read_clock io) (\<lambda>observed.
      bindA (liftA (res_collect (\<lambda>raw. shopify_normalize (io_unescape io) (io_instant io) (so_vat_status options) raw
          (cq_source_id request) origin cur observed part) raws)) (\<lambda>snapshots.
      bindA (liftA (case limit of Some n \<Rightarrow> if limited \<and> n \<noteq> 0 then res_bind (result_limit_diagnostic n endpoint) (\<lambda>d. Inr [d]) else Inr []
          | None \<Rightarrow> Inr [])) (\<lambda>limit_diagnostics.
      yield_page (page_validate \<lparr>pg_page_id = part @ '':'' @ nat_str page, pg_partition_key = part, pg_sequence = int sequence,
        pg_items = snapshots, pg_resume_after = next_cursor size part later last_partition page offset limited selected products,
        pg_terminal = partition_terminal \<and> (limited \<or> last_partition), pg_partition_terminal = partition_terminal,
        pg_enumeration_intact = (\<not> limited), pg_discovered = int (length products),
        pg_diagnostics = diagnostics @ limit_diagnostics\<rparr>))))))"

subsection \<open>The walk\<close>

datatype flow = FlowStop | FlowOn int nat

function partition_pages ::
  "'e connector_io \<Rightarrow> shopify_options \<Rightarrow> collection_request \<Rightarrow> string \<Rightarrow> string option \<Rightarrow> string \<Rightarrow> string list \<Rightarrow> bool \<Rightarrow> nat \<Rightarrow> nat \<Rightarrow>
   int \<Rightarrow> nat \<Rightarrow> ('e, flow) conn_act" where
  "partition_pages io options request origin cur part later last_partition page offset emitted sequence =
     (let endpoint = feed_endpoint origin part; size = so_page_size options; limit = cq_result_limit request;
          discovery_request = feed_request options endpoint page in
      if so_page_limit options < page
      then thenA (yield_page (page_limit_page options part page sequence endpoint)) (ret FlowStop)
      else bindA (ask (io_cancelled io)) (\<lambda>cancelled.
        if cancelled then ret FlowStop
        else bindA (ask (affordable_request io discovery_request)) (\<lambda>affordable.
          if \<not> affordable then thenA (yield_page (budget_page part page sequence endpoint)) (ret FlowStop)
          else bindA (fetch_feed io discovery_request) (\<lambda>answer. case answer of
              FeedBudget \<Rightarrow> thenA (yield_page (budget_page part page sequence endpoint)) (ret FlowStop)
            | FeedFailed e \<Rightarrow> thenA (yield_page (failure_page io part page sequence endpoint e)) (ret FlowStop)
            | FeedProducts products \<Rightarrow>
                thenA (product_page io options request origin cur part later last_partition page offset emitted sequence products)
                  (let emitted' = emitted + int (length (selected_products limit emitted offset products)) in
                   if limit_reached limit emitted size offset products then ret FlowStop
                   else if length products < size then ret (FlowOn emitted' (sequence + 1))
                   else partition_pages io options request origin cur part later last_partition (page + 1) 0 emitted' (sequence + 1))))))"
  by pat_completeness auto
termination
  by (relation "measure (\<lambda>(_, options, _, _, _, _, _, _, page, _, _, _). Suc (so_page_limit options) - page)") auto

declare partition_pages.simps [simp del]

text \<open>A later partition starts at its first page; the last partition is recognized by its name.\<close>

fun collect_partitions ::
  "'e connector_io \<Rightarrow> shopify_options \<Rightarrow> collection_request \<Rightarrow> string \<Rightarrow> string option \<Rightarrow> string \<Rightarrow> string list \<Rightarrow> nat \<Rightarrow> nat \<Rightarrow>
   int \<Rightarrow> nat \<Rightarrow> ('e, unit) conn_act" where
  "collect_partitions io options request origin cur final [] page offset emitted sequence = ret ()"
| "collect_partitions io options request origin cur final (part # later) page offset emitted sequence =
     bindA (partition_pages io options request origin cur part later (part = final) page offset emitted sequence) (\<lambda>flow. case flow of
         FlowStop \<Rightarrow> ret ()
       | FlowOn emitted' sequence' \<Rightarrow> collect_partitions io options request origin cur final later 1 0 emitted' sequence')"

definition request_partitions :: "collection_request \<Rightarrow> string list" where
  "request_partitions request = (if cq_partitions request = [] then [''main''] else cq_partitions request)"

definition shopify_collect ::
  "'e connector_io \<Rightarrow> shopify_options \<Rightarrow> collection_request \<Rightarrow> connector_checkpoint option \<Rightarrow> ('e, unit) conn_act" where
  "shopify_collect io options request checkpoint =
     thenA (liftA (validate_connector_request shopify_capabilities ''Shopify does not support the requested contract'' ''shopify'' ''1''
         request checkpoint (options_dump options) None False))
     (bindA (liftA (shop_origin (cq_base_url request))) (\<lambda>origin.
      bindA (case so_currency options of Some c \<Rightarrow> ret (Some c) | None \<Rightarrow> shopify_currency io options origin) (\<lambda>cur.
      bindA (liftA (shopify_resume checkpoint)) (\<lambda>resume.
        let partitions = request_partitions request; final = last partitions in
        case resume of None \<Rightarrow> collect_partitions io options request origin cur final partitions 1 0 0 0
        | Some (part, page, offset) \<Rightarrow>
            if part \<notin> set partitions then raise (ValueError ''CHECKPOINT_INVALID: Shopify partition is not requested'')
            else collect_partitions io options request origin cur final (dropWhile (\<lambda>q. q \<noteq> part) partitions) page offset 0 0))))"

subsection \<open>The pages of a run\<close>

text \<open>The yielded pages of a history, oldest first; only \<open>yield_page\<close> adds to them.\<close>

definition pages_of :: "(connector_call, 'e) world \<Rightarrow> commerce_snapshot entity_page list" where
  "pages_of w = concat (map (\<lambda>c. case c of CallYield p \<Rightarrow> [p] | _ \<Rightarrow> []) (rev (w_log w)))"

definition silent :: "('e, 'a) conn_act \<Rightarrow> bool" where
  "silent m \<longleftrightarrow> (\<forall>ps. keeps (\<lambda>w. pages_of w = ps) m)"

lemma silentD: "silent m \<Longrightarrow> m w = (r, w') \<Longrightarrow> pages_of w' = pages_of w"
  unfolding silent_def using keepsD [of "\<lambda>v. pages_of v = pages_of w" m w r w'] by simp

lemma silent_intros:
  "silent (ret x)" "silent (raise e)" "silent (liftA q)" "silent m \<Longrightarrow> (\<And>x. silent (f x)) \<Longrightarrow> silent (bindA m f)"
  "silent n \<Longrightarrow> silent k \<Longrightarrow> silent (thenA n k)" "silent m \<Longrightarrow> (\<And>e. silent (h e)) \<Longrightarrow> silent (catchA m h)"
  unfolding silent_def
  by (simp_all add: keeps_ret keeps_raise keeps_liftA keeps_bindA keeps_thenA keeps_catchA)

lemma silent_ask: "silent (ask f)" by (simp add: silent_def keeps_def ask_def)

lemma silent_read_clock: "silent (read_clock io)"
  by (auto simp: silent_def keeps_def read_clock_def pages_of_def split: prod.splits)

lemma silent_send: "silent (conn_request io request)"
  by (auto simp: silent_def keeps_def conn_request_def call_def pages_of_def split: prod.splits)

lemma silent_rotate: "silent (call (\<lambda>_. CallRotate q) m)"
  by (auto simp: silent_def keeps_def call_def pages_of_def split: prod.splits)

lemmas silent_basics = silent_intros silent_ask silent_read_clock silent_send silent_rotate

lemma silent_detail: "silent (inventory_detail io options product request)"
  unfolding inventory_detail_def by (auto intro!: silent_basics)

lemma silent_gather: "list_all silent ms \<Longrightarrow> silent (gatherA ms)"
proof (induction ms)
  case (Cons m ms)
  then have "silent m" "silent (gatherA ms)" by simp_all
  from silentD [OF this(1)] silentD [OF this(2)] show ?case
    unfolding silent_def keeps_def by (auto split: prod.splits)
qed (simp add: silent_def keeps_def)

lemma silent_wave: "silent (inventory_wave io options wave st)"
  unfolding inventory_wave_def by (intro silent_basics silent_gather) (auto simp: list_all_iff silent_detail)

lemma silent_waves: "silent (inventory_waves io options url later pending st)"
proof (induction io options url later pending st rule: inventory_waves.induct)
  case (1 io options url later pending st)
  show ?case
    by (subst inventory_waves.simps) (auto intro!: silent_basics silent_wave 1)
qed

lemma silent_batches: "silent (inventory_batches io options origin url todo st)"
proof (induction io options origin url todo st rule: inventory_batches.induct)
  case (1 io options origin url todo st)
  show ?case
    by (subst inventory_batches.simps) (auto simp: Let_def intro!: silent_basics silent_waves 1)
qed

lemma silent_enrich: "silent (enrich_inventory io options products origin url)"
  unfolding enrich_inventory_def by (auto intro!: silent_basics silent_batches)

lemma silent_fetch: "silent (fetch_feed io request)"
  unfolding fetch_feed_def by (auto intro!: silent_basics)

lemma silent_currency: "silent (shopify_currency io options origin)"
  unfolding shopify_currency_def by (auto simp: Let_def intro!: silent_basics)

lemma yield_page_run:
  assumes "yield_page page w = (r, w')"
  shows "(\<exists>e. page = Inl e \<and> r = Inl e \<and> w' = w) \<or> (\<exists>p. page = Inr p \<and> r = Inr () \<and> pages_of w' = pages_of w @ [p])"
  using assms by (cases page) (auto simp: yield_page_def act_defs record_call_def pages_of_def)

subsection \<open>One page\<close>

text \<open>
  The items of a page are the snapshots of a segment of the feed, whose products may have been enriched in
  their variants.
\<close>

definition emits ::
  "'e connector_io \<Rightarrow> shopify_options \<Rightarrow> collection_request \<Rightarrow> string \<Rightarrow> string option \<Rightarrow> json list \<Rightarrow> commerce_snapshot entity_page \<Rightarrow> bool" where
  "emits io options request origin cur seg p \<longleftrightarrow> (\<exists>observed raws. map unvaried raws = map unvaried (dict_items seg) \<and>
     res_collect (\<lambda>raw. shopify_normalize (io_unescape io) (io_instant io) (so_vat_status options) raw (cq_source_id request) origin cur
       observed (pg_partition_key p)) raws = Inr (pg_items p))"

definition shown_page ::
  "'e connector_io \<Rightarrow> shopify_options \<Rightarrow> collection_request \<Rightarrow> string \<Rightarrow> string option \<Rightarrow> string \<Rightarrow> string list \<Rightarrow> bool \<Rightarrow> nat \<Rightarrow> nat \<Rightarrow>
   int \<Rightarrow> nat \<Rightarrow> json list \<Rightarrow> commerce_snapshot entity_page \<Rightarrow> bool" where
  "shown_page io options request origin cur part later final page offset emitted sequence products p \<longleftrightarrow>
     (let size = so_page_size options; limit = cq_result_limit request; selected = selected_products limit emitted offset products;
          limited = limit_reached limit emitted size offset products in
      page_validate p = Inr p \<and> pg_sequence p = int sequence \<and> emits io options request origin cur selected p \<and>
      pg_resume_after p = next_cursor size part later final page offset limited selected products \<and>
      pg_terminal p = ((limited \<or> length products < size) \<and> (limited \<or> final)) \<and> pg_enumeration_intact p = (\<not> limited))"

definition stopped_page :: "string \<Rightarrow> nat \<Rightarrow> nat \<Rightarrow> commerce_snapshot entity_page \<Rightarrow> bool" where
  "stopped_page part page sequence p \<longleftrightarrow> page_validate p = Inr p \<and> pg_sequence p = int sequence \<and> pg_items p = [] \<and>
     pg_resume_after p = Some (page_cursor part page) \<and> pg_terminal p \<and> \<not> pg_enumeration_intact p"

lemma page_validate_same: "page_validate p = Inr q \<Longrightarrow> q = p"
  by (auto simp: page_validate_def page_valid_state_def res_bind_Inr split: if_splits)

lemma incomplete_page_stopped:
  assumes "incomplete_page page_id part page sequence code severity message retryable url = Inr p"
  shows "stopped_page part page sequence p"
proof -
  obtain d where "page_validate \<lparr>pg_page_id = page_id, pg_partition_key = part, pg_sequence = int sequence, pg_items = [],
       pg_resume_after = Some (page_cursor part page), pg_terminal = True, pg_partition_terminal = False, pg_enumeration_intact = False,
       pg_discovered = 0, pg_diagnostics = [d]\<rparr> = Inr p" (is "page_validate ?q = _")
    using assms by (auto simp: incomplete_page_def res_bind_Inr)
  with page_validate_same [OF this] show ?thesis by (simp add: stopped_page_def)
qed

lemma enrich_unvaried:
  assumes "enrich_inventory io options products origin url w = (Inr (products', ds), w')"
  shows "map unvaried products' = map unvaried products"
proof (cases "so_inventory_method options = InventoryNone \<or> products = []")
  case True
  with assms show ?thesis by (auto simp: enrich_inventory_def act_defs)
next
  case False
  let ?st = "\<lparr>en_products = products, en_failures = 0, en_deferred = 0\<rparr>"
  obtain r w1 where run: "inventory_batches io options origin url [0..<length products] ?st w = (r, w1)" by fastforce
  with assms False obtain st where "r = Inr st" "en_products st = products'"
    by (cases r) (auto simp: enrich_inventory_def act_defs split: sum.splits)
  with inventory_batches_counts [OF run] show ?thesis by auto
qed

lemma product_page_run:
  assumes "product_page io options request origin cur part later final page offset emitted sequence products w = (r, w')"
  shows "(\<exists>e. r = Inl e \<and> pages_of w' = pages_of w) \<or>
    (\<exists>p. r = Inr () \<and> pages_of w' = pages_of w @ [p] \<and>
      shown_page io options request origin cur part later final page offset emitted sequence products p)"
proof -
  let ?size = "so_page_size options" and ?limit = "cq_result_limit request" and ?endpoint = "feed_endpoint origin part"
  let ?selected = "selected_products ?limit emitted offset products"
  let ?limited = "limit_reached ?limit emitted ?size offset products"
  let ?norm = "\<lambda>observed raw. shopify_normalize (io_unescape io) (io_instant io) (so_vat_status options) raw (cq_source_id request) origin cur observed part"
  let ?page = "\<lambda>snapshots diagnostics. \<lparr>pg_page_id = part @ '':'' @ nat_str page, pg_partition_key = part, pg_sequence = int sequence,
        pg_items = snapshots, pg_resume_after = next_cursor ?size part later final page offset ?limited ?selected products,
        pg_terminal = (?limited \<or> length products < ?size) \<and> (?limited \<or> final), pg_partition_terminal = (?limited \<or> length products < ?size),
        pg_enumeration_intact = (\<not> ?limited), pg_discovered = int (length products),
        pg_diagnostics = diagnostics\<rparr>"
  obtain r1 w1 where enrich: "enrich_inventory io options (dict_items ?selected) origin ?endpoint w = (r1, w1)" by fastforce
  obtain r2 w2 where clock: "read_clock io w1 = (r2, w2)" by fastforce
  note quiet = silentD [OF silent_enrich enrich] silentD [OF silent_read_clock clock]
  consider (e) e where "r = Inl e" "pages_of w' = pages_of w"
    | (go) raws ds observed snapshots ms where "r1 = Inr (raws, ds)" "r2 = Inr observed" "res_collect (?norm observed) raws = Inr snapshots"
        "yield_page (page_validate (?page snapshots (ds @ ms))) w2 = (r, w')"
    using assms enrich clock quiet
    by (cases r1; cases r2) (auto simp: product_page_def Let_def bindA_def liftA_def split: sum.splits prod.splits option.splits if_splits)
  then show ?thesis
  proof cases
    case go
    have "shown_page io options request origin cur part later final page offset emitted sequence products p"
      if v: "page_validate (?page snapshots (ds @ ms)) = Inr p" for p
    proof -
      have "map unvaried raws = map unvaried (dict_items ?selected)" using enrich go(1) enrich_unvaried by blast
      with go(3) have "emits io options request origin cur ?selected (?page snapshots (ds @ ms))" by (auto simp: emits_def)
      with v page_validate_same [OF v] show ?thesis by (simp add: shown_page_def Let_def)
    qed
    with yield_page_run [OF go(4)] quiet show ?thesis by auto
  qed blast
qed

text \<open>What the transport served for a page of a partition.\<close>

definition served :: "'e connector_io \<Rightarrow> transport_request \<Rightarrow> json list \<Rightarrow> bool" where
  "served io request products \<longleftrightarrow> (\<exists>env response env' body. io_request io request env = (Inr response, env') \<and>
     resp_status response < 400 \<and> json_value io response = Inr body \<and> products = feed_products body)"

lemma fetch_feed_served:
  assumes "fetch_feed io request w = (Inr (FeedProducts products), w')"
  shows "served io request products"
proof -
  obtain r w1 where send: "conn_request io request w = (r, w1)" by fastforce
  then obtain env where env: "io_request io request (w_env w) = (r, env)"
    by (auto simp: conn_request_def call_def split: prod.splits)
  show ?thesis
  proof (cases r)
    case (Inl e)
    with assms send show ?thesis by (auto simp: fetch_feed_def act_defs split: if_splits)
  next
    case (Inr response)
    with assms send obtain body where "resp_status response < 400" "json_value io response = Inr body" "products = feed_products body"
      by (cases "json_value io response") (auto simp: fetch_feed_def act_defs split: if_splits)
    with env Inr show ?thesis unfolding served_def by blast
  qed
qed

lemma stop_with_page:
  assumes "thenA (yield_page page) (ret FlowStop) w = (r, w')" "\<And>p. page = Inr p \<Longrightarrow> stopped_page part n sequence p"
  shows "(\<exists>e. r = Inl e \<and> pages_of w' = pages_of w) \<or> (\<exists>p. r = Inr FlowStop \<and> pages_of w' = pages_of w @ [p] \<and> stopped_page part n sequence p)"
proof -
  obtain r1 w1 where y: "yield_page page w = (r1, w1)" by fastforce
  from yield_page_run [OF y] assms y show ?thesis by (auto simp: thenA_def bindA_def ret_def)
qed

text \<open>One round of the loop over the pages of a partition.\<close>

lemma partition_pages_cases:
  assumes "partition_pages io options request origin cur part later final page offset emitted sequence w = (r, w')"
  obtains
    (raised) e where "r = Inl e" "pages_of w' = pages_of w"
  | (cancelled) "r = Inr FlowStop" "pages_of w' = pages_of w" "io_cancelled io (w_env w')"
  | (stopped) p where "r = Inr FlowStop" "pages_of w' = pages_of w @ [p]" "stopped_page part page sequence p"
  | (shown) products p w1 where "page \<le> so_page_limit options" "served io (feed_request options (feed_endpoint origin part) page) products"
      "pages_of w1 = pages_of w @ [p]"
      "shown_page io options request origin cur part later final page offset emitted sequence products p"
      "(let emitted' = emitted + int (length (selected_products (cq_result_limit request) emitted offset products)) in
        if limit_reached (cq_result_limit request) emitted (so_page_size options) offset products then ret FlowStop
        else if length products < so_page_size options then ret (FlowOn emitted' (sequence + 1))
        else partition_pages io options request origin cur part later final (page + 1) 0 emitted' (sequence + 1)) w1 = (r, w')"
proof -
  let ?endpoint = "feed_endpoint origin part"
  let ?request = "feed_request options ?endpoint page"
  note run = assms [unfolded partition_pages.simps [of io options request origin cur part later final page]]
  have stop: thesis if "thenA (yield_page q) (ret FlowStop) v = (r, w')" "\<And>p. q = Inr p \<Longrightarrow> stopped_page part page sequence p"
    "pages_of v = pages_of w" for q v
    using stop_with_page [OF that(1,2)] that(3) raised stopped by metis
  show thesis
  proof (cases "so_page_limit options < page")
    case True
    with run have "thenA (yield_page (page_limit_page options part page sequence ?endpoint)) (ret FlowStop) w = (r, w')" by (simp add: Let_def)
    then show thesis by (rule stop) (auto simp: page_limit_page_def dest: incomplete_page_stopped)
  next
    case limit: False
    show thesis
    proof (cases "io_cancelled io (w_env w)")
      case True
      with run limit show thesis by (auto simp: Let_def bindA_def ask_def ret_def intro: cancelled)
    next
      case False
      show thesis
      proof (cases "affordable_request io ?request (w_env w)")
        case unaffordable: False
        with run limit False have "thenA (yield_page (budget_page part page sequence ?endpoint)) (ret FlowStop) w = (r, w')"
          by (simp add: Let_def bindA_def ask_def)
        then show thesis by (rule stop) (auto simp: budget_page_def dest: incomplete_page_stopped)
      next
        case True
        obtain r1 w1 where fetch: "fetch_feed io ?request w = (r1, w1)" by fastforce
        note quiet = silentD [OF silent_fetch fetch]
        show thesis
        proof (cases r1)
          case (Inl e)
          with run limit False True fetch have "r = Inl e" "w' = w1" by (auto simp: Let_def bindA_def ask_def)
          with quiet raised show thesis by metis
        next
          case (Inr answer)
          show thesis
          proof (cases answer)
            case FeedBudget
            with Inr run limit False True fetch have "thenA (yield_page (budget_page part page sequence ?endpoint)) (ret FlowStop) w1 = (r, w')"
              by (simp add: Let_def bindA_def ask_def)
            then show thesis by (rule stop) (auto simp: budget_page_def quiet dest: incomplete_page_stopped)
          next
            case (FeedFailed e)
            with Inr run limit False True fetch
            have "thenA (yield_page (failure_page io part page sequence ?endpoint e)) (ret FlowStop) w1 = (r, w')"
              by (simp add: Let_def bindA_def ask_def)
            then show thesis by (rule stop) (auto simp: failure_page_def quiet dest: incomplete_page_stopped)
          next
            case (FeedProducts products)
            have served: "served io ?request products" using fetch Inr FeedProducts fetch_feed_served by blast
            obtain r2 w2 where produced: "product_page io options request origin cur part later final page offset emitted sequence products w1 = (r2, w2)"
              by fastforce
            from product_page_run [OF produced] show thesis
            proof (elim disjE exE conjE)
              fix e assume "r2 = Inl e" "pages_of w2 = pages_of w1"
              moreover with FeedProducts Inr run limit False True fetch produced have "r = Inl e" "w' = w2"
                by (auto simp: Let_def bindA_def ask_def thenA_def)
              ultimately show thesis using quiet raised by metis
            next
              fix p assume p: "r2 = Inr ()" "pages_of w2 = pages_of w1 @ [p]"
                "shown_page io options request origin cur part later final page offset emitted sequence products p"
              have "(let emitted' = emitted + int (length (selected_products (cq_result_limit request) emitted offset products)) in
                if limit_reached (cq_result_limit request) emitted (so_page_size options) offset products then ret FlowStop
                else if length products < so_page_size options then ret (FlowOn emitted' (sequence + 1))
                else partition_pages io options request origin cur part later final (page + 1) 0 emitted' (sequence + 1)) w2 = (r, w')"
                using FeedProducts Inr run limit False True fetch produced p(1) by (simp add: Let_def bindA_def ask_def thenA_def)
              with p quiet served limit show thesis by (intro shown) auto
            qed
          qed
        qed
      qed
    qed
  qed
qed

subsection \<open>Walking a feed\<close>

text \<open>
  A stable feed gives each partition a list of products, served in pages of the page size.  \<open>feed_rest\<close> is what
  is left of it from a place in a partition on, \<open>cursor_rest\<close> what a cursor leaves to be collected.
\<close>

definition feed_slice :: "nat \<Rightarrow> json list \<Rightarrow> nat \<Rightarrow> json list" where
  "feed_slice per_page products page = take per_page (drop ((page - 1) * per_page) products)"

definition feed_rest :: "nat \<Rightarrow> (string \<Rightarrow> json list) \<Rightarrow> string \<Rightarrow> string list \<Rightarrow> nat \<Rightarrow> nat \<Rightarrow> json list" where
  "feed_rest per_page feed part later page offset =
     drop offset (feed_slice per_page (feed part) page) @ drop (page * per_page) (feed part) @ concat (map feed later)"

definition cursor_rest :: "nat \<Rightarrow> (string \<Rightarrow> json list) \<Rightarrow> string list \<Rightarrow> json option \<Rightarrow> json list" where
  "cursor_rest per_page feed partitions cursor = (case cursor of None \<Rightarrow> []
     | Some c \<Rightarrow> (case resume_cursor c of Inl _ \<Rightarrow> []
       | Inr (part, page, offset) \<Rightarrow> (case dropWhile (\<lambda>q. q \<noteq> part) partitions of [] \<Rightarrow> []
         | q # later \<Rightarrow> feed_rest per_page feed q later page offset)))"

definition serves_feed :: "'e connector_io \<Rightarrow> shopify_options \<Rightarrow> string \<Rightarrow> (string \<Rightarrow> json list) \<Rightarrow> bool" where
  "serves_feed io options origin feed \<longleftrightarrow> (\<forall>part page products.
     served io (feed_request options (feed_endpoint origin part) page) products \<longrightarrow>
     products = feed_slice (so_page_size options) (feed part) page)"

lemma resume_feed_cursor: "1 \<le> page \<Longrightarrow> resume_cursor (feed_cursor part page offset) = Inr (part, page, offset)"
  by (simp add: resume_cursor_def feed_cursor_def json_get_def)

lemma resume_page_cursor: "1 \<le> page \<Longrightarrow> resume_cursor (page_cursor part page) = Inr (part, page, 0)"
  by (simp add: resume_cursor_def page_cursor_def json_get_def)

lemma drop_to_partition: "distinct (pre @ part # later) \<Longrightarrow> dropWhile (\<lambda>q. q \<noteq> part) (pre @ part # later) = part # later"
  by (subst dropWhile_append2) auto

lemma cursor_rest_feed:
  "1 \<le> page \<Longrightarrow> distinct (pre @ part # later) \<Longrightarrow>
    cursor_rest per_page feed (pre @ part # later) (Some (feed_cursor part page offset)) = feed_rest per_page feed part later page offset"
  by (simp add: cursor_rest_def resume_feed_cursor drop_to_partition)

lemma cursor_rest_page:
  "1 \<le> page \<Longrightarrow> distinct (pre @ part # later) \<Longrightarrow>
    cursor_rest per_page feed (pre @ part # later) (Some (page_cursor part page)) = feed_rest per_page feed part later page 0"
  by (simp add: cursor_rest_def resume_page_cursor drop_to_partition)

lemma feed_rest_start: "1 \<le> per_page \<Longrightarrow> feed_rest per_page feed part later 1 0 = feed part @ concat (map feed later)"
  by (simp add: feed_rest_def feed_slice_def)

lemma feed_rest_next: "feed_rest per_page feed part later (page + 1) 0 = drop (page * per_page) (feed part) @ concat (map feed later)"
proof -
  have "take per_page (drop (page * per_page) xs) @ drop (per_page + page * per_page) xs = drop (page * per_page) xs" for xs :: "json list"
    by (metis add.commute append_take_drop_id drop_drop)
  then show ?thesis by (simp add: feed_rest_def feed_slice_def flip: append_assoc)
qed

lemma feed_slice_end:
  assumes "1 \<le> page" "length (feed_slice per_page products page) < per_page"
  shows "drop (page * per_page) products = []"
proof -
  obtain n where "page = Suc n" using assms(1) by (cases page) auto
  with assms(2) show ?thesis by (auto simp: feed_slice_def)
qed

text \<open>Without the limit a page emits all that is behind the offset.\<close>

lemma selected_all:
  assumes "\<not> (limit_reached limit emitted per_page offset products \<and> length (selected_products limit emitted offset products) < length products - offset)"
  shows "selected_products limit emitted offset products = drop offset products"
proof (cases limit)
  case (Some n)
  show ?thesis
  proof (rule ccontr)
    assume "\<not> ?thesis"
    with Some have short: "nat (n - emitted) < length products - offset" by (auto simp: selected_products_def)
    then have "length (selected_products limit emitted offset products) = nat (n - emitted)"
      using Some by (simp add: selected_products_def)
    with short assms Some show False by (auto simp: limit_reached_def Let_def split: if_splits)
  qed
qed (simp add: selected_products_def)

lemma selected_prefix: "\<exists>k. selected_products limit emitted offset products = take k (drop offset products)"
proof (cases limit)
  case None
  then show ?thesis by (intro exI [of _ "length products"]) (simp add: selected_products_def)
next
  case (Some n)
  then show ?thesis by (auto simp: selected_products_def)
qed

lemma next_cursor_rest:
  assumes "1 \<le> page" "1 \<le> per_page" "partitions = pre @ part # later" "distinct partitions" "final \<longleftrightarrow> later = []"
    and products: "products = feed_slice per_page (feed part) page"
    and "selected = selected_products limit emitted offset products" "limited = limit_reached limit emitted per_page offset products"
  shows "selected @ cursor_rest per_page feed partitions (next_cursor per_page part later final page offset limited selected products) =
    feed_rest per_page feed part later page offset"
proof (cases "limited \<and> length selected < length products - offset")
  case True
  obtain k where k: "selected = take k (drop offset products)" using selected_prefix assms(7) by blast
  have "drop (offset + length selected) products = drop (length selected) (drop offset products)" by (simp add: add.commute)
  with k have "selected @ drop (offset + length selected) products = drop offset products"
    by (metis append_eq_conv_conj append_take_drop_id)
  with True assms(1,3,4) products show ?thesis
    by (simp add: next_cursor_def cursor_rest_feed) (simp add: feed_rest_def flip: append_assoc)
next
  case False
  then have all: "selected = drop offset products" using selected_all assms(7,8) by blast
  show ?thesis
  proof (cases "length products < per_page")
    case True
    then have ended: "drop (page * per_page) (feed part) = []" using feed_slice_end assms(1) products by blast
    show ?thesis
    proof (cases later)
      case Nil
      with True ended all False assms show ?thesis by (simp add: next_cursor_def cursor_rest_def feed_rest_def)
    next
      case (Cons q rest)
      have "cursor_rest per_page feed ((pre @ [part]) @ q # rest) (Some (feed_cursor q 1 0)) = feed_rest per_page feed q rest 1 0"
        by (rule cursor_rest_feed) (use assms(3,4) Cons in auto)
      with Cons True ended all False assms show ?thesis
        using feed_rest_start [OF assms(2), of feed q rest] by (simp add: next_cursor_def feed_rest_def [of per_page feed part])
    qed
  next
    case full: False
    have "cursor_rest per_page feed partitions (Some (feed_cursor part (page + 1) 0)) = feed_rest per_page feed part later (page + 1) 0"
      unfolding assms(3) by (rule cursor_rest_feed) (use assms(3,4) in auto)
    with full False all products show ?thesis
      unfolding feed_rest_next by (auto simp: next_cursor_def feed_rest_def)
  qed
qed

text \<open>
  \<open>walk ps rest rest'\<close>: the pages \<open>ps\<close> cover the products \<open>rest\<close> up to \<open>rest'\<close>.  Each page emits a segment and its
  cursor leaves what is behind it; the cursor of a page that stopped the collection may go back, to products that
  were emitted before, but never forward.
\<close>

fun walk ::
  "(json list \<Rightarrow> commerce_snapshot entity_page \<Rightarrow> bool) \<Rightarrow> (json option \<Rightarrow> json list) \<Rightarrow> commerce_snapshot entity_page list \<Rightarrow>
   json list \<Rightarrow> json list \<Rightarrow> bool" where
  "walk emit left [] rest rest' \<longleftrightarrow> rest = rest'"
| "walk emit left (p # ps) rest rest' \<longleftrightarrow> (\<exists>seg again. emit seg p \<and> seg @ left (pg_resume_after p) = again @ rest \<and>
     (again \<noteq> [] \<longrightarrow> seg = [] \<and> \<not> pg_enumeration_intact p) \<and> walk emit left ps (left (pg_resume_after p)) rest')"

lemma walk_append: "walk emit left xs a b \<Longrightarrow> walk emit left ys b c \<Longrightarrow> walk emit left (xs @ ys) a c"
  by (induction xs arbitrary: a) auto

lemma walk_one: "emit seg p \<Longrightarrow> seg @ left (pg_resume_after p) = rest \<Longrightarrow> walk emit left [p] rest (left (pg_resume_after p))"
  unfolding walk.simps by (metis append_Nil)

lemma walk_last: "walk emit left ps rest rest' \<Longrightarrow> ps \<noteq> [] \<Longrightarrow> rest' = left (pg_resume_after (last ps))"
  by (induction ps arbitrary: rest) (auto split: if_splits)

lemma emits_nothing: "pg_items p = [] \<Longrightarrow> emits io options request origin cur [] p"
  by (simp add: emits_def dict_items_def)

lemma stopped_walk:
  assumes "stopped_page part page sequence p" "1 \<le> page" "partitions = pre @ part # later" "distinct partitions"
  shows "walk (emits io options request origin cur) (cursor_rest per_page feed partitions) [p] (feed_rest per_page feed part later page offset)
    (feed_rest per_page feed part later page 0)"
proof -
  have "cursor_rest per_page feed partitions (pg_resume_after p) = feed_rest per_page feed part later page 0"
    using assms by (simp add: stopped_page_def cursor_rest_page)
  moreover have "feed_rest per_page feed part later page 0 = take offset (feed_slice per_page (feed part) page) @ feed_rest per_page feed part later page offset"
    by (simp add: feed_rest_def flip: append_assoc)
  moreover have "emits io options request origin cur [] p" "\<not> pg_enumeration_intact p"
    using assms(1) emits_nothing by (auto simp: stopped_page_def)
  ultimately show ?thesis by auto
qed

lemma partition_walk:
  assumes "partition_pages io options request origin cur part later final page offset emitted sequence w = (r, w')"
    and "1 \<le> page" "1 \<le> so_page_size options" "partitions = pre @ part # later" "distinct partitions" "final \<longleftrightarrow> later = []"
    and "serves_feed io options origin feed"
  shows "\<exists>ps rest'. pages_of w' = pages_of w @ ps \<and>
    walk (emits io options request origin cur) (cursor_rest (so_page_size options) feed partitions) ps
      (feed_rest (so_page_size options) feed part later page offset) rest' \<and>
    (\<forall>e n. r = Inr (FlowOn e n) \<longrightarrow> rest' = concat (map feed later))"
  using assms(1,2)
proof (induction "Suc (so_page_limit options) - page" arbitrary: page offset emitted sequence w rule: less_induct)
  case less
  let ?size = "so_page_size options" and ?limit = "cq_result_limit request"
  let ?walk = "walk (emits io options request origin cur) (cursor_rest ?size feed partitions)"
  from less.prems(1) show ?case
  proof (cases rule: partition_pages_cases)
    case (stopped p)
    with stopped_walk [OF stopped(3) less.prems(2) assms(4,5)] show ?thesis by blast
  next
    case (shown products p w1)
    let ?selected = "selected_products ?limit emitted offset products" and ?limited = "limit_reached ?limit emitted ?size offset products"
    let ?rest = "cursor_rest ?size feed partitions (pg_resume_after p)"
    from shown(2) assms(7) have products: "products = feed_slice ?size (feed part) page" by (auto simp: serves_feed_def)
    have cursor: "pg_resume_after p = next_cursor ?size part later final page offset ?limited ?selected products"
      and emit: "emits io options request origin cur ?selected p" using shown(4) by (auto simp: shown_page_def Let_def)
    have "?selected @ ?rest = feed_rest ?size feed part later page offset"
      unfolding cursor by (rule next_cursor_rest) (use less.prems(2) assms(3-6) products in auto)
    from emit this have one: "?walk [p] (feed_rest ?size feed part later page offset) ?rest"
      by (rule walk_one)
    show ?thesis
    proof (cases "?limited \<or> length products < ?size")
      case True
      with shown(5) have r: "w' = w1" "\<forall>e n. r = Inr (FlowOn e n) \<longrightarrow> \<not> ?limited \<and> length products < ?size"
        by (auto simp: Let_def ret_def split: if_splits)
      have "?rest = concat (map feed later)" if "\<not> ?limited" "length products < ?size"
      proof (cases later)
        case Nil
        with that cursor assms(6) show ?thesis by (simp add: next_cursor_def cursor_rest_def)
      next
        case (Cons q rest)
        have "cursor_rest ?size feed ((pre @ [part]) @ q # rest) (Some (feed_cursor q 1 0)) = feed_rest ?size feed q rest 1 0"
          by (rule cursor_rest_feed) (use assms(4,5) Cons in auto)
        with Cons that cursor assms(4,6) feed_rest_start [OF assms(3), of feed q rest] show ?thesis by (simp add: next_cursor_def)
      qed
      with r one shown(3) show ?thesis by (intro exI [of _ "[p]"] exI [of _ ?rest]) auto
    next
      case False
      let ?emitted = "emitted + int (length ?selected)"
      from False shown(5) have rec: "partition_pages io options request origin cur part later final (page + 1) 0 ?emitted (sequence + 1) w1 = (r, w')"
        by (simp add: Let_def)
      have "Suc (so_page_limit options) - (page + 1) < Suc (so_page_limit options) - page" using shown(1) by simp
      from less.hyps [OF this rec] obtain ps rest' where ps: "pages_of w' = pages_of w1 @ ps"
        "?walk ps (feed_rest ?size feed part later (page + 1) 0) rest'" "\<forall>e n. r = Inr (FlowOn e n) \<longrightarrow> rest' = concat (map feed later)" by auto
      have "cursor_rest ?size feed partitions (Some (feed_cursor part (page + 1) 0)) = feed_rest ?size feed part later (page + 1) 0"
        unfolding assms(4) by (rule cursor_rest_feed) (use assms(4,5) in auto)
      with False cursor have "?rest = feed_rest ?size feed part later (page + 1) 0" by (simp add: next_cursor_def)
      with walk_append [OF one, of ps rest'] ps(2) have "?walk ([p] @ ps) (feed_rest ?size feed part later page offset) rest'"
        by (simp del: walk.simps)
      with ps(1,3) shown(3) show ?thesis by (intro exI [of _ "[p] @ ps"] exI [of _ rest'] conjI) (simp_all del: walk.simps)
    qed
  qed auto
qed

lemma collect_walk:
  assumes "collect_partitions io options request origin cur final parts page offset emitted sequence w = (r, w')"
    and "parts \<noteq> [] \<Longrightarrow> 1 \<le> page" "1 \<le> so_page_size options" "partitions = pre @ parts" "distinct partitions" "final = last partitions"
    and "serves_feed io options origin feed"
  shows "\<exists>ps rest'. pages_of w' = pages_of w @ ps \<and>
    walk (emits io options request origin cur) (cursor_rest (so_page_size options) feed partitions) ps
      (case parts of [] \<Rightarrow> [] | part # later \<Rightarrow> feed_rest (so_page_size options) feed part later page offset) rest'"
  using assms(1,2,4)
proof (induction parts arbitrary: page offset emitted sequence pre w)
  case Nil
  then show ?case by (auto simp: ret_def intro!: exI [of _ "[]"])
next
  case (Cons part later)
  let ?walk = "walk (emits io options request origin cur) (cursor_rest (so_page_size options) feed partitions)"
  have final: "part = final \<longleftrightarrow> later = []"
    using Cons.prems(3) assms(5,6) by (cases later rule: rev_cases) auto
  obtain r1 w1 where run: "partition_pages io options request origin cur part later (part = final) page offset emitted sequence w = (r1, w1)" by fastforce
  from partition_walk [OF run _ assms(3) Cons.prems(3) assms(5) final assms(7)] Cons.prems(2)
  obtain ps rest' where ps: "pages_of w1 = pages_of w @ ps" "?walk ps (feed_rest (so_page_size options) feed part later page offset) rest'"
    "\<forall>e n. r1 = Inr (FlowOn e n) \<longrightarrow> rest' = concat (map feed later)" by auto
  show ?case
  proof (cases "\<exists>e n. r1 = Inr (FlowOn e n)")
    case True
    then obtain e n where on: "r1 = Inr (FlowOn e n)" by blast
    with Cons.prems(1) run have rec: "collect_partitions io options request origin cur final later 1 0 e n w1 = (r, w')" by (simp add: bindA_def)
    from Cons.IH [OF rec, of "pre @ [part]"] Cons.prems(3) obtain qs rest'' where qs: "pages_of w' = pages_of w1 @ qs"
      "?walk qs (case later of [] \<Rightarrow> [] | part # later \<Rightarrow> feed_rest (so_page_size options) feed part later 1 0) rest''" by auto
    have "rest' = (case later of [] \<Rightarrow> [] | part # later \<Rightarrow> feed_rest (so_page_size options) feed part later 1 0)"
      using ps(3) on feed_rest_start [OF assms(3)] by (auto split: list.splits)
    with walk_append [OF ps(2)] qs ps(1) show ?thesis by auto
  next
    case False
    with Cons.prems(1) run have "w' = w1" by (auto simp: bindA_def ret_def split: sum.splits flow.splits)
    with ps show ?thesis by auto
  qed
qed

subsection \<open>The stream of pages\<close>

definition item_count :: "commerce_snapshot entity_page list \<Rightarrow> nat" where
  "item_count ps = sum_list (map (\<lambda>p. length (pg_items p)) ps)"

lemma item_count_simps [simp]: "item_count [] = 0" "item_count (xs @ ys) = item_count xs + item_count ys" "item_count [p] = length (pg_items p)"
  by (simp_all add: item_count_def)

lemma res_collect_length: "res_collect f xs = Inr ys \<Longrightarrow> length ys \<le> length xs"
  by (induction xs arbitrary: ys) (auto simp: res_bind_Inr le_Suc_eq split: option.splits)

lemma dict_items_length: "length (dict_items vs) \<le> length vs"
  by (induction vs) (auto simp: dict_items_def split: json.splits)

lemma emits_length: "emits io options request origin cur seg p \<Longrightarrow> length (pg_items p) \<le> length seg"
  unfolding emits_def using res_collect_length dict_items_length
  by (metis le_trans length_map)

text \<open>What is left to emit under a result limit.\<close>

definition room :: "int option \<Rightarrow> int \<Rightarrow> nat \<Rightarrow> bool" where
  "room limit emitted k \<longleftrightarrow> (case limit of None \<Rightarrow> True | Some n \<Rightarrow> int k \<le> max 0 (n - emitted))"

lemma selected_room: "room limit emitted (length (selected_products limit emitted offset products))"
  by (auto simp: room_def selected_products_def split: option.splits)

lemma room_step: "room limit emitted s \<Longrightarrow> room limit (emitted + int s) k \<Longrightarrow> i \<le> s \<Longrightarrow> room limit emitted (i + k)"
  by (auto simp: room_def split: option.splits)

lemma room_mono: "room limit emitted s \<Longrightarrow> i \<le> s \<Longrightarrow> room limit emitted i"
  by (auto simp: room_def split: option.splits)

text \<open>
  How a partition ends: its pages are a stream; it goes on to the next partition after the products it selected,
  or it stops after a terminal page or a cancellation.
\<close>

definition partition_ended ::
  "'e connector_io \<Rightarrow> int option \<Rightarrow> bool \<Rightarrow> int \<Rightarrow> nat \<Rightarrow> commerce_snapshot entity_page list \<Rightarrow> exn + flow \<Rightarrow> (connector_call, 'e) world \<Rightarrow> bool" where
  "partition_ended io limit final emitted sequence ps r w' \<longleftrightarrow> page_stream sequence ps \<and> room limit emitted (item_count ps) \<and>
     (case r of
        Inr (FlowOn e n) \<Rightarrow> n = sequence + length ps \<and> (\<exists>s. e = emitted + int s \<and> item_count ps \<le> s \<and> room limit emitted s) \<and>
          (if final then ps \<noteq> [] \<and> pg_terminal (last ps) else list_all (\<lambda>p. \<not> pg_terminal p) ps)
      | Inr FlowStop \<Rightarrow> io_cancelled io (w_env w') \<or> ps \<noteq> [] \<and> pg_terminal (last ps)
      | Inl _ \<Rightarrow> True)"

lemma partition_ended_Cons:
  assumes "partition_ended io limit final (emitted + int s) (Suc sequence) ps r w'"
    and "page_validate p = Inr p" "pg_sequence p = int sequence" "\<not> pg_terminal p" "length (pg_items p) \<le> s" "room limit emitted s"
  shows "partition_ended io limit final emitted sequence (p # ps) r w'"
proof -
  have "page_stream sequence ([p] @ ps)"
    using assms by (intro page_stream_append) (auto simp: partition_ended_def page_stream_def)
  moreover have "room limit emitted (length (pg_items p) + item_count ps)"
    using assms by (intro room_step [of limit emitted s]) (auto simp: partition_ended_def)
  moreover have "\<exists>s'. emitted + int s + int t = emitted + int s' \<and> length (pg_items p) + item_count ps \<le> s' \<and> room limit emitted s'"
    if "item_count ps \<le> t" "room limit (emitted + int s) t" for t
    using that assms(5) room_step [OF assms(6) that(2), of s] by (intro exI [of _ "s + t"]) auto
  ultimately show ?thesis
    using assms(1,4) item_count_simps(2) [of "[p]" ps] by (auto simp: partition_ended_def split: sum.splits flow.splits if_splits)
qed

lemma partition_stream:
  assumes "partition_pages io options request origin cur part later final page offset emitted sequence w = (r, w')"
  shows "\<exists>ps. pages_of w' = pages_of w @ ps \<and> partition_ended io (cq_result_limit request) final emitted sequence ps r w'"
  using assms
proof (induction "Suc (so_page_limit options) - page" arbitrary: page offset emitted sequence w rule: less_induct)
  case less
  let ?size = "so_page_size options" and ?limit = "cq_result_limit request"
  have none: "room ?limit emitted 0" by (auto simp: room_def split: option.splits)
  from less.prems show ?case
  proof (cases rule: partition_pages_cases)
    case (stopped p)
    with none show ?thesis by (intro exI [of _ "[p]"]) (auto simp: partition_ended_def stopped_page_def page_stream_def)
  next
    case (shown products p w1)
    let ?selected = "selected_products ?limit emitted offset products" and ?limited = "limit_reached ?limit emitted ?size offset products"
    have p: "page_validate p = Inr p" "pg_sequence p = int sequence" "pg_terminal p \<longleftrightarrow> (?limited \<or> length products < ?size) \<and> (?limited \<or> final)"
      and emit: "emits io options request origin cur ?selected p"
      using shown(4) by (auto simp: shown_page_def Let_def)
    have items: "length (pg_items p) \<le> length ?selected" by (rule emits_length [OF emit])
    have fits: "room ?limit emitted (length ?selected)" by (rule selected_room)
    show ?thesis
    proof (cases "?limited \<or> length products < ?size")
      case True
      with shown(5) have w': "w' = w1" "r = (if ?limited then Inr FlowStop else Inr (FlowOn (emitted + int (length ?selected)) (sequence + 1)))"
        by (auto simp: Let_def ret_def split: if_splits)
      have "partition_ended io ?limit final emitted sequence [p] r w'"
        using True p items fits room_mono [OF fits items] w'(2) by (auto simp: partition_ended_def page_stream_def)
      with shown(3) w'(1) show ?thesis by blast
    next
      case False
      let ?emitted = "emitted + int (length ?selected)"
      from False shown(5) have rec: "partition_pages io options request origin cur part later final (page + 1) 0 ?emitted (sequence + 1) w1 = (r, w')"
        by (simp add: Let_def)
      have "Suc (so_page_limit options) - (page + 1) < Suc (so_page_limit options) - page" using shown(1) by simp
      from less.hyps [OF this rec] obtain ps where ps: "pages_of w' = pages_of w1 @ ps"
        "partition_ended io ?limit final ?emitted (Suc sequence) ps r w'" by auto
      from partition_ended_Cons [OF ps(2) p(1,2) _ items fits] p(3) False
      have "partition_ended io ?limit final emitted sequence (p # ps) r w'" by blast
      with ps(1) shown(3) show ?thesis by auto
    qed
  qed (use none in \<open>auto simp: partition_ended_def page_stream_def\<close>)
qed

lemma collect_stream:
  assumes "collect_partitions io options request origin cur final parts page offset emitted sequence w = (r, w')"
    and "distinct parts" "parts \<noteq> []" "final = last parts"
  shows "\<exists>ps. pages_of w' = pages_of w @ ps \<and> page_stream sequence ps \<and> room (cq_result_limit request) emitted (item_count ps) \<and>
    (r = Inr () \<longrightarrow> io_cancelled io (w_env w') \<or> ps \<noteq> [] \<and> pg_terminal (last ps))"
  using assms
proof (induction parts arbitrary: page offset emitted sequence w)
  case (Cons part later)
  let ?limit = "cq_result_limit request"
  have final: "part = final \<longleftrightarrow> later = []"
    using Cons.prems(2,4) by (cases later rule: rev_cases) auto
  obtain r1 w1 where run: "partition_pages io options request origin cur part later (part = final) page offset emitted sequence w = (r1, w1)" by fastforce
  from partition_stream [OF run] obtain ps where ps: "pages_of w1 = pages_of w @ ps"
    "partition_ended io ?limit (part = final) emitted sequence ps r1 w1" by blast
  show ?case
  proof (cases "\<exists>e n. r1 = Inr (FlowOn e n) \<and> later \<noteq> []")
    case True
    then obtain e n where on: "r1 = Inr (FlowOn e n)" "later \<noteq> []" by blast
    with Cons.prems(1) run have rec: "collect_partitions io options request origin cur final later 1 0 e n w1 = (r, w')" by (simp add: bindA_def)
    from Cons.IH [OF rec] Cons.prems(2,4) on(2) obtain qs where qs: "pages_of w' = pages_of w1 @ qs" "page_stream n qs"
      "room ?limit e (item_count qs)" "r = Inr () \<longrightarrow> io_cancelled io (w_env w') \<or> qs \<noteq> [] \<and> pg_terminal (last qs)" by auto
    from ps(2) on final obtain s where s: "page_stream sequence ps" "n = sequence + length ps" "e = emitted + int s" "item_count ps \<le> s"
      "room ?limit emitted s" "list_all (\<lambda>p. \<not> pg_terminal p) ps" by (auto simp: partition_ended_def)
    have "page_stream sequence (ps @ qs)" using s(1,6) qs(2) unfolding s(2) by (rule page_stream_append)
    moreover have "room ?limit emitted (item_count (ps @ qs))" using room_step [OF s(5) _ s(4)] qs(3) s(3) by simp
    ultimately show ?thesis using qs(1,4) ps(1) by (intro exI [of _ "ps @ qs"]) auto
  next
    case False
    with Cons.prems(1) run have w': "w' = w1" "r = Inr () \<longrightarrow> (r1 = Inr FlowStop \<or> (\<exists>e n. r1 = Inr (FlowOn e n)) \<and> later = [])"
      by (auto simp: bindA_def ret_def split: sum.splits flow.splits)
    with ps final show ?thesis by (intro exI [of _ ps]) (auto simp: partition_ended_def)
  qed
qed simp

subsection \<open>Properties\<close>

text \<open>The places a collection may start from.\<close>

definition start_rest :: "nat \<Rightarrow> (string \<Rightarrow> json list) \<Rightarrow> string list \<Rightarrow> connector_checkpoint option \<Rightarrow> json list" where
  "start_rest per_page feed partitions checkpoint = (case checkpoint of None \<Rightarrow> concat (map feed partitions)
     | Some c \<Rightarrow> cursor_rest per_page feed partitions (Some (ck_resume_after c)))"

lemma partitions_nonempty: "request_partitions request \<noteq> []"
  by (simp add: request_partitions_def)

lemma resume_cursor_page: "resume_cursor c = Inr (part, page, offset) \<Longrightarrow> 1 \<le> page"
  by (auto simp: resume_cursor_def split: json.splits option.splits if_splits)

text \<open>A collection either raises before it asks for a page, or walks the partitions from one of these places.\<close>

lemma shopify_collect_cases:
  assumes "shopify_collect io options request checkpoint w = (r, w')"
  obtains (raised) e where "r = Inl e" "pages_of w' = pages_of w"
  | (walks) origin cur pre part later page offset w1 where "shop_origin (cq_base_url request) = Inr origin" "1 \<le> page"
      "request_partitions request = pre @ part # later" "part \<notin> set pre"
      "case checkpoint of None \<Rightarrow> pre = [] \<and> page = 1 \<and> offset = 0 | Some c \<Rightarrow> resume_cursor (ck_resume_after c) = Inr (part, page, offset)"
      "pages_of w1 = pages_of w"
      "collect_partitions io options request origin cur (last (request_partitions request)) (part # later) page offset 0 0 w1 = (r, w')"
proof -
  let ?v = "validate_connector_request shopify_capabilities ''Shopify does not support the requested contract'' ''shopify'' ''1''
         request checkpoint (options_dump options) None False"
  let ?partitions = "request_partitions request"
  let ?ask = "\<lambda>origin. case so_currency options of Some c \<Rightarrow> ret (Some c) | None \<Rightarrow> shopify_currency io options origin"
  show thesis
  proof (cases "?v")
    case (Inl e)
    with assms show thesis by (intro raised [of e]) (auto simp: shopify_collect_def thenA_def bindA_def liftA_def)
  next
    case valid: (Inr u)
    show thesis
    proof (cases "shop_origin (cq_base_url request)")
      case (Inl e)
      with valid assms show thesis by (intro raised [of e]) (auto simp: shopify_collect_def thenA_def bindA_def liftA_def)
    next
      case origin: (Inr origin)
      obtain r1 w1 where money: "?ask origin w = (r1, w1)" by fastforce
      have "silent (?ask origin)" by (auto intro: silent_intros silent_currency split: option.splits)
      from silentD [OF this money] have quiet: "pages_of w1 = pages_of w" .
      show thesis
      proof (cases r1)
        case (Inl e)
        with valid origin money assms quiet show thesis
          by (intro raised [of e]) (auto simp: shopify_collect_def thenA_def bindA_def liftA_def)
      next
        case (Inr cur)
        note start = assms [unfolded shopify_collect_def thenA_def bindA_def liftA_def] valid origin money Inr
        show thesis
        proof (cases checkpoint)
          case None
          obtain part later where parts: "?partitions = part # later" using partitions_nonempty by (cases ?partitions) auto
          from start None have "collect_partitions io options request origin cur (last ?partitions) ?partitions 1 0 0 0 w1 = (r, w')"
            by (auto simp: shopify_resume_def res_opt_def Let_def)
          then show thesis using origin parts None quiet by (intro walks [of origin 1 "[]"]) auto
        next
          case (Some c)
          show thesis
          proof (cases "resume_cursor (ck_resume_after c)")
            case (Inl e)
            with start Some quiet show thesis by (intro raised [of e]) (auto simp: shopify_resume_def res_opt_def res_bind_def)
          next
            case place: (Inr place)
            obtain part page offset where c: "place = (part, page, offset)" by (cases place) auto
            show thesis
            proof (cases "part \<in> set ?partitions")
              case False
              with start Some place c quiet show thesis
                by (intro raised) (auto simp: shopify_resume_def res_opt_def res_bind_def Let_def raise_def)
            next
              case True
              then obtain pre later where parts: "?partitions = pre @ part # later" "part \<notin> set pre" by (meson split_list_first)
              then have "dropWhile (\<lambda>q. q \<noteq> part) ?partitions = part # later" by (subst parts(1), subst dropWhile_append2) auto
              with start Some place c True have
                "collect_partitions io options request origin cur (last ?partitions) (part # later) page offset 0 0 w1 = (r, w')"
                by (auto simp: shopify_resume_def res_opt_def res_bind_def Let_def)
              then show thesis using origin parts Some place c quiet resume_cursor_page by (intro walks) auto
            qed
          qed
        qed
      qed
    qed
  qed
qed

lemma shopify_stream:
  assumes "shopify_collect io options request checkpoint w = (r, w')" "distinct (request_partitions request)"
  shows "\<exists>ps. pages_of w' = pages_of w @ ps \<and> page_stream 0 ps \<and> room (cq_result_limit request) 0 (item_count ps) \<and>
    (r = Inr () \<longrightarrow> io_cancelled io (w_env w') \<or> ps \<noteq> [] \<and> pg_terminal (last ps))"
  using assms(1)
proof (cases rule: shopify_collect_cases)
  case (raised e)
  then show ?thesis by (intro exI [of _ "[]"]) (auto simp: page_stream_def room_def split: option.splits)
next
  case (walks origin cur pre part later page offset w1)
  have "distinct (part # later)" "last (request_partitions request) = last (part # later)" using walks(3) assms(2) by auto
  from collect_stream [OF walks(7) this(1) _ this(2)] walks(6) show ?thesis by auto
qed

interpretation shopify: paged_connector "\<lambda>(options, request, checkpoint). shopify_collect io options request checkpoint" pages_of
  "\<lambda>(options, request, checkpoint). distinct (request_partitions request)" "\<lambda>w. io_cancelled io (w_env w)" for io
  by unfold_locales (use shopify_stream in \<open>fastforce split: prod.splits\<close>)




subsection \<open>Witnesses\<close>

text \<open>A shop whose feed has one entry, on its first page.\<close>

definition sample_feed_text :: "nat \<Rightarrow> string" where
  "sample_feed_text page = [CHR ''{'', CHR 0x22] @ ''products'' @ [CHR 0x22] @ '':['' @ (if page \<le> 1 then ''1'' else []) @ '']}''"

definition sample_io :: "unit connector_io" where
  "sample_io = \<lparr>io_request = (\<lambda>request env. (Inr \<lparr>resp_status = 200, resp_headers = [],
       resp_content = sample_feed_text (case req_query request of [_, (_, QInt page)] \<Rightarrow> nat page | _ \<Rightarrow> 0),
       resp_final_url = req_url request, resp_route = route_default, resp_from_cache = False, resp_elapsed_seconds = 0,
       resp_accounting = None\<rparr>, env)),
     io_rotate = (\<lambda>_ env. (Inr (), env)), io_clock = (\<lambda>env. (Inr 0, env)), io_cancelled = (\<lambda>_. False), io_has_budget = False,
     io_affordable = (\<lambda>_ _. True), io_maximum_requests = (\<lambda>_. AttrNone), io_used_requests = (\<lambda>_. AttrNone), io_float = (\<lambda>s. s),
     io_decode_message = (\<lambda>_. []), io_unescape = (\<lambda>s. s), io_instant = (\<lambda>_. Inr None), io_failure_text = (\<lambda>_. [])\<rparr>"

definition sample_options :: shopify_options where
  "sample_options = \<lparr>so_currency = Some ''EUR'', so_vat_status = None, so_page_size = 2, so_page_limit = 3, so_inventory_method = InventoryNone,
     so_inventory_section_id = None, so_inventory_batch_size = 1, so_inventory_request_estimated_bytes = 0,
     so_discovery_request_estimated_bytes = 0\<rparr>"

definition sample_shop_request :: collection_request where
  "sample_shop_request = \<lparr>cq_source_id = ''s'', cq_base_url = ''https://h/x'', cq_refresh_mode = FullRefresh,
     cq_requested_fields = {FieldOffers}, cq_result_limit = Some 5, cq_partitions = [], cq_deadline = None\<rparr>"

definition sample_world :: "(connector_call, unit) world" where
  "sample_world = \<lparr>w_env = (), w_log = []\<rparr>"

lemma sample_facts:
  "shop_origin ''https://h/x'' = Inr ''https://h'' \<and> list_all is_upper_char ''EUR'' \<and>
   json_loads (\<lambda>s. s) (sample_feed_text 1) = Some (JDict [(''products'', JList [JInt 1])]) \<and>
   json_loads (\<lambda>s. s) (sample_feed_text 2) = Some (JDict [(''products'', JList [])])"
  by code_simp

lemma sample_options_valid: "shopify_options_validate sample_options = Inr sample_options"
  using sample_facts by (simp add: shopify_options_validate_def sample_options_def res_opt_def res_bind_def res_guard_def currency_code_def)

lemma sample_served: "served sample_io (feed_request sample_options endpoint page) products \<Longrightarrow> products = feed_slice 2 [JInt 1] page"
proof (cases "page \<le> 1")
  case True
  then have "sample_feed_text page = sample_feed_text 1" by (simp add: sample_feed_text_def)
  moreover assume "served sample_io (feed_request sample_options endpoint page) products"
  ultimately show ?thesis using True sample_facts
    by (auto simp: served_def sample_io_def feed_request_def shopify_request_def json_value_def feed_products_def feed_slice_def)
next
  case False
  then have "sample_feed_text page = sample_feed_text 2" by (simp add: sample_feed_text_def)
  moreover assume "served sample_io (feed_request sample_options endpoint page) products"
  ultimately show ?thesis using False sample_facts
    by (auto simp: served_def sample_io_def feed_request_def shopify_request_def json_value_def feed_products_def feed_slice_def)
qed

lemma sample_serves: "serves_feed sample_io sample_options ''https://h'' (\<lambda>_. [JInt 1])"
  using sample_served by (auto simp: serves_feed_def sample_options_def)

lemma sample_fields:
  "so_currency sample_options = Some ''EUR''" "so_page_size sample_options = 2" "so_page_limit sample_options = 3"
  "io_cancelled sample_io env = False" "affordable_request sample_io request env" "cq_partitions sample_shop_request = []"
  "cq_result_limit sample_shop_request = Some 5" "cq_base_url sample_shop_request = ''https://h/x''"
  by (simp_all add: sample_options_def sample_io_def affordable_request_def sample_shop_request_def)

lemma sample_fetch: "\<exists>w'. fetch_feed sample_io (feed_request sample_options endpoint 1) w = (Inr (FeedProducts [JInt 1]), w')"
  using sample_facts
  by (simp add: fetch_feed_def conn_request_def call_def act_defs sample_io_def feed_request_def shopify_request_def json_value_def feed_products_def)

lemma sample_page:
  "\<exists>w'. product_page sample_io sample_options sample_shop_request origin cur ''main'' later True 1 0 0 0 [JInt 1] w = (Inr (), w')"
  by (simp add: product_page_def Let_def selected_products_def limit_reached_def sample_fields dict_items_def enrich_inventory_def act_defs
      read_clock_def sample_io_def yield_page_def page_validate_def res_bind_def res_guard_def page_valid_state_def record_call_def next_cursor_def)

lemma sample_partition:
  "\<exists>w'. partition_pages sample_io sample_options sample_shop_request origin cur ''main'' [] True 1 0 0 0 w = (Inr (FlowOn 1 1), w')"
proof -
  obtain w1 where fetch: "fetch_feed sample_io (feed_request sample_options (feed_endpoint origin ''main'') 1) w = (Inr (FeedProducts [JInt 1]), w1)"
    using sample_fetch by blast
  obtain w2 where "product_page sample_io sample_options sample_shop_request origin cur ''main'' [] True 1 0 0 0 [JInt 1] w1 = (Inr (), w2)"
    using sample_page by blast
  with fetch show ?thesis
    by (subst partition_pages.simps) (simp add: Let_def bindA_def ask_def sample_fields thenA_def ret_def limit_reached_def selected_products_def)
qed

lemma sample_collected: "fst (shopify_collect sample_io sample_options sample_shop_request None sample_world) = Inr ()"
proof -
  obtain w' where run: "partition_pages sample_io sample_options sample_shop_request ''https://h'' (Some ''EUR'') ''main'' [] True 1 0 0 0 sample_world =
      (Inr (FlowOn 1 1), w')" using sample_partition by blast
  then have "collect_partitions sample_io sample_options sample_shop_request ''https://h'' (Some ''EUR'') ''main'' [''main''] 1 0 0 0 sample_world = (Inr (), w')"
    by (simp add: bindA_def ret_def)
  then show ?thesis
    using sample_facts
    by (simp add: shopify_collect_def validate_connector_request_def validate_checkpoint_def capabilities_support_def sample_fields
        thenA_def bindA_def liftA_def ret_def shopify_capabilities_def shopify_resume_def res_opt_def request_partitions_def Let_def
        del: collect_partitions.simps) (simp add: sample_shop_request_def)
qed




end
