(* ===== verification/Spec2Isabelle.thy ===== *)
theory Spec2Isabelle
  imports Middleware_Budget Middleware_Results Rate_Limit Routed_Attempt Httpx Client_Pool Robots Telemetry
    Discovery File_Cache Runtime Shopify
begin

text \<open>
  \<^bold>\<open>A verification library for the commerce scraper.\<close>

  The repository collects product data from web shops.  Its core library is
  \<^verbatim>\<open>src/commerce-scraper/src/mb_commerce_scraper\<close>; the paths below are relative to it.  A caller configures a
  \<^verbatim>\<open>CommerceScraper\<close> (\<^verbatim>\<open>runtime/client.py\<close>), which looks up a connector in a registry and composes for it a
  stack of transports: a controller with robots check, cache, retries and budget (\<^verbatim>\<open>transports/middleware.py\<close>)
  over a routed transport that leases proxies (\<^verbatim>\<open>proxy/transport.py\<close>, \<^verbatim>\<open>proxy/static.py\<close>), rate limiters, the
  dispatch between HTTP and browser, and the HTTP transport with its URL policy and redirect loop.  Pages,
  diagnostics, events and checkpoints that leave the library are validated and redacted by its models.

  \<^bold>\<open>Conventions.\<close>  Data are records and datatypes with the fields of the source.  A call that may raise
  returns \<open>exn + 'a\<close>.  Code that calls its collaborators is an action of the monad of \<open>Effects\<close> over a world
  that holds the state of the collaborators and the log of the calls, so that a property can speak of all
  calls of one operation in their order; collaborators are arbitrary actions.  Code with several tasks
  under a lock is an inductive step relation whose steps are the critical sections between two suspension
  points, and a property holds in every reachable state.  Python dictionaries are association lists with
  insertion order (\<open>odict\<close> of \<open>Prelude\<close>), strings are character lists and the string methods are those of
  ASCII text, unbounded integers are \<open>int\<close> or, where they cannot be negative, \<open>nat\<close>, and times are rationals.

  \<^bold>\<open>Theories.\<close>
  \<^item> \<open>Prelude\<close>: ordered dictionaries, strings, the collections of simplification rules.  \<open>Effects\<close>: the
    monad with logged calls, exceptions and \<^verbatim>\<open>finally\<close>.  \<open>Urls\<close>: \<^verbatim>\<open>urllib.parse\<close>.  \<open>Regex\<close>: a backtracking
    matcher for the patterns of the source.  \<open>Json_Text\<close>, \<open>Sha256\<close>, \<open>Base64\<close>: \<^verbatim>\<open>json\<close>, \<^verbatim>\<open>hashlib.sha256\<close> and
    \<^verbatim>\<open>base64\<close>, with the round trips of texts and of bytes.
  \<^item> \<open>Transport_Base\<close>, \<open>Request_Size\<close>, \<open>Request_Budget\<close>: \<^verbatim>\<open>transports/base.py\<close> and \<^verbatim>\<open>models/policies.py\<close>.  The
    estimate of a request is the length of its HTTP message; the in-process budget is never overspent
    whatever attempts interleave.
  \<^item> \<open>Rate_Limit\<close>: \<^verbatim>\<open>transports/rate_limit.py\<close>; permits per origin and the spacing of starts.
  \<^item> \<open>Middleware\<close> and its three companions: \<^verbatim>\<open>transports/middleware.py\<close>, one definition per stage of
    \<^verbatim>\<open>request\<close>.  \<open>Middleware_Protocol\<close> shows that the calls of a request are a word of a protocol automaton,
    \<open>Middleware_Budget\<close> composes it with the budget, \<open>Middleware_Results\<close> describes the result and bounds the
    attempts by the retries.
  \<^item> \<open>Proxy_Health\<close>, \<open>Weighted_Selection\<close>, \<open>Proxy_Contract\<close>, \<open>Static_Pool\<close>: \<^verbatim>\<open>proxy/health.py\<close>, \<^verbatim>\<open>proxy/base.py\<close>,
    \<^verbatim>\<open>proxy/static.py\<close>.  Cooldowns, fairness of the weighted round robin, and the pool of leases; the locale
    of \<open>Proxy_Contract\<close> states what a pool promises, the static pool is an interpretation, and the routed
    transport relies on the locale only.
  \<^item> \<open>Routed\<close>, \<open>Routed_Attempt\<close>: \<^verbatim>\<open>proxy/transport.py\<close>.  The tasks of a routed transport as a step relation
    with cancellations (one lease at a time, no lease lost, no deadlock), and one proxied attempt as a
    protocol.
  \<^item> \<open>Url_Policy\<close>, \<open>Httpx\<close>, \<open>Client_Pool\<close>, \<open>Browser_Dispatch\<close>, \<open>Robots\<close>: \<^verbatim>\<open>transports/url_policy.py\<close>,
    \<^verbatim>\<open>transports/httpx.py\<close>, \<^verbatim>\<open>proxy/httpx.py\<close>, \<^verbatim>\<open>transports/browser.py\<close>, \<^verbatim>\<open>transports/robots.py\<close>.  Public
    addresses only, credentials never cross origins, clients are closed only when unused, browser work never
    goes over HTTP, one set of robots rules per origin.
  \<^item> \<open>Response_Cache\<close>, \<open>File_Cache\<close>: \<^verbatim>\<open>transports/cache.py\<close>.  Equal keys mean equal requests, up to collisions of
    SHA-256; the memory cache refines an unbounded map; what was written to a file is read back, and what is
    read from any file is within the limits.
  \<^item> \<open>Sanitization\<close>, \<open>Telemetry\<close>, \<open>Commerce_Models\<close>, \<open>Collection_Models\<close>, \<open>Checkpoints\<close>: \<^verbatim>\<open>models/\<close> and
    \<^verbatim>\<open>transports/telemetry.py\<close>.  Redaction and bounds at every depth, well-formedness of validated
    snapshots, unambiguous pages, and checkpoints that resume exactly their own collection.
  \<^item> \<open>Discovery\<close>: \<^verbatim>\<open>discovery/sitemap.py\<close>; the traversal ends within its limit and is complete.
  \<^item> \<open>Registry\<close>, \<open>Runtime\<close>: \<^verbatim>\<open>connectors/registry.py\<close>, \<^verbatim>\<open>connectors/factory.py\<close>, \<^verbatim>\<open>connectors/base.py\<close>,
    \<^verbatim>\<open>connectors/planning.py\<close>, \<^verbatim>\<open>runtime/client.py\<close>, \<^verbatim>\<open>runtime/builder.py\<close>.  The composed stack limits every
    route exactly once, a connector is opened and closed once, and every collection has exactly one end.
  \<^item> \<open>Shopify_Product\<close>, \<open>Shopify_Inventory\<close>, \<open>Shopify\<close>: \<^verbatim>\<open>connectors/shopify.py\<close> and the helpers it takes from
    \<^verbatim>\<open>parsing/_structured.py\<close>.  \<open>Shopify_Product\<close> turns an entry of a feed into a snapshot and shows that it says
    what the feed published; \<open>Shopify_Inventory\<close> has the optional inventory requests, which are admitted only
    while the next feed page stays affordable in the budget of \<open>Request_Budget\<close> and account for every product;
    \<open>Shopify\<close> is the collection itself: its pages are a well-formed stream, and over a stable feed every
    product is covered, also across checkpoints.

  \<^bold>\<open>Bounds and fuel.\<close>  The JSON reader takes as fuel one more than the length of the text; the round trips show
  that this is enough for every text the library writes.  Regular expressions are matched by recursion over
  the pattern.  The redirect loop, the retries and the sitemap traversal recurse over the limits
  of the source; that the traversal ends is proved for every limit.  The walk over the pages of a Shopify
  partition ends by the page limit, the waves of inventory requests by the number of pending requests.  All other
  recursion is structural or has a measure.

  \<^bold>\<open>Parameters.\<close>  The HTTP client, the resolver of host names, browsers, clocks, compression, HTML entities, the
  reading of instants and the text of floating-point numbers are arguments of the definitions; the hypotheses about them (what was compressed is
  decompressed, the text of a float denotes it) are those of their documentation and appear in the theorems.

  \<^bold>\<open>Not modelled.\<close>  The connectors of the other platforms and the page engine follow the contract the Shopify
  connector shows, and consist of per-site rules that extract fields from HTML and JSON; the parsers of JSON-LD,
  microdata and DOM fields belong to them.  The applications beside the library (\<^verbatim>\<open>catalogue-dump\<close>, \<^verbatim>\<open>catalogue-control\<close>,
  \<^verbatim>\<open>catalogue-service\<close>, \<^verbatim>\<open>catalogue-explorer\<close>) keep their state in PostgreSQL, and their logic is largely in
  SQL.  Text outside ASCII, the digits limit and recursion limit of the interpreter, and the rounding of
  floating-point arithmetic are outside the models, as the theories say where it matters.
\<close>

end
